(* ===== verification/Xom_Prelude.thy ===== *)
theory Xom_Prelude
  imports Main "HOL-Library.Word"
begin

unbundle bit_operations_syntax

text \<open>
  Shared vocabulary of the development: the widths of the C integer types the sources use,
  the error numbers of \<^verbatim>\<open>errno.h\<close> (the Xen and the Linux headers agree on every one used here),
  the page geometry, and generic lemmas about words, lists and bounded loops.
\<close>

type_synonym u8 = "8 word"
type_synonym u16 = "16 word"
type_synonym u32 = "32 word"
type_synonym u64 = "64 word"

named_theorems xom_simps
  \<open>rewrite rules that unfold the small helper operations of the model\<close>

subsection \<open>Error numbers\<close>

abbreviation (input) EPERM :: int where "EPERM \<equiv> 1"
abbreviation (input) ESRCH :: int where "ESRCH \<equiv> 3"
abbreviation (input) EBADF :: int where "EBADF \<equiv> 9"
abbreviation (input) ENOMEM :: int where "ENOMEM \<equiv> 12"
abbreviation (input) EFAULT :: int where "EFAULT \<equiv> 14"
abbreviation (input) EEXIST :: int where "EEXIST \<equiv> 17"
abbreviation (input) ENODEV :: int where "ENODEV \<equiv> 19"
abbreviation (input) EINVAL :: int where "EINVAL \<equiv> 22"
abbreviation (input) ERANGE :: int where "ERANGE \<equiv> 34"
abbreviation (input) EDEADLK :: int where "EDEADLK \<equiv> 35"
abbreviation (input) EOVERFLOW :: int where "EOVERFLOW \<equiv> 75"
abbreviation (input) ERESTART :: int where "ERESTART \<equiv> 85"
abbreviation (input) EOPNOTSUPP :: int where "EOPNOTSUPP \<equiv> 95"

subsection \<open>Page geometry\<close>

abbreviation (input) PAGE_SHIFT :: nat where "PAGE_SHIFT \<equiv> 12"
abbreviation (input) PAGE_SIZE :: nat where "PAGE_SIZE \<equiv> 4096"

text \<open>
  \<^verbatim>\<open>SUBPAGE_SIZE\<close> is \<^verbatim>\<open>PAGE_SIZE / (sizeof(uint32_t) << 3)\<close>: one bit of a 32-bit lock mask
  stands for each of the 32 subpages of a page.
\<close>

abbreviation (input) SUBPAGE_SIZE :: nat where "SUBPAGE_SIZE \<equiv> 128"
abbreviation (input) SUBPAGES_PER_PAGE :: nat where "SUBPAGES_PER_PAGE \<equiv> 32"

text \<open>
  \<^verbatim>\<open>MAX_SUBPAGES_PER_CMD\<close> is \<^verbatim>\<open>(PAGE_SIZE - sizeof(uint8_t)) / sizeof(xom_subpage_write_info)\<close>,
  where the write info is one target byte and 128 data bytes: \<open>4095 div 129 = 31\<close>.
\<close>

abbreviation (input) MAX_SUBPAGES_PER_CMD :: nat where "MAX_SUBPAGES_PER_CMD \<equiv> 31"

lemma MAX_SUBPAGES_PER_CMD_eq: "MAX_SUBPAGES_PER_CMD = (PAGE_SIZE - 1) div (1 + SUBPAGE_SIZE)"
  by simp

lemma SUBPAGES_PER_PAGE_eq: "SUBPAGES_PER_PAGE = PAGE_SIZE div SUBPAGE_SIZE"
  by simp

abbreviation (input) REG_CLEAR_TYPE_NONE :: nat where "REG_CLEAR_TYPE_NONE \<equiv> 0"
abbreviation (input) REG_CLEAR_TYPE_VECTOR :: nat where "REG_CLEAR_TYPE_VECTOR \<equiv> 1"
abbreviation (input) REG_CLEAR_TYPE_FULL :: nat where "REG_CLEAR_TYPE_FULL \<equiv> 2"

subsection \<open>Bytes\<close>

text \<open>The value of a list of bytes in little-endian order, and the list of \<open>n\<close> such bytes of a number.\<close>

fun le_val :: "u8 list \<Rightarrow> nat" where
  "le_val [] = 0"
| "le_val (b # bs) = unat b + 256 * le_val bs"

fun le_bytes :: "nat \<Rightarrow> nat \<Rightarrow> u8 list" where
  "le_bytes 0 x = []"
| "le_bytes (Suc n) x = of_nat (x mod 256) # le_bytes n (x div 256)"

lemma length_le_bytes [simp]: "length (le_bytes n x) = n"
  by (induction n x rule: le_bytes.induct) simp_all

lemma le_val_le_bytes: "le_val (le_bytes n x) = x mod 256 ^ n"
  by (induction n x rule: le_bytes.induct) (simp_all add: unat_of_nat mod_mult2_eq)

lemma upt_16: "[0..<16] = [0, 1, 2, 3, 4, 5, 6, 7, 8, 9, 10, 11, 12, 13, 14, 15 :: nat]"
  by code_simp

subsection \<open>Page-table index arithmetic\<close>

text \<open>Tables have 512 entries; a frame number splits into the index at a level and the rest below it.\<close>

lemma unat_drop: "unat (drop_bit n (a :: u64)) = unat a div 2 ^ n"
  unfolding unat_drop_bit_eq by (simp add: drop_bit_eq_div)

lemma unat_take: "unat (take_bit n (a :: u64)) = unat a mod 2 ^ n"
  unfolding unsigned_take_bit_eq by (simp add: take_bit_eq_mod)

lemma index_less: "unat (rem :: u64) < 2 ^ (Suc l * 9) \<Longrightarrow> unat (drop_bit (l * 9) rem) < 512"
proof -
  assume "unat rem < 2 ^ (Suc l * 9)"
  then have "unat rem < 512 * 2 ^ (l * 9)" by (simp add: power_add mult.commute)
  then show ?thesis by (simp add: unat_drop less_mult_imp_div_less)
qed

lemma take_less: "unat (take_bit n (rem :: u64)) < 2 ^ n"
  by (simp add: unat_take)

lemma same_index_rem:
  "drop_bit n (a :: u64) = drop_bit n b \<Longrightarrow> take_bit n a = take_bit n b \<Longrightarrow> a = b"
  by (metis bits_ident)

lemma split_rem: "of_nat (unat (drop_bit n (r :: u64))) * push_bit n 1 + take_bit n r = r"
proof -
  have "push_bit n (drop_bit n r) + take_bit n r = r" by (rule bits_ident)
  moreover have "push_bit n (drop_bit n r) = drop_bit n r * push_bit n 1" by (simp add: push_bit_eq_mult)
  ultimately show ?thesis by simp
qed

lemma unat_add_small: "unat (a :: u64) + unat b < 2 ^ 64 \<Longrightarrow> unat (a + b) = unat a + unat b"
  by (simp add: unat_word_ariths)

lemma unat_offset:
  assumes "i < 512" "l \<le> 4"
  shows "unat (of_nat i * push_bit (l * 9) 1 :: u64) = i * 2 ^ (l * 9)"
proof -
  have "l = 0 \<or> l = 1 \<or> l = 2 \<or> l = 3 \<or> l = 4" using assms(2) by auto
  then show ?thesis using assms(1)
    by (auto simp: unat_word_ariths unat_of_nat push_bit_of_1)
qed

text \<open>The frame of part \<open>i\<close> of a superpage all of whose frames fit a field of \<open>w\<close> bits.\<close>

lemma split_frame:
  assumes "unat (m :: u64) + 2 ^ (Suc l * 9) \<le> 2 ^ w" "w \<le> 63" "i < 512" "l \<le> 3"
  shows "unat (m + of_nat i * push_bit (l * 9) 1) = unat m + i * 2 ^ (l * 9)"
    and "unat (m + of_nat i * push_bit (l * 9) 1) + 2 ^ (l * 9) \<le> 2 ^ w"
    and "unat (m + of_nat i * push_bit (l * 9) 1) < 2 ^ w"
proof -
  have off: "unat (of_nat i * push_bit (l * 9) 1 :: u64) = i * 2 ^ (l * 9)"
    by (rule unat_offset) (use assms in auto)
  have "Suc i * 2 ^ (l * 9) \<le> (512 :: nat) * 2 ^ (l * 9)" using assms(3) by (intro mult_le_mono1) simp
  then have "i * 2 ^ (l * 9) + 2 ^ (l * 9) \<le> (2 :: nat) ^ (Suc l * 9)" by (simp add: power_add)
  with assms(1) have b: "unat m + i * 2 ^ (l * 9) + 2 ^ (l * 9) \<le> 2 ^ w" by linarith
  then have less: "unat m + i * 2 ^ (l * 9) < 2 ^ w" by (rule order.strict_trans2[rotated]) simp
  moreover have "(2 :: nat) ^ w < 2 ^ 64" using assms(2) by (intro power_strict_increasing) auto
  ultimately show eq: "unat (m + of_nat i * push_bit (l * 9) 1) = unat m + i * 2 ^ (l * 9)"
    using off by (subst unat_add_small) auto
  show "unat (m + of_nat i * push_bit (l * 9) 1) + 2 ^ (l * 9) \<le> 2 ^ w"
    "unat (m + of_nat i * push_bit (l * 9) 1) < 2 ^ w"
    using b less by (simp_all only: eq)
qed

end
