(* ===== verification/Rbtree.thy ===== *)
theory Rbtree
  imports Xom_Prelude
begin

text \<open>
  The red-black tree of \<^verbatim>\<open>xen/xen/lib/rbtree.c\<close>, which keeps the hypervisor's per-domain page
  tables of execute-only memory (\<^verbatim>\<open>xom_subpages\<close> and \<^verbatim>\<open>xom_reg_clear_pages\<close>).

  The C code works on nodes with parent pointers. A node together with its chain of parents is
  modelled as a subtree and the path from it to the root: a path is a list of frames, nearest
  parent first, and a frame is the parent node without the child the walk came from. Following
  \<^verbatim>\<open>rb_parent\<close> is taking the next frame, writing \<^verbatim>\<open>parent->rb_left\<close> is rebuilding a frame, and
  \<open>rb_unwind\<close> reads the tree behind the root pointer. Dereferencing a NULL pointer is the value
  \<^const>\<open>None\<close>.
\<close>

datatype rb_color = RB_RED | RB_BLACK

datatype ('k, 'v) rb_node =
    RbNull
  | RbNode rb_color "('k, 'v) rb_node" 'k 'v "('k, 'v) rb_node"

datatype ('k, 'v) rb_frame =
    LeftOf rb_color 'k 'v "('k, 'v) rb_node"
  | RightOf rb_color "('k, 'v) rb_node" 'k 'v

type_synonym ('k, 'v) rb_path = "('k, 'v) rb_frame list"

fun rb_plug :: "('k, 'v) rb_frame \<Rightarrow> ('k, 'v) rb_node \<Rightarrow> ('k, 'v) rb_node" where
  "rb_plug (LeftOf c k v r) t = RbNode c t k v r"
| "rb_plug (RightOf c l k v) t = RbNode c l k v t"

fun rb_unwind :: "('k, 'v) rb_path \<Rightarrow> ('k, 'v) rb_node \<Rightarrow> ('k, 'v) rb_node" where
  "rb_unwind [] t = t"
| "rb_unwind (f # p) t = rb_unwind p (rb_plug f t)"

text \<open>\<^verbatim>\<open>rb_is_red(tmp)\<close> guarded by \<^verbatim>\<open>tmp &&\<close>, and a non-NULL guarded colour write.\<close>

fun rb_is_red :: "('k, 'v) rb_node \<Rightarrow> bool" where
  "rb_is_red (RbNode RB_RED l k v r) = True"
| "rb_is_red _ = False"

fun rb_set_color :: "rb_color \<Rightarrow> ('k, 'v) rb_node \<Rightarrow> ('k, 'v) rb_node" where
  "rb_set_color c RbNull = RbNull"
| "rb_set_color c (RbNode _ l k v r) = RbNode c l k v r"

fun frame_color :: "('k, 'v) rb_frame \<Rightarrow> rb_color" where
  "frame_color (LeftOf c k v r) = c"
| "frame_color (RightOf c l k v) = c"

subsection \<open>Insertion\<close>

text \<open>
  The loop of \<^verbatim>\<open>rb_insert_color\<close>: the arguments are the path of \<^verbatim>\<open>node\<close> and the subtree at it.
  Cases 1 to 3 are those of the source. \<open>rb_insert_case2\<close> is the optional rotation at the parent
  (its last argument says whether the parent is a left child of the grandparent); it yields the
  subtree that the variable \<^verbatim>\<open>parent\<close> points to when case 3 starts.
\<close>

fun rb_insert_case2 :: "('k, 'v) rb_frame \<Rightarrow> ('k, 'v) rb_node \<Rightarrow> bool \<Rightarrow> ('k, 'v) rb_node option" where
  \<comment> \<open>parent is the left child of gparent\<close>
  "rb_insert_case2 (LeftOf pc pk pv pr) n True = Some (RbNode pc n pk pv pr)"
| "rb_insert_case2 (RightOf pc pl pk pv) (RbNode nc nl nk nv nr) True =
     Some (RbNode nc (RbNode RB_RED pl pk pv (rb_set_color RB_BLACK nl)) nk nv nr)"
  \<comment> \<open>parent is the right child of gparent\<close>
| "rb_insert_case2 (RightOf pc pl pk pv) n False = Some (RbNode pc pl pk pv n)"
| "rb_insert_case2 (LeftOf pc pk pv pr) (RbNode nc nl nk nv nr) False =
     Some (RbNode nc nl nk nv (RbNode RB_RED (rb_set_color RB_BLACK nr) pk pv pr))"
| "rb_insert_case2 _ RbNull _ = None"

fun rb_insert_color :: "('k, 'v) rb_path \<Rightarrow> ('k, 'v) rb_node \<Rightarrow> ('k, 'v) rb_node option" where
  "rb_insert_color [] n = Some (rb_set_color RB_BLACK n)"
| "rb_insert_color (p # rest) n =
     (if frame_color p = RB_BLACK then Some (rb_unwind (p # rest) n)
      else case rest of
        [] \<Rightarrow> None
      | LeftOf gc gk gv u # up \<Rightarrow>
          if rb_is_red u
          then rb_insert_color up
                 (RbNode RB_RED (rb_set_color RB_BLACK (rb_plug p n)) gk gv (rb_set_color RB_BLACK u))
          else (case rb_insert_case2 p n True of
              Some (RbNode pc pl pk pv pr) \<Rightarrow>
                Some (rb_unwind up
                  (RbNode gc pl pk pv (RbNode RB_RED (rb_set_color RB_BLACK pr) gk gv u)))
            | _ \<Rightarrow> None)
      | RightOf gc u gk gv # up \<Rightarrow>
          if rb_is_red u
          then rb_insert_color up
                 (RbNode RB_RED (rb_set_color RB_BLACK u) gk gv (rb_set_color RB_BLACK (rb_plug p n)))
          else (case rb_insert_case2 p n False of
              Some (RbNode pc pl pk pv pr) \<Rightarrow>
                Some (rb_unwind up
                  (RbNode gc (RbNode RB_RED u gk gv (rb_set_color RB_BLACK pl)) pk pv pr))
            | _ \<Rightarrow> None))"

subsection \<open>Removal\<close>

text \<open>
  One iteration of \<^verbatim>\<open>__rb_erase_color\<close>: \<open>n\<close> is the node whose paths are one black node short,
  \<open>pc pk pv\<close> its parent, \<open>s\<close> its sibling. \<open>Fixed t\<close>: the loop breaks with \<open>t\<close> at the place of the
  parent; \<open>Short t\<close>: it continues one level up with \<open>t\<close> as the node.
\<close>

datatype ('k, 'v) rb_fix = Fixed "('k, 'v) rb_node" | Short "('k, 'v) rb_node"

fun rb_erase_black_left ::
  "rb_color \<Rightarrow> 'k \<Rightarrow> 'v \<Rightarrow> ('k, 'v) rb_node \<Rightarrow> ('k, 'v) rb_node \<Rightarrow> ('k, 'v) rb_fix option" where
  "rb_erase_black_left pc pk pv n RbNull = None"
| "rb_erase_black_left pc pk pv n (RbNode sc sl sk sv sr) =
     (if \<not> rb_is_red sr then
        if \<not> rb_is_red sl then
          \<comment> \<open>case 2: sibling colour flip\<close>
          if pc = RB_RED then Some (Fixed (RbNode RB_BLACK n pk pv (RbNode RB_RED sl sk sv sr)))
          else Some (Short (RbNode pc n pk pv (RbNode RB_RED sl sk sv sr)))
        else (case sl of
            \<comment> \<open>case 3: right rotate at sibling, then case 4\<close>
            RbNode tc nl tk tv nr \<Rightarrow>
              Some (Fixed (RbNode pc (RbNode RB_BLACK n pk pv nl) tk tv
                                     (RbNode RB_BLACK (rb_set_color RB_BLACK nr) sk sv sr)))
          | RbNull \<Rightarrow> None)
      else
        \<comment> \<open>case 4: left rotate at parent and colour flips\<close>
        Some (Fixed (RbNode pc (RbNode RB_BLACK n pk pv sl) sk sv (rb_set_color RB_BLACK sr))))"

fun rb_erase_black_right ::
  "rb_color \<Rightarrow> 'k \<Rightarrow> 'v \<Rightarrow> ('k, 'v) rb_node \<Rightarrow> ('k, 'v) rb_node \<Rightarrow> ('k, 'v) rb_fix option" where
  "rb_erase_black_right pc pk pv n RbNull = None"
| "rb_erase_black_right pc pk pv n (RbNode sc sl sk sv sr) =
     (if \<not> rb_is_red sl then
        if \<not> rb_is_red sr then
          if pc = RB_RED then Some (Fixed (RbNode RB_BLACK (RbNode RB_RED sl sk sv sr) pk pv n))
          else Some (Short (RbNode pc (RbNode RB_RED sl sk sv sr) pk pv n))
        else (case sr of
            RbNode tc nl tk tv nr \<Rightarrow>
              Some (Fixed (RbNode pc (RbNode RB_BLACK sl sk sv (rb_set_color RB_BLACK nl)) tk tv
                                     (RbNode RB_BLACK nr pk pv n)))
          | RbNull \<Rightarrow> None)
      else
        Some (Fixed (RbNode pc (rb_set_color RB_BLACK sl) sk sv (RbNode RB_BLACK sr pk pv n))))"

text \<open>
  Case 1 (the sibling is red) rotates first and leaves a red parent below the old sibling, so the
  rest of the iteration always breaks. \<^verbatim>\<open>rb_set_parent_color(tmp1, ...)\<close> dereferences the near
  child of the sibling without a NULL test.
\<close>

fun rb_erase_step_left ::
  "rb_color \<Rightarrow> 'k \<Rightarrow> 'v \<Rightarrow> ('k, 'v) rb_node \<Rightarrow> ('k, 'v) rb_node \<Rightarrow> ('k, 'v) rb_fix option" where
  "rb_erase_step_left pc pk pv n (RbNode RB_RED sl sk sv sr) =
     (case rb_erase_black_left RB_RED pk pv n (rb_set_color RB_BLACK sl) of
        Some (Fixed t) \<Rightarrow> Some (Fixed (RbNode pc t sk sv sr))
      | _ \<Rightarrow> None)"
| "rb_erase_step_left pc pk pv n s = rb_erase_black_left pc pk pv n s"

fun rb_erase_step_right ::
  "rb_color \<Rightarrow> 'k \<Rightarrow> 'v \<Rightarrow> ('k, 'v) rb_node \<Rightarrow> ('k, 'v) rb_node \<Rightarrow> ('k, 'v) rb_fix option" where
  "rb_erase_step_right pc pk pv n (RbNode RB_RED sl sk sv sr) =
     (case rb_erase_black_right RB_RED pk pv n (rb_set_color RB_BLACK sr) of
        Some (Fixed t) \<Rightarrow> Some (Fixed (RbNode pc sl sk sv t))
      | _ \<Rightarrow> None)"
| "rb_erase_step_right pc pk pv n s = rb_erase_black_right pc pk pv n s"

fun rb_erase_color :: "('k, 'v) rb_path \<Rightarrow> ('k, 'v) rb_node \<Rightarrow> ('k, 'v) rb_node option" where
  "rb_erase_color [] n = Some n"
| "rb_erase_color (LeftOf pc pk pv s # up) n =
     (case rb_erase_step_left pc pk pv n s of
        None \<Rightarrow> None
      | Some (Fixed t) \<Rightarrow> Some (rb_unwind up t)
      | Some (Short t) \<Rightarrow> rb_erase_color up t)"
| "rb_erase_color (RightOf pc s pk pv # up) n =
     (case rb_erase_step_right pc pk pv n s of
        None \<Rightarrow> None
      | Some (Fixed t) \<Rightarrow> Some (rb_unwind up t)
      | Some (Short t) \<Rightarrow> rb_erase_color up t)"

text \<open>
  \<open>rb_successor\<close> is the \<^verbatim>\<open>do ... while (tmp)\<close> walk to the leftmost node below the right child;
  it returns the frames it passed and the node it ends at.
\<close>

fun rb_successor ::
  "('k, 'v) rb_path \<Rightarrow> ('k, 'v) rb_node \<Rightarrow> ('k, 'v) rb_path \<times> ('k, 'v) rb_node" where
  "rb_successor q RbNull = (q, RbNull)"
| "rb_successor q (RbNode c l k v r) =
     (case l of RbNull \<Rightarrow> (q, RbNode c l k v r) | _ \<Rightarrow> rb_successor (LeftOf c k v r # q) l)"

text \<open>
  \<^verbatim>\<open>rb_erase\<close>: \<open>p\<close> and the second argument locate the node to unlink. The variable \<^verbatim>\<open>rebalance\<close> of
  the source is non-NULL exactly where \<^const>\<open>rb_erase_color\<close> is called below (on the empty path the
  call is the identity, as the source's NULL test).
\<close>

fun rb_erase :: "('k, 'v) rb_path \<Rightarrow> ('k, 'v) rb_node \<Rightarrow> ('k, 'v) rb_node option" where
  "rb_erase p RbNull = None"
| "rb_erase p (RbNode c RbNull k v r) =
     (case r of
        RbNull \<Rightarrow> if c = RB_BLACK then rb_erase_color p RbNull else Some (rb_unwind p RbNull)
      | _ \<Rightarrow> Some (rb_unwind p (rb_set_color c r)))"
| "rb_erase p (RbNode c l k v RbNull) = Some (rb_unwind p (rb_set_color c l))"
| "rb_erase p (RbNode c l k v r) =
     (case rb_successor [] r of
        (q, RbNode sc _ sk sv child2) \<Rightarrow>
          (case child2 of
             RbNull \<Rightarrow> if sc = RB_BLACK
                       then rb_erase_color (q @ RightOf c l sk sv # p) RbNull
                       else Some (rb_unwind (q @ RightOf c l sk sv # p) RbNull)
           | _ \<Rightarrow> Some (rb_unwind (q @ RightOf c l sk sv # p) (rb_set_color RB_BLACK child2)))
      | (q, RbNull) \<Rightarrow> None)"

subsection \<open>In-order contents\<close>

fun rb_inorder :: "('k, 'v) rb_node \<Rightarrow> ('k \<times> 'v) list" where
  "rb_inorder RbNull = []"
| "rb_inorder (RbNode c l k v r) = rb_inorder l @ (k, v) # rb_inorder r"

fun path_before :: "('k, 'v) rb_path \<Rightarrow> ('k \<times> 'v) list" where
  "path_before [] = []"
| "path_before (LeftOf c k v r # p) = path_before p"
| "path_before (RightOf c l k v # p) = path_before p @ rb_inorder l @ [(k, v)]"

fun path_after :: "('k, 'v) rb_path \<Rightarrow> ('k \<times> 'v) list" where
  "path_after [] = []"
| "path_after (LeftOf c k v r # p) = (k, v) # rb_inorder r @ path_after p"
| "path_after (RightOf c l k v # p) = path_after p"

lemma inorder_set_color [simp]: "rb_inorder (rb_set_color c t) = rb_inorder t"
  by (cases t) auto

lemma inorder_unwind [simp]:
  "rb_inorder (rb_unwind p t) = path_before p @ rb_inorder t @ path_after p"
proof (induction p arbitrary: t)
  case (Cons f p)
  then show ?case by (cases f) auto
qed simp

lemma inorder_insert_case2:
  "rb_insert_case2 p n b = Some t \<Longrightarrow> rb_inorder t = rb_inorder (rb_plug p n)"
  by (induction p n b rule: rb_insert_case2.induct) auto

lemma inorder_insert_color:
  "rb_insert_color p n = Some t \<Longrightarrow> rb_inorder t = path_before p @ rb_inorder n @ path_after p"
proof (induction p n rule: rb_insert_color.induct)
  case (1 n)
  then show ?case by auto
next
  case (2 f rest n)
  show ?case
  proof (cases "frame_color f = RB_BLACK")
    case True
    with "2.prems" show ?thesis by (cases f) auto
  next
    case False
    with "2" show ?thesis
      by (cases f; cases rest)
        (auto split: rb_frame.splits if_splits option.splits rb_node.splits
          dest!: inorder_insert_case2)
  qed
qed

lemma inorder_erase_black_left:
  "rb_erase_black_left pc pk pv n s = Some x \<Longrightarrow>
   (case x of Fixed t \<Rightarrow> rb_inorder t | Short t \<Rightarrow> rb_inorder t)
     = rb_inorder n @ (pk, pv) # rb_inorder s"
  by (cases s) (auto split: if_splits rb_node.splits)

lemma inorder_erase_black_right:
  "rb_erase_black_right pc pk pv n s = Some x \<Longrightarrow>
   (case x of Fixed t \<Rightarrow> rb_inorder t | Short t \<Rightarrow> rb_inorder t)
     = rb_inorder s @ (pk, pv) # rb_inorder n"
  by (cases s) (auto split: if_splits rb_node.splits)

lemma inorder_erase_step_left:
  "rb_erase_step_left pc pk pv n s = Some x \<Longrightarrow>
   (case x of Fixed t \<Rightarrow> rb_inorder t | Short t \<Rightarrow> rb_inorder t)
     = rb_inorder n @ (pk, pv) # rb_inorder s"
  by (induction pc pk pv n s rule: rb_erase_step_left.induct)
    (auto split: option.splits rb_fix.splits dest!: inorder_erase_black_left
      simp del: rb_erase_black_left.simps)

lemma inorder_erase_step_right:
  "rb_erase_step_right pc pk pv n s = Some x \<Longrightarrow>
   (case x of Fixed t \<Rightarrow> rb_inorder t | Short t \<Rightarrow> rb_inorder t)
     = rb_inorder s @ (pk, pv) # rb_inorder n"
  by (induction pc pk pv n s rule: rb_erase_step_right.induct)
    (auto split: option.splits rb_fix.splits dest!: inorder_erase_black_right
      simp del: rb_erase_black_right.simps)

lemma inorder_erase_color:
  "rb_erase_color p n = Some t \<Longrightarrow> rb_inorder t = path_before p @ rb_inorder n @ path_after p"
  by (induction p n rule: rb_erase_color.induct)
    (fastforce split: option.splits rb_fix.splits
      dest!: inorder_erase_step_left inorder_erase_step_right)+

lemma successor_frames:
  "rb_successor q t = (q', s) \<Longrightarrow> t \<noteq> RbNull \<Longrightarrow>
   path_before q' = path_before q \<and>
   (\<exists>c k v r. s = RbNode c RbNull k v r \<and>
      (k, v) # rb_inorder r @ path_after q' = rb_inorder t @ path_after q)"
  by (induction q t rule: rb_successor.induct) (auto split: rb_node.splits)

lemma path_before_append: "path_before (p @ q) = path_before q @ path_before p"
  by (induction p rule: path_before.induct) auto

lemma path_after_append: "path_after (p @ q) = path_after p @ path_after q"
  by (induction p rule: path_after.induct) auto

lemma rb_erase_two_children:
  assumes "l \<noteq> RbNull" "r \<noteq> RbNull" "rb_successor [] r = (q, RbNode sc x sk sv child2)"
  shows "rb_erase p (RbNode c l k v r) =
    (if child2 \<noteq> RbNull
     then Some (rb_unwind (q @ RightOf c l sk sv # p) (rb_set_color RB_BLACK child2))
     else if sc = RB_BLACK then rb_erase_color (q @ RightOf c l sk sv # p) RbNull
     else Some (rb_unwind (q @ RightOf c l sk sv # p) RbNull))"
  using assms by (cases l; cases r; simp; cases child2; simp)

lemma rb_erase_left_null:
  "rb_erase p (RbNode c RbNull k v r) =
    (if r \<noteq> RbNull then Some (rb_unwind p (rb_set_color c r))
     else if c = RB_BLACK then rb_erase_color p RbNull else Some (rb_unwind p RbNull))"
  by (cases r) simp_all

lemma rb_erase_right_null:
  "l \<noteq> RbNull \<Longrightarrow> rb_erase p (RbNode c l k v RbNull) = Some (rb_unwind p (rb_set_color c l))"
  by (cases l) simp_all

declare rb_erase.simps(2-4) [simp del]

lemma inorder_erase:
  assumes "rb_erase p (RbNode c l k v r) = Some t"
  shows "rb_inorder t = path_before p @ rb_inorder l @ rb_inorder r @ path_after p"
proof -
  consider "l = RbNull" | "l \<noteq> RbNull" "r = RbNull" | "l \<noteq> RbNull" "r \<noteq> RbNull" by blast
  then show ?thesis
  proof cases
    case 1
    with assms show ?thesis
      by (auto simp: rb_erase_left_null split: if_splits dest: inorder_erase_color)
  next
    case 2
    with assms show ?thesis by (auto simp: rb_erase_right_null)
  next
    case 3
    obtain q s where qs: "rb_successor [] r = (q, s)" by fastforce
    with 3 obtain sc sk sv child2 where
      s: "s = RbNode sc RbNull sk sv child2" and q: "path_before q = []"
      and r: "rb_inorder r = (sk, sv) # rb_inorder child2 @ path_after q"
      using successor_frames[OF qs] by fastforce
    let ?p = "q @ RightOf c l sk sv # p"
    have "rb_inorder t = path_before ?p @ rb_inorder child2 @ path_after ?p"
      using assms unfolding rb_erase_two_children[OF 3 qs[unfolded s]]
      by (auto split: if_splits dest: inorder_erase_color)
    then show ?thesis by (simp add: path_before_append path_after_append q r)
  qed
qed

subsection \<open>Balance\<close>

text \<open>
  The rules of the comment at the head of \<^verbatim>\<open>rbtree.c\<close>: the root is black (2), a red node has no
  red child (4), and all paths from the root to a leaf have the same number of black nodes (5).
\<close>

fun rb_rr_free :: "('k, 'v) rb_node \<Rightarrow> bool" where
  "rb_rr_free RbNull = True"
| "rb_rr_free (RbNode c l k v r) =
     (rb_rr_free l \<and> rb_rr_free r \<and> (c = RB_RED \<longrightarrow> \<not> rb_is_red l \<and> \<not> rb_is_red r))"

fun rb_bh :: "('k, 'v) rb_node \<Rightarrow> nat option" where
  "rb_bh RbNull = Some 0"
| "rb_bh (RbNode c l k v r) =
     (case (rb_bh l, rb_bh r) of
        (Some a, Some b) \<Rightarrow> if a = b then Some (if c = RB_BLACK then Suc a else a) else None
      | _ \<Rightarrow> None)"

definition rb_valid :: "('k, 'v) rb_node \<Rightarrow> bool" where
  "rb_valid t \<longleftrightarrow> \<not> rb_is_red t \<and> rb_rr_free t \<and> rb_bh t \<noteq> None"

fun frame_sibling :: "('k, 'v) rb_frame \<Rightarrow> ('k, 'v) rb_node" where
  "frame_sibling (LeftOf c k v r) = r"
| "frame_sibling (RightOf c l k v) = l"

fun path_red :: "('k, 'v) rb_path \<Rightarrow> bool" where
  "path_red [] = False"
| "path_red (f # p) = (frame_color f = RB_RED)"

text \<open>
  \<open>path_valid p h\<close>: plugging a black subtree of black height \<open>h\<close> into the path gives a valid tree.
\<close>

fun path_valid :: "('k, 'v) rb_path \<Rightarrow> nat \<Rightarrow> bool" where
  "path_valid [] h = True"
| "path_valid (f # p) h =
     (rb_rr_free (frame_sibling f) \<and> rb_bh (frame_sibling f) = Some h
      \<and> (if frame_color f = RB_RED
         then \<not> rb_is_red (frame_sibling f) \<and> p \<noteq> [] \<and> \<not> path_red p \<and> path_valid p h
         else path_valid p (Suc h)))"

lemma is_red_iff: "rb_is_red t \<longleftrightarrow> (\<exists>l k v r. t = RbNode RB_RED l k v r)"
  by (cases t rule: rb_is_red.cases) auto

lemma not_red_set_black [simp]: "\<not> rb_is_red (rb_set_color RB_BLACK t)"
  by (cases t) auto

lemma rr_free_set_black [simp]: "rb_rr_free t \<Longrightarrow> rb_rr_free (rb_set_color RB_BLACK t)"
  by (cases t) auto

lemma set_black_id [simp]: "\<not> rb_is_red t \<Longrightarrow> rb_set_color RB_BLACK t = t"
  by (cases t rule: rb_is_red.cases) auto

lemma color_not_black [simp]: "c \<noteq> RB_BLACK \<longleftrightarrow> c = RB_RED"
  by (cases c) auto

lemma color_not_red [simp]: "c \<noteq> RB_RED \<longleftrightarrow> c = RB_BLACK"
  by (cases c) auto

lemma bh_node_Some:
  "rb_bh (RbNode c l k v r) = Some h \<longleftrightarrow>
   (\<exists>a. rb_bh l = Some a \<and> rb_bh r = Some a \<and> h = (if c = RB_BLACK then Suc a else a))"
  by (auto split: option.splits if_splits)

declare rb_bh.simps(2) [simp del]
declare bh_node_Some [simp]

text \<open>A subtree may be plugged when its colour suits the frame above it and its height fits.\<close>

definition fits :: "('k, 'v) rb_path \<Rightarrow> ('k, 'v) rb_node \<Rightarrow> nat \<Rightarrow> bool" where
  "fits p t h \<longleftrightarrow> rb_rr_free t \<and> rb_bh t = Some h \<and> (p = [] \<or> path_red p \<longrightarrow> \<not> rb_is_red t)"

lemma valid_unwind: "path_valid p h \<Longrightarrow> fits p t h \<Longrightarrow> rb_valid (rb_unwind p t)"
proof (induction p arbitrary: t h)
  case Nil
  then show ?case by (auto simp: rb_valid_def fits_def)
next
  case (Cons f p)
  let ?h = "if frame_color f = RB_RED then h else Suc h"
  have "path_valid p ?h" "fits p (rb_plug f t) ?h"
    using Cons.prems by (cases f; cases "frame_color f"; simp add: fits_def)+
  from Cons.IH[OF this] show ?case by simp
qed

lemma unwind_valid:
  "rb_valid (rb_unwind p t) \<Longrightarrow> \<exists>h. path_valid p h \<and> fits p t h"
proof (induction p arbitrary: t)
  case Nil
  then show ?case by (auto simp: rb_valid_def fits_def)
next
  case (Cons f p)
  from Cons.prems have "rb_valid (rb_unwind p (rb_plug f t))" by simp
  from Cons.IH[OF this] obtain h where "path_valid p h" "fits p (rb_plug f t) h" by blast
  then have "path_valid (f # p) (the (rb_bh t)) \<and> fits (f # p) t (the (rb_bh t))"
    by (cases f; cases "frame_color f") (auto simp: fits_def)
  then show ?case by blast
qed

text \<open>
  \<^verbatim>\<open>rb_insert_color\<close> never dereferences NULL and rebalances: \<open>red_fits\<close> is the comment
  ``Loop invariant: node is red'' with the two rules that hold below and around the node.
\<close>

definition red_fits :: "('k, 'v) rb_node \<Rightarrow> nat \<Rightarrow> bool" where
  "red_fits n h \<longleftrightarrow> rb_is_red n \<and> rb_rr_free n \<and> rb_bh n = Some h"

lemma insert_color_flip:
  assumes "frame_color f = RB_RED" "rb_is_red (frame_sibling g)"
    and "path_valid (f # g # up) h" "red_fits n h"
  shows "\<exists>m. rb_insert_color (f # g # up) n = rb_insert_color up m
    \<and> path_valid up (Suc h) \<and> red_fits m (Suc h)"
proof (cases g)
  case (LeftOf gc gk gv u)
  with assms show ?thesis
    by (intro exI[of _ "RbNode RB_RED (rb_set_color RB_BLACK (rb_plug f n)) gk gv (rb_set_color RB_BLACK u)"])
      (cases f; auto simp: red_fits_def is_red_iff)
next
  case (RightOf gc u gk gv)
  with assms show ?thesis
    by (intro exI[of _ "RbNode RB_RED (rb_set_color RB_BLACK u) gk gv (rb_set_color RB_BLACK (rb_plug f n))"])
      (cases f; auto simp: red_fits_def is_red_iff)
qed

lemma insert_color_rotate:
  assumes "frame_color f = RB_RED" "\<not> rb_is_red (frame_sibling g)"
    and "path_valid (f # g # up) h" "red_fits n h"
  shows "\<exists>m. rb_insert_color (f # g # up) n = Some (rb_unwind up m)
    \<and> path_valid up (Suc h) \<and> fits up m (Suc h)"
  using assms
  by (cases g; cases f) (auto simp: red_fits_def is_red_iff fits_def)

lemma valid_insert_color:
  "path_valid p h \<Longrightarrow> red_fits n h \<Longrightarrow> \<exists>t. rb_insert_color p n = Some t \<and> rb_valid t"
proof (induction "length p" arbitrary: p n h rule: less_induct)
  case less
  consider "p = []" | f rest where "p = f # rest" "frame_color f = RB_BLACK"
    | f where "p = [f]" "frame_color f = RB_RED"
    | f g up where "p = f # g # up" "frame_color f = RB_RED"
    by (metis color_not_red neq_Nil_conv)
  then show ?case
  proof cases
    case 1
    with less.prems show ?thesis by (auto simp: red_fits_def rb_valid_def is_red_iff)
  next
    case (2 f rest)
    with less.prems valid_unwind[of p h n] show ?thesis by (auto simp: red_fits_def fits_def)
  next
    case (3 f)
    with less.prems show ?thesis by simp
  next
    case (4 f g up)
    then show ?thesis
      using less insert_color_flip[of f g up h n] insert_color_rotate[of f g up h n]
        valid_unwind[of up "Suc h"]
      by (cases "rb_is_red (frame_sibling g)") force+
  qed
qed

text \<open>
  \<^verbatim>\<open>__rb_erase_color\<close>: a black subtree one black node short of its place is repaired, or its
  parent is a black node with the same defect.
\<close>

definition short_fits :: "('k, 'v) rb_node \<Rightarrow> nat \<Rightarrow> bool" where
  "short_fits n h \<longleftrightarrow> \<not> rb_is_red n \<and> rb_rr_free n \<and> rb_bh n = Some h"

fun fix_ok :: "('k, 'v) rb_path \<Rightarrow> nat \<Rightarrow> ('k, 'v) rb_fix \<Rightarrow> bool" where
  "fix_ok p h (Fixed t) = (path_valid p h \<and> fits p t h)"
| "fix_ok p h (Short t) = (path_valid p h \<and> 0 < h \<and> short_fits t (h - 1))"

lemma erase_black_left_ok:
  assumes "short_fits n h" "rb_rr_free s" "\<not> rb_is_red s" "rb_bh s = Some (Suc h)"
    and "pc = RB_RED \<Longrightarrow> \<not> path_red p \<and> p \<noteq> []" "path_valid p (if pc = RB_RED then Suc h else Suc (Suc h))"
  shows "\<exists>x. rb_erase_black_left pc pk pv n s = Some x
    \<and> fix_ok p (if pc = RB_RED then Suc h else Suc (Suc h)) x"
proof (cases s)
  case (RbNode sc sl sk sv sr)
  with assms show ?thesis
    by (cases "rb_is_red sr"; cases "rb_is_red sl"; cases pc)
      (auto simp: short_fits_def fits_def is_red_iff split: rb_node.splits)
qed (use assms in simp)

lemma erase_black_left_red:
  "rb_erase_black_left RB_RED pk pv n s = Some x \<Longrightarrow> \<exists>t. x = Fixed t"
  by (cases s) (auto split: if_splits rb_node.splits)

lemma erase_step_left_ok:
  assumes n: "short_fits n h" and p: "path_valid (LeftOf pc pk pv s # p) (Suc h)"
  shows "\<exists>x. rb_erase_step_left pc pk pv n s = Some x
    \<and> fix_ok p (if pc = RB_RED then Suc h else Suc (Suc h)) x"
proof (cases "rb_is_red s")
  case True
  with p obtain sl sk sv sr where s: "s = RbNode RB_RED sl sk sv sr" and pc: "pc = RB_BLACK"
    by (cases pc) (auto simp: is_red_iff)
  let ?p = "LeftOf pc sk sv sr # p"
  have "\<exists>x. rb_erase_black_left RB_RED pk pv n sl = Some x
      \<and> fix_ok ?p (if RB_RED = RB_RED then Suc h else Suc (Suc h)) x"
    using n p s pc by (intro erase_black_left_ok) auto
  then obtain t where "rb_erase_black_left RB_RED pk pv n sl = Some (Fixed t)" "fix_ok ?p (Suc h) (Fixed t)"
    using erase_black_left_red by fastforce
  with p s pc show ?thesis by (auto simp: fits_def)
next
  case False
  with p have "rb_erase_step_left pc pk pv n s = rb_erase_black_left pc pk pv n s"
    by (cases s rule: rb_is_red.cases) auto
  with False n p show ?thesis
    using erase_black_left_ok[of n h s pc p pk pv] by (auto split: if_splits)
qed

lemma erase_black_right_ok:
  assumes "short_fits n h" "rb_rr_free s" "\<not> rb_is_red s" "rb_bh s = Some (Suc h)"
    and "pc = RB_RED \<Longrightarrow> \<not> path_red p \<and> p \<noteq> []" "path_valid p (if pc = RB_RED then Suc h else Suc (Suc h))"
  shows "\<exists>x. rb_erase_black_right pc pk pv n s = Some x
    \<and> fix_ok p (if pc = RB_RED then Suc h else Suc (Suc h)) x"
proof (cases s)
  case (RbNode sc sl sk sv sr)
  with assms show ?thesis
    by (cases "rb_is_red sr"; cases "rb_is_red sl"; cases pc)
      (auto simp: short_fits_def fits_def is_red_iff split: rb_node.splits)
qed (use assms in simp)

lemma erase_black_right_red:
  "rb_erase_black_right RB_RED pk pv n s = Some x \<Longrightarrow> \<exists>t. x = Fixed t"
  by (cases s) (auto split: if_splits rb_node.splits)

lemma erase_step_right_ok:
  assumes n: "short_fits n h" and p: "path_valid (RightOf pc s pk pv # p) (Suc h)"
  shows "\<exists>x. rb_erase_step_right pc pk pv n s = Some x
    \<and> fix_ok p (if pc = RB_RED then Suc h else Suc (Suc h)) x"
proof (cases "rb_is_red s")
  case True
  with p obtain sl sk sv sr where s: "s = RbNode RB_RED sl sk sv sr" and pc: "pc = RB_BLACK"
    by (cases pc) (auto simp: is_red_iff)
  let ?p = "RightOf pc sl sk sv # p"
  have "\<exists>x. rb_erase_black_right RB_RED pk pv n sr = Some x
      \<and> fix_ok ?p (if RB_RED = RB_RED then Suc h else Suc (Suc h)) x"
    using n p s pc by (intro erase_black_right_ok) auto
  then obtain t where "rb_erase_black_right RB_RED pk pv n sr = Some (Fixed t)" "fix_ok ?p (Suc h) (Fixed t)"
    using erase_black_right_red by fastforce
  with p s pc show ?thesis by (auto simp: fits_def)
next
  case False
  with p have "rb_erase_step_right pc pk pv n s = rb_erase_black_right pc pk pv n s"
    by (cases s rule: rb_is_red.cases) auto
  with False n p show ?thesis
    using erase_black_right_ok[of n h s pc p pk pv] by (auto split: if_splits)
qed

lemma valid_erase_color:
  "path_valid p (Suc h) \<Longrightarrow> short_fits n h \<Longrightarrow> \<exists>t. rb_erase_color p n = Some t \<and> rb_valid t"
proof (induction p n arbitrary: h rule: rb_erase_color.induct)
  case (1 n)
  then show ?case by (auto simp: short_fits_def rb_valid_def)
next
  case (2 pc pk pv s up n)
  from erase_step_left_ok[OF "2.prems"(2,1)] obtain x where
    x: "rb_erase_step_left pc pk pv n s = Some x"
       "fix_ok up (if pc = RB_RED then Suc h else Suc (Suc h)) x" by blast
  with "2.IH" show ?case by (cases x) (auto dest: valid_unwind split: if_splits)
next
  case (3 pc s pk pv up n)
  from erase_step_right_ok[OF "3.prems"(2,1)] obtain x where
    x: "rb_erase_step_right pc pk pv n s = Some x"
       "fix_ok up (if pc = RB_RED then Suc h else Suc (Suc h)) x" by blast
  with "3.IH" show ?case by (cases x) (auto dest: valid_unwind split: if_splits)
qed

lemma successor_unwind:
  "rb_successor q t = (q', s) \<Longrightarrow> rb_unwind q' s = rb_unwind q t"
  by (induction q t rule: rb_successor.induct) (auto split: rb_node.splits)

lemma unwind_append: "rb_unwind (q @ p) t = rb_unwind p (rb_unwind q t)"
  by (induction q arbitrary: t) auto

lemma path_valid_rekey:
  "path_valid (q @ RightOf c l k v # p) h = path_valid (q @ RightOf c l k' v' # p) h"
proof (induction q arbitrary: h)
  case (Cons f q)
  have "path_red (q @ RightOf c l k v # p) = path_red (q @ RightOf c l k' v' # p)" by (cases q) auto
  with Cons show ?case by simp
qed simp

text \<open>
  Unlinking a node without a left child: the only possible shapes are a leaf, or a black node with
  one red leaf below it.
\<close>

lemma bh_0_not_red: "rb_bh t = Some 0 \<Longrightarrow> \<not> rb_is_red t \<Longrightarrow> t = RbNull"
  by (cases t rule: rb_is_red.cases) (auto split: if_splits)

lemma fits_one_child:
  assumes "fits p (RbNode c l k v r) h" "path_valid p h" "l = RbNull \<and> b = r \<or> r = RbNull \<and> b = l"
  shows "b \<noteq> RbNull \<Longrightarrow> c = RB_BLACK \<and> rb_is_red b \<and> fits p (rb_set_color RB_BLACK b) h"
    and "b = RbNull \<Longrightarrow> c = RB_RED \<Longrightarrow> fits p b h"
    and "b = RbNull \<Longrightarrow> c = RB_BLACK \<Longrightarrow> h = Suc 0 \<and> short_fits b 0"
proof -
  assume "b \<noteq> RbNull"
  with assms bh_0_not_red[of b] show "c = RB_BLACK \<and> rb_is_red b \<and> fits p (rb_set_color RB_BLACK b) h"
    by (cases c; cases b rule: rb_is_red.cases) (auto simp: fits_def)
next
  assume "b = RbNull" "c = RB_RED"
  with assms show "fits p b h" by (auto simp: fits_def)
next
  assume "b = RbNull" "c = RB_BLACK"
  with assms show "h = Suc 0 \<and> short_fits b 0" by (auto simp: fits_def short_fits_def)
qed

lemma unlink_valid:
  assumes v: "rb_valid (rb_unwind p (RbNode c RbNull k v b))"
  shows "\<exists>t. (if b \<noteq> RbNull then Some (rb_unwind p (rb_set_color RB_BLACK b))
    else if c = RB_BLACK then rb_erase_color p RbNull else Some (rb_unwind p RbNull)) = Some t
    \<and> rb_valid t"
proof -
  obtain h where h: "path_valid p h" "fits p (RbNode c RbNull k v b) h" using unwind_valid[OF v] by blast
  show ?thesis
    using fits_one_child[OF h(2,1), of b] h valid_unwind[OF h(1)] valid_erase_color[of p 0 b]
    by (cases "b = RbNull"; cases c) auto
qed

lemma valid_erase:
  assumes v: "rb_valid (rb_unwind p (RbNode c l k v r))"
  shows "\<exists>t. rb_erase p (RbNode c l k v r) = Some t \<and> rb_valid t"
proof -
  obtain h where h: "path_valid p h" "fits p (RbNode c l k v r) h" using unwind_valid[OF v] by blast
  consider "l = RbNull" | "l \<noteq> RbNull" "r = RbNull" | "l \<noteq> RbNull" "r \<noteq> RbNull" by blast
  then show ?thesis
  proof cases
    case 1
    then show ?thesis
      using unlink_valid[of p c k v r] v fits_one_child(1)[OF h(2,1), of r]
      by (auto simp: rb_erase_left_null)
  next
    case 2
    then show ?thesis
      using fits_one_child(1)[OF h(2,1), of l] valid_unwind[OF h(1)]
      by (auto simp: rb_erase_right_null)
  next
    case 3
    obtain q s where qs: "rb_successor [] r = (q, s)" by fastforce
    with 3 obtain sc sk sv child2 where s: "s = RbNode sc RbNull sk sv child2"
      using successor_frames[OF qs] by fastforce
    have "rb_unwind (q @ RightOf c l k v # p) s = rb_unwind p (RbNode c l k v r)"
      using successor_unwind[OF qs] by (simp add: unwind_append)
    then obtain h' where h': "path_valid (q @ RightOf c l k v # p) h'" "fits (q @ RightOf c l k v # p) s h'"
      using v unwind_valid by metis
    have "path_red (q @ RightOf c l k v # p) = path_red (q @ RightOf c l sk sv # p)" by (cases q) auto
    with h' have "path_valid (q @ RightOf c l sk sv # p) h'" "fits (q @ RightOf c l sk sv # p) s h'"
      by (auto simp: fits_def path_valid_rekey[of q c l sk sv p h' k v])
    from valid_unwind[OF this] show ?thesis
      unfolding s rb_erase_two_children[OF 3 qs[unfolded s]] by (rule unlink_valid)
  qed
qed

end
