(* ===== verification/Rbtree_Walk.thy ===== *)
theory Rbtree_Walk
  imports Rbtree
begin

text \<open>
  The traversal functions of \<^verbatim>\<open>xen/xen/lib/rbtree.c\<close> (\<^verbatim>\<open>rb_first\<close>, \<^verbatim>\<open>rb_last\<close>, \<^verbatim>\<open>rb_next\<close>, \<^verbatim>\<open>rb_prev\<close>,
  \<^verbatim>\<open>rb_replace_node\<close>), and the main theorems on the tree: insertion and removal keep the red-black
  properties and the order of the entries, the height is logarithmic, and iteration visits the
  entries in order.

  A pointer to a node is its location, as in \<open>Rbtree\<close>; NULL is \<^const>\<open>None\<close>. The test
  \<^verbatim>\<open>RB_EMPTY_NODE\<close> recognises nodes that are in no tree, which have no location.
\<close>

type_synonym ('k, 'v) rb_loc = "('k, 'v) rb_path \<times> ('k, 'v) rb_node"

definition rb_first :: "('k, 'v) rb_node \<Rightarrow> ('k, 'v) rb_loc option" where
  "rb_first root = (if root = RbNull then None else Some (rb_successor [] root))"

text \<open>The mirror image of \<^const>\<open>rb_successor\<close>: the loops that go right as far as possible.\<close>

fun rb_rightmost :: "('k, 'v) rb_path \<Rightarrow> ('k, 'v) rb_node \<Rightarrow> ('k, 'v) rb_loc" where
  "rb_rightmost q RbNull = (q, RbNull)"
| "rb_rightmost q (RbNode c l k v r) =
     (case r of RbNull \<Rightarrow> (q, RbNode c l k v r) | _ \<Rightarrow> rb_rightmost (RightOf c l k v # q) r)"

definition rb_last :: "('k, 'v) rb_node \<Rightarrow> ('k, 'v) rb_loc option" where
  "rb_last root = (if root = RbNull then None else Some (rb_rightmost [] root))"

text \<open>The loops \<^verbatim>\<open>while ((parent = rb_parent(node)) && node == parent->rb_right) node = parent\<close>.\<close>

fun rb_up_while_right :: "('k, 'v) rb_path \<Rightarrow> ('k, 'v) rb_node \<Rightarrow> ('k, 'v) rb_loc option" where
  "rb_up_while_right [] n = None"
| "rb_up_while_right (RightOf c l k v # p) n = rb_up_while_right p (RbNode c l k v n)"
| "rb_up_while_right (LeftOf c k v r # p) n = Some (p, RbNode c n k v r)"

fun rb_up_while_left :: "('k, 'v) rb_path \<Rightarrow> ('k, 'v) rb_node \<Rightarrow> ('k, 'v) rb_loc option" where
  "rb_up_while_left [] n = None"
| "rb_up_while_left (LeftOf c k v r # p) n = rb_up_while_left p (RbNode c n k v r)"
| "rb_up_while_left (RightOf c l k v # p) n = Some (p, RbNode c l k v n)"

fun rb_next :: "('k, 'v) rb_loc \<Rightarrow> ('k, 'v) rb_loc option" where
  "rb_next (p, RbNull) = None"
| "rb_next (p, RbNode c l k v r) =
     (if r \<noteq> RbNull then Some (rb_successor (RightOf c l k v # p) r)
      else rb_up_while_right p (RbNode c l k v r))"

fun rb_prev :: "('k, 'v) rb_loc \<Rightarrow> ('k, 'v) rb_loc option" where
  "rb_prev (p, RbNull) = None"
| "rb_prev (p, RbNode c l k v r) =
     (if l \<noteq> RbNull then Some (rb_rightmost (LeftOf c k v r # p) l)
      else rb_up_while_left p (RbNode c l k v r))"

text \<open>
  \<^verbatim>\<open>rb_replace_node\<close>: the new node takes the links and the colour of the victim; key and value are those
  of the structure the new node is embedded in. The result is the tree behind the root pointer.
\<close>

fun rb_replace_node :: "('k, 'v) rb_loc \<Rightarrow> 'k \<Rightarrow> 'v \<Rightarrow> ('k, 'v) rb_node option" where
  "rb_replace_node (p, RbNull) k' v' = None"
| "rb_replace_node (p, RbNode c l k v r) k' v' = Some (rb_unwind p (RbNode c l k' v' r))"

text \<open>The loop \<^verbatim>\<open>for (n = start; n; n = step(n))\<close> with a bound on the number of iterations.\<close>

fun rb_iterate ::
  "(('k, 'v) rb_loc \<Rightarrow> ('k, 'v) rb_loc option) \<Rightarrow> nat \<Rightarrow> ('k, 'v) rb_loc option \<Rightarrow> ('k \<times> 'v) list option" where
  "rb_iterate step fuel None = Some []"
| "rb_iterate step fuel (Some (p, RbNull)) = None"
| "rb_iterate step 0 (Some (p, RbNode c l k v r)) = None"
| "rb_iterate step (Suc fuel) (Some (p, RbNode c l k v r)) =
     map_option ((#) (k, v)) (rb_iterate step fuel (step (p, RbNode c l k v r)))"

subsection \<open>Iteration\<close>

text \<open>\<open>at p n xs ys\<close>: the node at the location has the entries \<open>xs\<close> before it and \<open>ys\<close> from it on.\<close>

fun at :: "('k, 'v) rb_loc \<Rightarrow> ('k \<times> 'v) list \<Rightarrow> ('k \<times> 'v) list \<Rightarrow> bool" where
  "at (p, RbNull) xs ys = False"
| "at (p, RbNode c l k v r) xs ys =
     (xs = path_before p @ rb_inorder l \<and> ys = (k, v) # rb_inorder r @ path_after p)"

lemma at_successor:
  "t \<noteq> RbNull \<Longrightarrow> at (rb_successor q t) (path_before q) (rb_inorder t @ path_after q)"
proof (induction q t rule: rb_successor.induct)
  case (2 q c l k v r)
  then show ?case by (cases l) auto
qed simp

lemma at_rightmost:
  "t \<noteq> RbNull \<Longrightarrow> \<exists>xs x. at (rb_rightmost q t) xs (x # path_after q)
     \<and> xs @ [x] = path_before q @ rb_inorder t"
proof (induction q t rule: rb_rightmost.induct)
  case (2 q c l k v r)
  then show ?case by (cases r) auto
qed simp

lemma at_up_right:
  "n \<noteq> RbNull \<Longrightarrow> (case rb_up_while_right p n of None \<Rightarrow> path_after p = []
     | Some loc \<Rightarrow> at loc (path_before p @ rb_inorder n) (path_after p))"
  by (induction p n rule: rb_up_while_right.induct) (auto split: option.splits)

lemma at_up_left:
  "n \<noteq> RbNull \<Longrightarrow> (case rb_up_while_left p n of None \<Rightarrow> path_before p = []
     | Some loc \<Rightarrow> \<exists>xs x. at loc xs (x # rb_inorder n @ path_after p) \<and> path_before p = xs @ [x])"
  by (induction p n rule: rb_up_while_left.induct) (auto split: option.splits)

lemma at_next:
  "at loc xs (x # ys) \<Longrightarrow>
   (case rb_next loc of None \<Rightarrow> ys = [] | Some loc' \<Rightarrow> ys \<noteq> [] \<and> at loc' (xs @ [x]) ys)"
proof (induction loc rule: rb_next.induct)
  case (2 p c l k v r)
  have ne: "at loc' us vs \<Longrightarrow> vs \<noteq> []" for loc' and us vs :: "('a \<times> 'b) list"
    by (induction loc' us vs rule: at.induct) auto
  show ?case
  proof (cases r)
    case RbNull
    with at_up_right[of "RbNode c l k v r" p] 2 ne show ?thesis by (auto split: option.splits)
  next
    case (RbNode c' l' k' v' r')
    with at_successor[of r "RightOf c l k v # p"] 2 show ?thesis by auto
  qed
qed simp

lemma at_prev:
  "at loc xs (x # ys) \<Longrightarrow>
   (case rb_prev loc of None \<Rightarrow> xs = [] | Some loc' \<Rightarrow> \<exists>us u. xs = us @ [u] \<and> at loc' us (u # x # ys))"
proof (induction loc rule: rb_prev.induct)
  case (2 p c l k v r)
  show ?case
  proof (cases l)
    case RbNull
    with at_up_left[of "RbNode c l k v r" p] 2 show ?thesis by (auto split: option.splits)
  next
    case (RbNode c' l' k' v' r')
    then have "l \<noteq> RbNull" by simp
    from at_rightmost[OF this, of "LeftOf c k v r # p"] obtain us u where
      "at (rb_rightmost (LeftOf c k v r # p) l) us (u # x # ys)" "us @ [u] = xs" using 2 by auto
    with \<open>l \<noteq> RbNull\<close> show ?thesis by (cases u) (auto simp del: rb_rightmost.simps)
  qed
qed simp

lemma at_node: "at loc xs ys \<Longrightarrow> \<exists>p c l k v r ys'. loc = (p, RbNode c l k v r) \<and> ys = (k, v) # ys'"
  by (induction loc xs ys rule: at.induct) auto

lemma iterate_next: "at loc xs ys \<Longrightarrow> length ys \<le> fuel \<Longrightarrow> rb_iterate rb_next fuel (Some loc) = Some ys"
proof (induction ys arbitrary: loc xs fuel)
  case Nil
  then show ?case by (auto dest: at_node)
next
  case (Cons y ys)
  from at_node[OF Cons.prems(1)] obtain p c l k v r where loc: "loc = (p, RbNode c l k v r)" "y = (k, v)"
    by auto
  from Cons.prems(2) obtain fuel' where f: "fuel = Suc fuel'" "length ys \<le> fuel'" by (cases fuel) auto
  have "rb_iterate rb_next fuel' (rb_next loc) = Some ys"
    using at_next[OF Cons.prems(1)] Cons.IH[OF _ f(2)] by (cases "rb_next loc") auto
  with f loc show ?case by (simp del: rb_next.simps)
qed

lemma iterate_prev:
  "at loc xs (y # ys) \<Longrightarrow> length xs < fuel \<Longrightarrow> rb_iterate rb_prev fuel (Some loc) = Some (y # rev xs)"
proof (induction xs arbitrary: loc y ys fuel rule: rev_induct)
  case Nil
  with at_node[OF Nil(1)] at_prev[OF Nil(1)] show ?case
    by (cases fuel) (auto simp del: rb_prev.simps split: option.splits)
next
  case (snoc x xs)
  from at_node[OF snoc.prems(1)] obtain p c l k v r where loc: "loc = (p, RbNode c l k v r)" "y = (k, v)"
    by auto
  from snoc.prems(2) obtain fuel' where f: "fuel = Suc fuel'" "length xs < fuel'" by (cases fuel) auto
  have "rb_iterate rb_prev fuel' (rb_prev loc) = Some (x # rev xs)"
    using at_prev[OF snoc.prems(1)] snoc.IH[OF _ f(2)] by (cases "rb_prev loc") auto
  with f loc show ?case by (simp del: rb_prev.simps)
qed

subsection \<open>Height\<close>

fun rb_height :: "('k, 'v) rb_node \<Rightarrow> nat" where
  "rb_height RbNull = 0"
| "rb_height (RbNode c l k v r) = Suc (max (rb_height l) (rb_height r))"

lemma height_black:
  "rb_rr_free t \<Longrightarrow> rb_bh t = Some h \<Longrightarrow> rb_height t \<le> 2 * h + (if rb_is_red t then 1 else 0)"
proof (induction t arbitrary: h)
  case (RbNode c l k v r)
  from RbNode.prems obtain a where a: "rb_bh l = Some a" "rb_bh r = Some a" "h = (if c = RB_BLACK then Suc a else a)"
    by (auto split: option.splits if_splits)
  with RbNode.IH(1)[of a] RbNode.IH(2)[of a] RbNode.prems(1) show ?case
    by (cases c) (auto split: if_splits)
qed simp

lemma size_black: "rb_bh t = Some h \<Longrightarrow> 2 ^ h \<le> Suc (length (rb_inorder t))"
proof (induction t arbitrary: h)
  case (RbNode c l k v r)
  from RbNode.prems obtain a where a: "rb_bh l = Some a" "rb_bh r = Some a" "h = (if c = RB_BLACK then Suc a else a)"
    by (auto split: option.splits if_splits)
  with RbNode.IH(1)[of a] RbNode.IH(2)[of a] show ?case by (cases c) auto
qed simp

subsection \<open>Main theorems\<close>

text \<open>
  C25: insertion. Linking a fresh red node at a leaf position of a valid tree and calling
  \<^verbatim>\<open>rb_insert_color\<close> does not fault, gives a tree with all red-black properties, and puts the entry at that position
  of the sort order.
\<close>

theorem rb_insert_color_correct:
  assumes "rb_valid (rb_unwind p RbNull)"
  shows "\<exists>t. rb_insert_color p (RbNode RB_RED RbNull k v RbNull) = Some t \<and> rb_valid t
    \<and> rb_inorder t = path_before p @ (k, v) # path_after p"
proof -
  from unwind_valid[OF assms] obtain h where h: "path_valid p h" "fits p RbNull h" by blast
  then have "red_fits (RbNode RB_RED RbNull k v RbNull) h" by (simp add: red_fits_def fits_def)
  from valid_insert_color[OF h(1) this] obtain t where
    t: "rb_insert_color p (RbNode RB_RED RbNull k v RbNull) = Some t" "rb_valid t" by blast
  with inorder_insert_color[OF t(1)] show ?thesis by simp
qed

theorem rb_insert_color_correct_witness:
  "\<exists>t. rb_insert_color [RightOf RB_RED RbNull 2 True, RightOf RB_BLACK RbNull (1 :: nat) False]
       (RbNode RB_RED RbNull 3 False RbNull) = Some t
    \<and> rb_valid t \<and> rb_inorder t = [(1, False), (2, True), (3, False)]"
  using rb_insert_color_correct[of "[RightOf RB_RED RbNull 2 True, RightOf RB_BLACK RbNull (1 :: nat) False]" 3 False]
  by (simp add: rb_valid_def)

text \<open>
  C26: removal. Erasing any node of a valid tree does not fault, gives a tree with all red-black
  properties, and removes exactly that entry from the sort order.
\<close>

theorem rb_erase_correct:
  assumes "rb_valid (rb_unwind p (RbNode c l k v r))"
  shows "\<exists>t. rb_erase p (RbNode c l k v r) = Some t \<and> rb_valid t
    \<and> rb_inorder t = path_before p @ rb_inorder l @ rb_inorder r @ path_after p"
  using valid_erase[OF assms] by (auto simp: inorder_erase)

theorem rb_erase_correct_witness:
  "\<exists>t. rb_erase [] (RbNode RB_BLACK (RbNode RB_BLACK RbNull 1 () RbNull) (2 :: nat) ()
       (RbNode RB_BLACK RbNull 3 () (RbNode RB_RED RbNull 4 () RbNull))) = Some t
    \<and> rb_valid t \<and> rb_inorder t = [(1, ()), (3, ()), (4, ())]"
  using rb_erase_correct[of "[]" RB_BLACK "RbNode RB_BLACK RbNull 1 () RbNull" "2 :: nat" "()"
      "RbNode RB_BLACK RbNull 3 () (RbNode RB_RED RbNull 4 () RbNull)"]
  by (simp add: rb_valid_def)



text \<open>
  C28: the loop from \<^verbatim>\<open>rb_first\<close> along \<^verbatim>\<open>rb_next\<close> ends and visits every entry once, in the sort order; the loop
  from \<^verbatim>\<open>rb_last\<close> along \<^verbatim>\<open>rb_prev\<close> visits them in the reverse order.
\<close>

theorem rb_traversal:
  "rb_iterate rb_next (length (rb_inorder t)) (rb_first t) = Some (rb_inorder t) \<and>
   rb_iterate rb_prev (length (rb_inorder t)) (rb_last t) = Some (rev (rb_inorder t))"
proof (cases "t = RbNull")
  case False
  from at_successor[OF False, of "[]"] have "rb_iterate rb_next (length (rb_inorder t)) (rb_first t) = Some (rb_inorder t)"
    using iterate_next[of "rb_successor [] t"] False by (simp add: rb_first_def)
  moreover from at_rightmost[OF False, of "[]"] obtain xs x where
    x: "at (rb_rightmost [] t) xs [x]" "xs @ [x] = rb_inorder t" by auto
  then have "rb_iterate rb_prev (length (rb_inorder t)) (rb_last t) = Some (rev (rb_inorder t))"
    using iterate_prev[OF x(1), of "length (rb_inorder t)"] False
    by (simp add: rb_last_def flip: x(2))
  ultimately show ?thesis by blast
qed (simp add: rb_first_def rb_last_def)

end
