(* ===== verification/P2m.thy ===== *)
theory P2m
  imports Xom_Prelude "HOL-Library.Monad_Syntax"
begin

text \<open>
  The guest-physical to machine translation as its clients see it: the types and access rights of
  \<^verbatim>\<open>asm/p2m.h\<close> and \<^verbatim>\<open>xen/mem_access.h\<close>, \<^verbatim>\<open>struct p2m_domain\<close> with its \<^verbatim>\<open>get_entry\<close>/\<^verbatim>\<open>set_entry\<close>
  function pointers, the look-ups of \<^verbatim>\<open>p2m.c\<close> and the access control of
  \<^verbatim>\<open>xen/xen/arch/x86/mm/mem_access.c\<close>.

  The translation table behind the function pointers is a type parameter. The locale \<open>p2m_table\<close>
  is the contract of the function pointers; it is interpreted on the EPT implementation in the
  theory of \<^verbatim>\<open>p2m-ept.c\<close>. The build modelled has no memory paging and no memory sharing, and a
  populate-on-demand entry is not populated by a query.
\<close>

subsection \<open>Types\<close>

datatype p2m_type_t =
    p2m_ram_rw | p2m_invalid | p2m_ram_logdirty | p2m_ram_ro | p2m_mmio_dm | p2m_mmio_direct
  | p2m_populate_on_demand | p2m_grant_map_rw | p2m_grant_map_ro | p2m_ram_paging_out
  | p2m_ram_paged | p2m_ram_paging_in | p2m_ram_shared | p2m_ram_broken | p2m_map_foreign
  | p2m_ioreq_server

datatype p2m_access_t =
    p2m_access_n | p2m_access_r | p2m_access_w | p2m_access_x | p2m_access_rw | p2m_access_rx
  | p2m_access_wx | p2m_access_rwx | p2m_access_rx2rw | p2m_access_n2rwx

definition p2m_is_ram :: "p2m_type_t \<Rightarrow> bool" where
  "p2m_is_ram t \<longleftrightarrow> t \<in> {p2m_ram_rw, p2m_ram_logdirty, p2m_ram_ro, p2m_ram_paging_out,
     p2m_ram_paged, p2m_ram_paging_in, p2m_ram_shared, p2m_ioreq_server}"

definition p2m_is_changeable :: "p2m_type_t \<Rightarrow> bool" where
  "p2m_is_changeable t \<longleftrightarrow> t \<in> {p2m_ram_rw, p2m_ram_logdirty, p2m_ioreq_server}"

definition p2m_is_pod :: "p2m_type_t \<Rightarrow> bool" where
  "p2m_is_pod t \<longleftrightarrow> t = p2m_populate_on_demand"

definition p2m_is_broken :: "p2m_type_t \<Rightarrow> bool" where
  "p2m_is_broken t \<longleftrightarrow> t = p2m_ram_broken"

text \<open>\<^verbatim>\<open>P2M_INVALID_MFN_TYPES\<close>, with \<^verbatim>\<open>P2M_PAGING_TYPES\<close> 0.\<close>

definition p2m_allows_invalid_mfn :: "p2m_type_t \<Rightarrow> bool" where
  "p2m_allows_invalid_mfn t \<longleftrightarrow> t \<in> {p2m_populate_on_demand, p2m_mmio_direct}"

abbreviation INVALID_MFN :: u64 where "INVALID_MFN \<equiv> - 1"
abbreviation (input) INVALID_GFN :: u64 where "INVALID_GFN \<equiv> - 1"

abbreviation (input) PAGE_ORDER_4K :: nat where "PAGE_ORDER_4K \<equiv> 0"

record 'e p2m_domain =
  table :: 'e
  max_mapped_pfn :: u64
  default_access :: p2m_access_t
  access_required :: bool

text \<open>
  The function pointers. \<open>get_entry p gfn\<close> yields the frame, the type, the access rights and the
  page order; \<open>set_entry p gfn mfn order t a sve\<close> the return code and the new state.
\<close>

record 'e p2m_ops =
  get_entry :: "'e p2m_domain \<Rightarrow> u64 \<Rightarrow> u64 \<times> p2m_type_t \<times> p2m_access_t \<times> nat"
  set_entry :: "'e p2m_domain \<Rightarrow> u64 \<Rightarrow> u64 \<Rightarrow> nat \<Rightarrow> p2m_type_t \<Rightarrow> p2m_access_t \<Rightarrow> int
                  \<Rightarrow> int \<times> 'e p2m_domain"

subsection \<open>Look-ups of p2m.c\<close>

text \<open>
  \<^verbatim>\<open>p2m_get_gfn_type_access\<close>: without sharing the fork and unshare steps are absent. Crashing the
  domain on a broken page (\<^verbatim>\<open>domain_crash\<close>) has no effect on the modelled state.
\<close>

definition p2m_get_gfn_type_access ::
  "'e p2m_ops \<Rightarrow> 'e p2m_domain \<Rightarrow> u64 \<Rightarrow> u64 \<times> p2m_type_t \<times> p2m_access_t \<times> nat" where
  "p2m_get_gfn_type_access ops p2m gfn =
     (let (mfn, t, a, order) = get_entry ops p2m gfn
      in (if p2m_is_broken t then INVALID_MFN else mfn, t, a, order))"

text \<open>
  \<^verbatim>\<open>p2m_get_page_from_gfn\<close> with the p2m lock held (the slow path): \<open>valid\<close> is \<^verbatim>\<open>mfn_valid\<close> and \<open>get\<close>
  is \<^verbatim>\<open>get_page\<close> on the page of a frame. The result is the frame of the page, or \<^const>\<open>None\<close> for NULL.
\<close>

definition p2m_get_page_from_gfn ::
  "'e p2m_ops \<Rightarrow> (u64 \<Rightarrow> bool) \<Rightarrow> (u64 \<Rightarrow> bool) \<Rightarrow> 'e p2m_domain \<Rightarrow> u64 \<Rightarrow> u64 option" where
  "p2m_get_page_from_gfn ops valid get p2m gfn =
     (let (mfn, t, a, order) = p2m_get_gfn_type_access ops p2m gfn
      in if p2m_is_ram t \<and> valid mfn \<and> get mfn then Some mfn else None)"

text \<open>
  \<^verbatim>\<open>p2m_set_entry\<close>: a range of \<open>2 ^ page_order\<close> frames is written in chunks, each as large as the alignment of
  both frame numbers and of what is left allows. \<open>has_1gb\<close> and \<open>has_2mb\<close> are the superpage capabilities, nested paging is on.
\<close>

abbreviation (input) PAGE_ORDER_2M :: nat where "PAGE_ORDER_2M \<equiv> 9"
abbreviation (input) PAGE_ORDER_1G :: nat where "PAGE_ORDER_1G \<equiv> 18"

definition p2m_chunk_order :: "bool \<Rightarrow> bool \<Rightarrow> u64 \<Rightarrow> u64 \<Rightarrow> nat \<Rightarrow> nat" where
  "p2m_chunk_order has_1gb has_2mb gfn mfn todo =
     (let fn_mask = (if mfn \<noteq> INVALID_MFN then mfn else 0) OR gfn OR of_nat todo
      in if fn_mask AND (push_bit PAGE_ORDER_1G 1 - 1) = 0 \<and> has_1gb then PAGE_ORDER_1G
         else if fn_mask AND (push_bit PAGE_ORDER_2M 1 - 1) = 0 \<and> has_2mb then PAGE_ORDER_2M
         else PAGE_ORDER_4K)"

function p2m_set_entry_loop ::
  "'e p2m_ops \<Rightarrow> bool \<Rightarrow> bool \<Rightarrow> u64 \<Rightarrow> u64 \<Rightarrow> nat \<Rightarrow> p2m_type_t \<Rightarrow> p2m_access_t \<Rightarrow> int \<Rightarrow> 'e p2m_domain
    \<Rightarrow> int \<times> 'e p2m_domain" where
  "p2m_set_entry_loop ops has_1gb has_2mb gfn mfn todo t a rc p2m =
     (if todo = 0 then (rc, p2m)
      else let order = p2m_chunk_order has_1gb has_2mb gfn mfn todo;
               (set_rc, p2m) = set_entry ops p2m gfn mfn order t a (- 1)
           in p2m_set_entry_loop ops has_1gb has_2mb (gfn + 2 ^ order)
                (if mfn \<noteq> INVALID_MFN then mfn + 2 ^ order else mfn) (todo - 2 ^ order) t a
                (if set_rc \<noteq> 0 then set_rc else rc) p2m)"
  by auto
termination
  by (relation "measure (\<lambda>(ops, g1, g2, gfn, mfn, todo, _). todo)") auto

declare p2m_set_entry_loop.simps [simp del]

definition p2m_set_entry ::
  "'e p2m_ops \<Rightarrow> bool \<Rightarrow> bool \<Rightarrow> 'e p2m_domain \<Rightarrow> u64 \<Rightarrow> u64 \<Rightarrow> nat \<Rightarrow> p2m_type_t \<Rightarrow> p2m_access_t
    \<Rightarrow> int \<times> 'e p2m_domain" where
  "p2m_set_entry ops has_1gb has_2mb p2m gfn mfn page_order t a =
     p2m_set_entry_loop ops has_1gb has_2mb gfn mfn (2 ^ page_order) t a 0 p2m"

text \<open>\<^verbatim>\<open>p2m_change_type_one\<close> on the host p2m.\<close>

definition p2m_change_type_one ::
  "'e p2m_ops \<Rightarrow> bool \<Rightarrow> bool \<Rightarrow> 'e p2m_domain \<Rightarrow> u64 \<Rightarrow> p2m_type_t \<Rightarrow> p2m_type_t \<Rightarrow> int \<times> 'e p2m_domain" where
  "p2m_change_type_one ops has_1gb has_2mb p2m gfn ot nt =
     (let (mfn, pt, a, _) = get_entry ops p2m gfn
      in if pt = ot then p2m_set_entry ops has_1gb has_2mb p2m gfn mfn PAGE_ORDER_4K nt (default_access p2m)
         else (- 16, p2m))"

text \<open>
  \<^verbatim>\<open>p2m_altp2m_get_or_propagate\<close>: whether the host entry was copied, whether that failed and the domain was
  crashed, the entry to go on with, and the alternate view.
\<close>

definition p2m_altp2m_get_or_propagate ::
  "'e p2m_ops \<Rightarrow> bool \<Rightarrow> bool \<Rightarrow> 'e p2m_domain \<Rightarrow> u64 \<Rightarrow> u64 \<Rightarrow> p2m_type_t \<Rightarrow> p2m_access_t \<Rightarrow> nat
    \<Rightarrow> bool \<times> bool \<times> u64 \<times> p2m_type_t \<times> p2m_access_t \<times> nat \<times> 'e p2m_domain" where
  "p2m_altp2m_get_or_propagate ops has_1gb has_2mb ap2m gfn mfn p2mt p2ma page_order =
     (let (amfn, ap2mt, ap2ma, order) = p2m_get_gfn_type_access ops ap2m gfn;
          cur_order = (if order > page_order then page_order else order)
      in if amfn \<noteq> INVALID_MFN then (False, False, amfn, ap2mt, ap2ma, cur_order, ap2m)
         else if mfn = INVALID_MFN then (False, False, mfn, p2mt, p2ma, cur_order, ap2m)
         else let msk = NOT (push_bit cur_order 1 - 1);
                  (rc, ap2m) = p2m_set_entry ops has_1gb has_2mb ap2m (gfn AND msk) (mfn AND msk) cur_order p2mt p2ma
              in (True, rc \<noteq> 0, mfn, p2mt, p2ma, page_order, ap2m))"

text \<open>
  \<^verbatim>\<open>altp2m_get_effective_entry\<close> with prepopulation: \<open>hp\<close> is the host p2m, \<open>ap\<close> the alternate view.
\<close>

definition altp2m_get_effective_entry ::
  "'e p2m_ops \<Rightarrow> (u64 \<Rightarrow> bool) \<Rightarrow> 'e p2m_domain \<Rightarrow> 'e p2m_domain \<Rightarrow> u64
    \<Rightarrow> int \<times> u64 \<times> p2m_type_t \<times> p2m_access_t \<times> 'e p2m_domain" where
  "altp2m_get_effective_entry ops valid hp ap gfn =
     (let (mfn, t, a, _) = get_entry ops ap gfn
      in if valid mfn then (0, mfn, t, a, ap)
         else let (mfn, t, a, page_order) = p2m_get_gfn_type_access ops hp gfn
              in if \<not> valid mfn \<or> t \<noteq> p2m_ram_rw then (- ESRCH, mfn, t, a, ap)
                 else if page_order \<noteq> PAGE_ORDER_4K
                 then let msk = NOT (push_bit page_order 1 - 1);
                          (rc, ap') = set_entry ops ap (gfn AND msk) (mfn AND msk) page_order t a 1
                      in (rc, mfn, t, a, ap')
                 else (0, mfn, t, a, ap))"

subsection \<open>mem\_access.c: setting access rights\<close>

definition p2m_set_altp2m_mem_access ::
  "'e p2m_ops \<Rightarrow> (u64 \<Rightarrow> bool) \<Rightarrow> 'e p2m_domain \<Rightarrow> 'e p2m_domain \<Rightarrow> p2m_access_t \<Rightarrow> u64
    \<Rightarrow> int \<times> 'e p2m_domain" where
  "p2m_set_altp2m_mem_access ops valid hp ap a gfn =
     (let (rc, mfn, t, old_a, ap) = altp2m_get_effective_entry ops valid hp ap gfn
      in if rc \<noteq> 0 then (rc, ap) else set_entry ops ap gfn mfn PAGE_ORDER_4K t a (- 1))"

fun set_mem_access ::
  "'e p2m_ops \<Rightarrow> (u64 \<Rightarrow> bool) \<Rightarrow> 'e p2m_domain \<Rightarrow> 'e p2m_domain option \<Rightarrow> p2m_access_t \<Rightarrow> u64
    \<Rightarrow> int \<times> 'e p2m_domain \<times> 'e p2m_domain option" where
  "set_mem_access ops valid p2m (Some ap2m) a gfn =
     (let (rc, ap2m) = p2m_set_altp2m_mem_access ops valid p2m ap2m a gfn
      in (if rc = - ESRCH then 0 else rc, p2m, Some ap2m))"
| "set_mem_access ops valid p2m None a gfn =
     (let (mfn, t, _, _) = p2m_get_gfn_type_access ops p2m gfn;
          (rc, p2m) = set_entry ops p2m gfn mfn PAGE_ORDER_4K t a (- 1)
      in (rc, p2m, None))"

definition p2m_set_mem_access_single ::
  "'e p2m_ops \<Rightarrow> (u64 \<Rightarrow> bool) \<Rightarrow> 'e p2m_domain \<Rightarrow> 'e p2m_domain option \<Rightarrow> p2m_access_t \<Rightarrow> u64
    \<Rightarrow> int \<times> 'e p2m_domain \<times> 'e p2m_domain option" where
  "p2m_set_mem_access_single ops valid p2m ap2m a gfn = set_mem_access ops valid p2m ap2m a gfn"

text \<open>
  \<^verbatim>\<open>xenmem_access_t\<close> of the public interface is passed as its number; the table of
  \<^verbatim>\<open>xenmem_access_to_p2m_access\<close> is indexed by it, 10 is \<^verbatim>\<open>XENMEM_access_default\<close>.
\<close>

definition xenmem_memaccess :: "p2m_access_t list" where
  "xenmem_memaccess = [p2m_access_n, p2m_access_r, p2m_access_w, p2m_access_rw, p2m_access_x,
     p2m_access_rx, p2m_access_wx, p2m_access_rwx, p2m_access_rx2rw, p2m_access_n2rwx]"

definition xenmem_access_to_p2m_access :: "'e p2m_domain \<Rightarrow> nat \<Rightarrow> p2m_access_t option" where
  "xenmem_access_to_p2m_access p2m xaccess =
     (if xaccess < length xenmem_memaccess then Some (xenmem_memaccess ! xaccess)
      else if xaccess = 10 then Some (default_access p2m)
      else None)"

text \<open>The inverse table of \<^verbatim>\<open>_p2m_get_mem_access\<close>.\<close>

fun p2m_to_xenmem :: "p2m_access_t \<Rightarrow> nat" where
  "p2m_to_xenmem p2m_access_n = 0"
| "p2m_to_xenmem p2m_access_r = 1"
| "p2m_to_xenmem p2m_access_w = 2"
| "p2m_to_xenmem p2m_access_rw = 3"
| "p2m_to_xenmem p2m_access_x = 4"
| "p2m_to_xenmem p2m_access_rx = 5"
| "p2m_to_xenmem p2m_access_wx = 6"
| "p2m_to_xenmem p2m_access_rwx = 7"
| "p2m_to_xenmem p2m_access_rx2rw = 8"
| "p2m_to_xenmem p2m_access_n2rwx = 9"

definition p2m_get_mem_access_of :: "'e p2m_ops \<Rightarrow> 'e p2m_domain \<Rightarrow> u64 \<Rightarrow> int \<times> nat option" where
  "p2m_get_mem_access_of ops p2m gfn =
     (if gfn = INVALID_GFN then (0, Some (p2m_to_xenmem (default_access p2m)))
      else let (mfn, t, a, _) = get_entry ops p2m gfn
           in if mfn = INVALID_MFN then (- ESRCH, None) else (0, Some (p2m_to_xenmem a)))"

text \<open>
  The alternate views of a domain: \<^verbatim>\<open>altp2m_eptp\<close>/\<^verbatim>\<open>altp2m_p2m\<close> as a list, \<^const>\<open>None\<close> for a view whose
  eptp is \<^verbatim>\<open>INVALID_MFN\<close>; its length is \<^verbatim>\<open>min(ARRAY_SIZE(altp2m_p2m), MAX_EPTP)\<close>. View 0 is the host p2m.
\<close>

definition altp2m_view :: "'e p2m_domain option list \<Rightarrow> nat \<Rightarrow> 'e p2m_domain option" where
  "altp2m_view alts idx = (if idx < length alts then alts ! idx else None)"

definition p2m_get_mem_access ::
  "'e p2m_ops \<Rightarrow> bool \<Rightarrow> 'e p2m_domain \<Rightarrow> 'e p2m_domain option list \<Rightarrow> u64 \<Rightarrow> nat \<Rightarrow> int \<times> nat option" where
  "p2m_get_mem_access ops altp2m_active p2m alts gfn idx =
     (if idx = 0 then p2m_get_mem_access_of ops p2m gfn
      else if \<not> altp2m_active then (- EINVAL, None)
      else case altp2m_view alts idx of
        None \<Rightarrow> (- EINVAL, None)
      | Some ap2m \<Rightarrow> p2m_get_mem_access_of ops ap2m gfn)"

text \<open>
  The loop of \<^verbatim>\<open>p2m_set_mem_access\<close>; the first argument of the recursion is \<^verbatim>\<open>nr - start\<close>, \<open>preempt\<close>
  says for which value of \<^verbatim>\<open>start\<close> \<^verbatim>\<open>hypercall_preempt_check()\<close> answers true.
\<close>

fun set_mem_access_loop ::
  "'e p2m_ops \<Rightarrow> (u64 \<Rightarrow> bool) \<Rightarrow> (u32 \<Rightarrow> bool) \<Rightarrow> u32 \<Rightarrow> p2m_access_t \<Rightarrow> nat \<Rightarrow> u32 \<Rightarrow> u64
    \<Rightarrow> 'e p2m_domain \<Rightarrow> 'e p2m_domain option \<Rightarrow> int \<times> 'e p2m_domain \<times> 'e p2m_domain option" where
  "set_mem_access_loop ops valid preempt msk a 0 start gfn_l p2m ap2m = (0, p2m, ap2m)"
| "set_mem_access_loop ops valid preempt msk a (Suc n) start gfn_l p2m ap2m =
     (let (rc, p2m, ap2m) = set_mem_access ops valid p2m ap2m a gfn_l
      in if rc \<noteq> 0 then (rc, p2m, ap2m)
         else if n > 0 \<and> (start + 1) AND msk = 0 \<and> preempt (start + 1)
         then (uint (start + 1), p2m, ap2m)
         else set_mem_access_loop ops valid preempt msk a n (start + 1) (gfn_l + 1) p2m ap2m)"

definition p2m_set_mem_access ::
  "'e p2m_ops \<Rightarrow> (u64 \<Rightarrow> bool) \<Rightarrow> (u32 \<Rightarrow> bool) \<Rightarrow> 'e p2m_domain \<Rightarrow> 'e p2m_domain option list
    \<Rightarrow> u64 \<Rightarrow> u32 \<Rightarrow> u32 \<Rightarrow> u32 \<Rightarrow> nat \<Rightarrow> nat \<Rightarrow> int \<times> 'e p2m_domain \<times> 'e p2m_domain option list" where
  "p2m_set_mem_access ops valid preempt p2m alts gfn nr start msk access idx =
     (if idx \<noteq> 0 \<and> altp2m_view alts idx = None then (- EINVAL, p2m, alts)
      else case xenmem_access_to_p2m_access p2m access of
        None \<Rightarrow> (- EINVAL, p2m, alts)
      | Some a \<Rightarrow>
          if gfn = INVALID_GFN then (0, p2m\<lparr>default_access := a\<rparr>, alts)
          else let (rc, p2m, ap2m) =
                 set_mem_access_loop ops valid preempt msk a (unat nr - unat start) start
                   (gfn + ucast start) p2m (if idx = 0 then None else altp2m_view alts idx)
               in (rc, p2m, if idx = 0 then alts else alts[idx := ap2m]))"

text \<open>
  \<^verbatim>\<open>p2m_set_mem_access_multi\<close>: \<open>copy i\<close> is the pair read from the two guest arrays at index \<open>i\<close>, or
  \<^const>\<open>None\<close> when a copy from the guest fails.
\<close>

fun set_mem_access_multi_loop ::
  "'e p2m_ops \<Rightarrow> (u64 \<Rightarrow> bool) \<Rightarrow> (u32 \<Rightarrow> bool) \<Rightarrow> u32 \<Rightarrow> (u32 \<Rightarrow> (u64 \<times> nat) option) \<Rightarrow> nat \<Rightarrow> u32
    \<Rightarrow> 'e p2m_domain \<Rightarrow> 'e p2m_domain option \<Rightarrow> int \<times> 'e p2m_domain \<times> 'e p2m_domain option" where
  "set_mem_access_multi_loop ops valid preempt msk copy 0 start p2m ap2m = (0, p2m, ap2m)"
| "set_mem_access_multi_loop ops valid preempt msk copy (Suc n) start p2m ap2m =
     (case copy start of
        None \<Rightarrow> (- EFAULT, p2m, ap2m)
      | Some (gfn_l, access) \<Rightarrow>
          (case xenmem_access_to_p2m_access p2m access of
             None \<Rightarrow> (- EINVAL, p2m, ap2m)
           | Some a \<Rightarrow>
               let (rc, p2m, ap2m) = set_mem_access ops valid p2m ap2m a gfn_l
               in if rc \<noteq> 0 then (rc, p2m, ap2m)
                  else if n > 0 \<and> (start + 1) AND msk = 0 \<and> preempt (start + 1)
                  then (uint (start + 1), p2m, ap2m)
                  else set_mem_access_multi_loop ops valid preempt msk copy n (start + 1) p2m ap2m))"

definition p2m_set_mem_access_multi ::
  "'e p2m_ops \<Rightarrow> (u64 \<Rightarrow> bool) \<Rightarrow> (u32 \<Rightarrow> bool) \<Rightarrow> 'e p2m_domain \<Rightarrow> 'e p2m_domain option list
    \<Rightarrow> (u32 \<Rightarrow> (u64 \<times> nat) option) \<Rightarrow> u32 \<Rightarrow> u32 \<Rightarrow> u32 \<Rightarrow> nat
    \<Rightarrow> int \<times> 'e p2m_domain \<times> 'e p2m_domain option list" where
  "p2m_set_mem_access_multi ops valid preempt p2m alts copy nr start msk idx =
     (if idx \<noteq> 0 \<and> altp2m_view alts idx = None then (- EINVAL, p2m, alts)
      else let (rc, p2m, ap2m) =
             set_mem_access_multi_loop ops valid preempt msk copy (unat nr - unat start) start
               p2m (if idx = 0 then None else altp2m_view alts idx)
           in (rc, p2m, if idx = 0 then alts else alts[idx := ap2m]))"

subsection \<open>mem\_access.c: checking an access\<close>

record npfec =
  read_access :: bool
  write_access :: bool
  insn_fetch :: bool
  gla_valid :: bool
  npf_present :: bool
  npf_kind :: nat

abbreviation (input) npfec_kind_unknown :: nat where "npfec_kind_unknown \<equiv> 0"
abbreviation (input) npfec_kind_in_gpt :: nat where "npfec_kind_in_gpt \<equiv> 1"
abbreviation (input) npfec_kind_with_gla :: nat where "npfec_kind_with_gla \<equiv> 2"

abbreviation (input) MEM_ACCESS_R :: u32 where "MEM_ACCESS_R \<equiv> 1"
abbreviation (input) MEM_ACCESS_W :: u32 where "MEM_ACCESS_W \<equiv> 2"
abbreviation (input) MEM_ACCESS_X :: u32 where "MEM_ACCESS_X \<equiv> 4"
abbreviation (input) MEM_ACCESS_GLA_VALID :: u32 where "MEM_ACCESS_GLA_VALID \<equiv> 8"
abbreviation (input) MEM_ACCESS_FAULT_WITH_GLA :: u32 where "MEM_ACCESS_FAULT_WITH_GLA \<equiv> 16"
abbreviation (input) MEM_ACCESS_FAULT_IN_GPT :: u32 where "MEM_ACCESS_FAULT_IN_GPT \<equiv> 32"

text \<open>The rights an access number withholds, as the mask of \<^verbatim>\<open>p2m_mem_access_emulate_check\<close>.\<close>

definition emulate_violation_mask :: "nat \<Rightarrow> u32" where
  "emulate_violation_mask access =
     (if access = 1 then MEM_ACCESS_W OR MEM_ACCESS_X
      else if access = 2 then MEM_ACCESS_R OR MEM_ACCESS_X
      else if access = 4 then MEM_ACCESS_R OR MEM_ACCESS_W
      else if access = 5 \<or> access = 8 then MEM_ACCESS_W
      else if access = 6 then MEM_ACCESS_R
      else if access = 3 then MEM_ACCESS_X
      else if access = 7 then 0
      else MEM_ACCESS_R OR MEM_ACCESS_W OR MEM_ACCESS_X)"

definition p2m_mem_access_emulate_check :: "'e p2m_ops \<Rightarrow> 'e p2m_domain \<Rightarrow> u64 \<Rightarrow> u32 \<Rightarrow> bool" where
  "p2m_mem_access_emulate_check ops p2m gfn flags =
     (case p2m_get_mem_access_of ops p2m gfn of
        (rc, Some access) \<Rightarrow> if rc = 0 then flags AND emulate_violation_mask access \<noteq> 0 else True
      | _ \<Rightarrow> True)"

record mem_event =
  ev_gfn :: u64
  ev_offset :: u64
  ev_flags :: u32
  ev_gla :: u64

text \<open>
  \<^verbatim>\<open>p2m_mem_access_check\<close> on the active p2m: \<open>ring\<close> is \<^verbatim>\<open>vm_event_check_ring\<close>, \<open>want\<close> that \<^verbatim>\<open>req_ptr\<close> is not
  NULL, \<open>nopf\<close> the flag \<^verbatim>\<open>inguest_pagefault_disabled\<close>, \<open>alloc\<close> that \<^verbatim>\<open>xzalloc\<close> succeeds. The result has the
  returned value, the p2m, whether the domain was crashed, and the request that was built.
\<close>

record 'e access_result =
  ac_ret :: bool
  ac_p2m :: "'e p2m_domain"
  ac_crashed :: bool
  ac_req :: "mem_event option"

definition mem_event_of :: "u64 \<Rightarrow> u64 \<Rightarrow> npfec \<Rightarrow> mem_event" where
  "mem_event_of gpa gla npf =
     \<lparr>ev_gfn = drop_bit PAGE_SHIFT gpa, ev_offset = gpa AND (push_bit PAGE_SHIFT 1 - 1),
      ev_flags = (if gla_valid npf then MEM_ACCESS_GLA_VALID else 0)
        OR (if npf_kind npf = npfec_kind_with_gla then MEM_ACCESS_FAULT_WITH_GLA
            else if npf_kind npf = npfec_kind_in_gpt then MEM_ACCESS_FAULT_IN_GPT else 0)
        OR (if read_access npf then MEM_ACCESS_R else 0)
        OR (if write_access npf then MEM_ACCESS_W else 0)
        OR (if insn_fetch npf then MEM_ACCESS_X else 0),
      ev_gla = (if gla_valid npf then gla else 0)\<rparr>"

definition p2m_mem_access_check ::
  "'e p2m_ops \<Rightarrow> bool \<Rightarrow> bool \<Rightarrow> bool \<Rightarrow> bool \<Rightarrow> 'e p2m_domain \<Rightarrow> u64 \<Rightarrow> u64 \<Rightarrow> npfec \<Rightarrow> 'e access_result" where
  "p2m_mem_access_check ops ring want nopf alloc p2m gpa gla npf =
     (let gfn = drop_bit PAGE_SHIFT gpa;
          (mfn, p2mt, p2ma, _) = get_entry ops p2m gfn;
          result = (\<lambda>ret p2m crashed req.
            \<lparr>ac_ret = ret, ac_p2m = p2m, ac_crashed = crashed, ac_req = req\<rparr>)
      in if write_access npf \<and> p2ma = p2m_access_rx2rw
         then result True (snd (set_entry ops p2m gfn mfn PAGE_ORDER_4K p2mt p2m_access_rw (- 1)))
                False None
         else let p2m = (if p2ma = p2m_access_n2rwx
                         then snd (set_entry ops p2m gfn mfn PAGE_ORDER_4K p2mt p2m_access_rwx (- 1))
                         else p2m)
         in if \<not> ring \<or> \<not> want
         then if access_required p2m then result False p2m True None
              else let (mfn, p2mt, p2ma, _) = get_entry ops p2m gfn
                   in result True
                        (if p2ma \<noteq> p2m_access_n2rwx
                         then snd (set_entry ops p2m gfn mfn PAGE_ORDER_4K p2mt p2m_access_rwx (- 1))
                         else p2m) False None
         else if nopf \<and> npf_kind npf = npfec_kind_in_gpt then result True p2m False None
         else result (p2ma \<noteq> p2m_access_n2rwx) p2m False
                (if alloc then Some (mem_event_of gpa gla npf) else None))"

subsection \<open>The contract of the function pointers\<close>

text \<open>What a guest frame number maps to: the machine frame (none for a broken page) and the access rights.\<close>

definition p2m_view :: "'e p2m_ops \<Rightarrow> 'e p2m_domain \<Rightarrow> u64 \<Rightarrow> u64 \<times> p2m_access_t" where
  "p2m_view ops p2m gfn = (let (mfn, t, a, _) = p2m_get_gfn_type_access ops p2m gfn in (mfn, a))"

text \<open>The values an entry of frame \<open>mfn\<close> may have after its rights were set to \<open>a\<close>.\<close>

definition retagged :: "u64 \<Rightarrow> p2m_access_t \<Rightarrow> (u64 \<times> p2m_access_t) set" where
  "retagged mfn a = {(mfn, a), (INVALID_MFN, a), (INVALID_MFN, p2m_access_n)}"

text \<open>
  The contract, for a 4K update that keeps the frame and the type of an entry and gives it some access
  right (which is the only way the sealing code uses \<^verbatim>\<open>set_entry\<close>): other entries keep their translation,
  the entry itself keeps its old value or gets the new one or is emptied, and gets the new one on
  success if its frame is valid. Frame numbers beyond every supported address width are refused,
  and \<^verbatim>\<open>INVALID_MFN\<close> is not a valid frame.
\<close>

locale p2m_table =
  fixes ops :: "'e p2m_ops" and ok :: "'e p2m_domain \<Rightarrow> bool" and valid :: "u64 \<Rightarrow> bool"
  assumes set_entry_contract:
      "ok p \<Longrightarrow> gfn \<le> max_mapped_pfn p \<Longrightarrow> a \<noteq> p2m_access_n \<Longrightarrow>
       p2m_get_gfn_type_access ops p gfn = (mfn, t, a0, order) \<Longrightarrow>
       set_entry ops p gfn mfn PAGE_ORDER_4K t a (- 1) = (rc, p') \<Longrightarrow>
       ok p' \<and> rc \<le> 0 \<and> max_mapped_pfn p' = max_mapped_pfn p
       \<and> (\<forall>g. g \<noteq> gfn \<longrightarrow> p2m_view ops p' g = p2m_view ops p g)
       \<and> p2m_view ops p' gfn \<in> insert (p2m_view ops p gfn) (retagged mfn a)
       \<and> (rc = 0 \<longrightarrow> p2m_view ops p' gfn \<in> retagged mfn a)
       \<and> (rc = 0 \<and> valid mfn \<longrightarrow> p2m_view ops p' gfn = (mfn, a))"
    and invalid_mfn: "ok p \<Longrightarrow> \<not> valid INVALID_MFN"
    and set_entry_far:
      "ok p \<Longrightarrow> 2 ^ 45 \<le> gfn \<Longrightarrow> set_entry ops p gfn mfn order t a sve = (- EINVAL, p)"
begin

lemma set_single_contract:
  assumes "ok p" "gfn \<le> max_mapped_pfn p" "a \<noteq> p2m_access_n"
    and "set_mem_access ops valid p None a gfn = (rc, p', ap)"
  shows "ok p' \<and> rc \<le> 0 \<and> max_mapped_pfn p' = max_mapped_pfn p
    \<and> (\<forall>g. g \<noteq> gfn \<longrightarrow> p2m_view ops p' g = p2m_view ops p g)
    \<and> p2m_view ops p' gfn \<in> insert (p2m_view ops p gfn) (retagged (fst (p2m_view ops p gfn)) a)
    \<and> (rc = 0 \<longrightarrow> p2m_view ops p' gfn \<in> retagged (fst (p2m_view ops p gfn)) a)
    \<and> (rc = 0 \<and> valid (fst (p2m_view ops p gfn)) \<longrightarrow> p2m_view ops p' gfn = (fst (p2m_view ops p gfn), a))"
proof -
  obtain m u b n where g: "p2m_get_gfn_type_access ops p gfn = (m, u, b, n)"
    by (cases "p2m_get_gfn_type_access ops p gfn") auto
  then have "set_entry ops p gfn m PAGE_ORDER_4K u a (- 1) = (rc, p')"
    using assms(4) by (simp split: prod.splits)
  from set_entry_contract[OF assms(1-3) g this] show ?thesis
    by (simp add: p2m_view_def g)
qed

end

end
