(* ===== verification/Page_Info.thy ===== *)
theory Page_Info
  imports Rbtree "HOL-Library.Monad_Syntax"
begin

text \<open>
  The page-info entries of \<^verbatim>\<open>xen/xen/arch/x86/xom_seal.c\<close> (lines 44 to 114 and 427 to 448): the
  search, insertion and removal of \<^verbatim>\<open>xom_page_info\<close> records, keyed by guest frame number, in a
  red-black tree of \<^verbatim>\<open>rbtree.c\<close>.

  The node carries the \<^verbatim>\<open>gfn\<close> as its key and the \<^verbatim>\<open>info_spec_t\<close> as its value. A pointer to an entry
  is the location of its node: the path to the root and the subtree at the node. The hypervisor
  heap is the number of page-info allocations that still succeed. A computation that would
  dereference NULL is \<^const>\<open>None\<close>.

  The locale \<open>page_map\<close> is the contract the callers rely on, a finite map from frame numbers to
  infos; it is interpreted on the tree operations at the end of the theory.
\<close>

subsection \<open>Operations\<close>

type_synonym 'v page_tree = "(u64, 'v) rb_node"
type_synonym 'v page_ref = "(u64, 'v) rb_path \<times> (u64, 'v) rb_node"

text \<open>The search loop shared by \<^verbatim>\<open>insert_page_info_node\<close> and \<^verbatim>\<open>get_page_info_entry\<close>.\<close>

fun page_info_walk :: "(u64, 'v) rb_path \<Rightarrow> 'v page_tree \<Rightarrow> u64 \<Rightarrow> 'v page_ref" where
  "page_info_walk p RbNull gfn = (p, RbNull)"
| "page_info_walk p (RbNode c l k v r) gfn =
     (if gfn < k then page_info_walk (LeftOf c k v r # p) l gfn
      else if k < gfn then page_info_walk (RightOf c l k v # p) r gfn
      else (p, RbNode c l k v r))"

definition insert_page_info_node :: "'v page_tree \<Rightarrow> u64 \<Rightarrow> 'v \<Rightarrow> (int \<times> 'v page_tree) option" where
  "insert_page_info_node root gfn info =
     (case page_info_walk [] root gfn of
        (p, RbNull) \<Rightarrow> do {
          root' \<leftarrow> rb_insert_color p (RbNode RB_RED RbNull gfn info RbNull);
          Some (0, root')
        }
      | _ \<Rightarrow> Some (- EEXIST, root))"

text \<open>
  \<^verbatim>\<open>add_page_info_entry\<close>: the result says whether the returned pointer is non-NULL; on a failed
  insertion the fresh entry goes back to the heap.
\<close>

definition add_page_info_entry ::
  "'v page_tree \<Rightarrow> nat \<Rightarrow> u64 \<Rightarrow> 'v \<Rightarrow> (bool \<times> 'v page_tree \<times> nat) option" where
  "add_page_info_entry root heap gfn info =
     (if heap = 0 then Some (False, root, heap)
      else do {
        (rc, root') \<leftarrow> insert_page_info_node root gfn info;
        Some (if rc < 0 then (False, root', heap) else (True, root', heap - 1))
      })"

definition rm_page_info_entry :: "'v page_ref \<Rightarrow> nat \<Rightarrow> ('v page_tree \<times> nat) option" where
  "rm_page_info_entry data heap = do {
     root' \<leftarrow> rb_erase (fst data) (snd data);
     Some (root', Suc heap)
   }"

definition get_page_info_entry :: "'v page_tree \<Rightarrow> u64 \<Rightarrow> 'v page_ref option" where
  "get_page_info_entry root gfn =
     (case page_info_walk [] root gfn of
        (p, RbNull) \<Rightarrow> None
      | ref \<Rightarrow> Some ref)"

text \<open>Reading \<^verbatim>\<open>entry->info\<close> and writing it through the pointer.\<close>

fun page_info_get :: "'v page_ref \<Rightarrow> 'v option" where
  "page_info_get (p, RbNode c l k v r) = Some v"
| "page_info_get (p, RbNull) = None"

fun page_info_put :: "'v page_ref \<Rightarrow> 'v \<Rightarrow> 'v page_tree option" where
  "page_info_put (p, RbNode c l k v r) v' = Some (rb_unwind p (RbNode c l k v' r))"
| "page_info_put (p, RbNull) v' = None"

text \<open>
  \<^verbatim>\<open>free_xom_info_node\<close> frees both subtrees and the node; the result is the heap after it.
\<close>

fun free_xom_info_node :: "'v page_tree \<Rightarrow> nat \<Rightarrow> nat" where
  "free_xom_info_node RbNull heap = heap"
| "free_xom_info_node (RbNode c l k v r) heap =
     Suc (free_xom_info_node r (free_xom_info_node l heap))"

definition free_xom_info :: "'v page_tree \<Rightarrow> nat \<Rightarrow> 'v page_tree \<times> nat" where
  "free_xom_info root heap = (RbNull, free_xom_info_node root heap)"

subsection \<open>The map a tree stands for\<close>

definition page_keys :: "'v page_tree \<Rightarrow> u64 list" where
  "page_keys t = map fst (rb_inorder t)"

definition page_alpha :: "'v page_tree \<Rightarrow> u64 \<rightharpoonup> 'v" where
  "page_alpha t = map_of (rb_inorder t)"

definition page_inv :: "'v page_tree \<Rightarrow> bool" where
  "page_inv t \<longleftrightarrow> rb_valid t \<and> sorted_wrt (<) (page_keys t)"

definition page_count :: "'v page_tree \<Rightarrow> nat" where
  "page_count t = length (rb_inorder t)"

lemma walk_unwind:
  "page_info_walk p t gfn = (p', t') \<Longrightarrow> rb_unwind p' t' = rb_unwind p t"
  by (induction p t gfn rule: page_info_walk.induct) (auto split: if_splits)

lemma walk_between:
  assumes "page_info_walk p t gfn = (p', t')" "sorted_wrt (<) (page_keys t)"
    and "\<forall>x \<in> fst ` set (path_before p). x < gfn" "\<forall>x \<in> fst ` set (path_after p). gfn < x"
  shows "(\<forall>x \<in> fst ` set (path_before p'). x < gfn) \<and> (\<forall>x \<in> fst ` set (path_after p'). gfn < x)
    \<and> (t' = RbNull \<or> (\<exists>c l v r. t' = RbNode c l gfn v r))"
  using assms
proof (induction p t gfn rule: page_info_walk.induct)
  case (1 p gfn)
  then show ?case by simp
next
  case (2 p c l k v r gfn)
  have *: "sorted_wrt (<) (page_keys l)" "sorted_wrt (<) (page_keys r)"
    "\<And>a b. (a, b) \<in> set (rb_inorder l) \<Longrightarrow> a < k" "\<And>a b. (a, b) \<in> set (rb_inorder r) \<Longrightarrow> k < a"
    using "2.prems"(2) by (force simp: page_keys_def sorted_wrt_append)+
  consider "gfn < k" | "k < gfn" | "gfn = k" by fastforce
  then show ?case
  proof cases
    case 1
    with "2.prems" * show ?thesis by (intro "2.IH"(1)) (auto intro: order.strict_trans)
  next
    case 2
    then have "\<not> gfn < k" by simp
    with 2 "2.prems" * show ?thesis by (intro "2.IH"(2)) (auto dest: *(3) intro: order.strict_trans)
  next
    case 3
    with "2.prems" show ?thesis by auto
  qed
qed

lemma map_of_between:
  assumes "\<forall>x \<in> fst ` set xs. x < (gfn :: u64)" "\<forall>x \<in> fst ` set ys. gfn < x"
  shows "map_of (xs @ (gfn, v) # ys) = (map_of (xs @ ys))(gfn \<mapsto> v)"
    and "map_of (xs @ ys) gfn = None" and "map_of (xs @ (gfn, v) # ys) gfn = Some v"
    and "(map_of (xs @ (gfn, v) # ys))(gfn := None) = map_of (xs @ ys)"
proof -
  have "map_of xs gfn = None" "map_of ys gfn = None"
    using assms by (auto simp: map_of_eq_None_iff)
  then show "map_of (xs @ (gfn, v) # ys) = (map_of (xs @ ys))(gfn \<mapsto> v)"
    "map_of (xs @ ys) gfn = None" "map_of (xs @ (gfn, v) # ys) gfn = Some v"
    "(map_of (xs @ (gfn, v) # ys))(gfn := None) = map_of (xs @ ys)"
    by (auto simp: map_add_def fun_eq_iff split: option.splits)
qed

lemma keys_between:
  assumes "\<forall>x \<in> fst ` set xs. x < (gfn :: u64)" "\<forall>x \<in> fst ` set ys. gfn < x"
  shows "sorted_wrt (<) (map fst (xs @ (gfn, v) # ys)) \<longleftrightarrow> sorted_wrt (<) (map fst (xs @ ys))"
  using assms by (auto simp: sorted_wrt_append dest: order.strict_trans)

text \<open>
  Where the walk ends: either the key is absent and the location is its place, or the location is
  the node of the key.
\<close>

lemma walk_location:
  assumes "page_inv t" "page_info_walk [] t gfn = (p, n)"
  shows "\<forall>x \<in> fst ` set (path_before p). x < gfn" "\<forall>x \<in> fst ` set (path_after p). gfn < x"
    and "rb_inorder t = path_before p @ rb_inorder n @ path_after p"
    and "rb_unwind p n = t"
    and "n = RbNull \<and> page_alpha t gfn = None
      \<or> (\<exists>c l v r. n = RbNode c l gfn v r \<and> page_alpha t gfn = Some v)"
proof -
  from assms have s: "sorted_wrt (<) (page_keys t)" by (simp add: page_inv_def)
  note b = walk_between[OF assms(2) s, simplified]
  show before: "\<forall>x \<in> fst ` set (path_before p). x < gfn"
    and after: "\<forall>x \<in> fst ` set (path_after p). gfn < x" using b by auto
  show u: "rb_unwind p n = t" using walk_unwind[OF assms(2)] by simp
  show io: "rb_inorder t = path_before p @ rb_inorder n @ path_after p" by (simp flip: u)
  from b consider "n = RbNull" | c l v r where "n = RbNode c l gfn v r" by blast
  then show "n = RbNull \<and> page_alpha t gfn = None
      \<or> (\<exists>c l v r. n = RbNode c l gfn v r \<and> page_alpha t gfn = Some v)"
  proof cases
    case 1
    then show ?thesis using map_of_between(2)[OF before after] io by (simp add: page_alpha_def)
  next
    case (2 c l v r)
    have "map_of (rb_inorder t) gfn = Some v"
      using s io 2 by (intro map_of_is_SomeI) (auto simp: page_keys_def strict_sorted_iff)
    with 2 show ?thesis by (simp add: page_alpha_def)
  qed
qed

subsection \<open>Correctness of the operations\<close>

lemma get_page_info_None:
  "page_inv t \<Longrightarrow> page_alpha t gfn = None \<Longrightarrow> get_page_info_entry t gfn = None"
  using walk_location(5)[of t gfn] by (auto simp: get_page_info_entry_def split: prod.split)

lemma get_page_info_Some:
  assumes "page_inv t" "page_alpha t gfn = Some v"
  obtains p c l r where "page_info_walk [] t gfn = (p, RbNode c l gfn v r)"
    and "get_page_info_entry t gfn = Some (p, RbNode c l gfn v r)"
proof -
  obtain p n where pn: "page_info_walk [] t gfn = (p, n)" by fastforce
  with walk_location(5)[OF assms(1) pn] assms(2) that show ?thesis
    by (auto simp: get_page_info_entry_def)
qed

lemma insert_page_info_new:
  assumes "page_inv t" "page_alpha t gfn = None"
  shows "\<exists>t'. insert_page_info_node t gfn v = Some (0, t') \<and> page_inv t'
    \<and> page_alpha t' = (page_alpha t)(gfn \<mapsto> v) \<and> page_count t' = Suc (page_count t)"
proof -
  obtain p n where pn: "page_info_walk [] t gfn = (p, n)" by fastforce
  note w = walk_location[OF assms(1) pn]
  from w(5) assms(2) have n: "n = RbNull" by auto
  have "rb_valid (rb_unwind p RbNull)" using assms(1) w(4) n by (simp add: page_inv_def)
  from unwind_valid[OF this] obtain h where "path_valid p h" "fits p RbNull h" by blast
  then have "path_valid p h" "red_fits (RbNode RB_RED RbNull gfn v RbNull) h"
    by (auto simp: red_fits_def fits_def)
  from valid_insert_color[OF this] obtain t' where
    t': "rb_insert_color p (RbNode RB_RED RbNull gfn v RbNull) = Some t'" "rb_valid t'" by blast
  have io: "rb_inorder t = path_before p @ path_after p" using w(3) n by simp
  have io': "rb_inorder t' = path_before p @ (gfn, v) # path_after p"
    using inorder_insert_color[OF t'(1)] by simp
  have "page_inv t'"
    using t'(2) assms(1) keys_between[OF w(1,2), of v] unfolding page_inv_def page_keys_def io io' by simp
  moreover have "page_alpha t' = (page_alpha t)(gfn \<mapsto> v)"
    unfolding page_alpha_def io io' by (rule map_of_between(1)[OF w(1,2)])
  ultimately show ?thesis
    using t'(1) by (simp add: insert_page_info_node_def pn n page_count_def io io')
qed

lemma insert_page_info_exists:
  assumes "page_inv t" "page_alpha t gfn = Some w"
  shows "insert_page_info_node t gfn v = Some (- EEXIST, t)"
  by (rule get_page_info_Some[OF assms]) (simp add: insert_page_info_node_def)

lemma page_info_put_ok:
  assumes "page_inv t" "page_info_walk [] t gfn = (p, RbNode c l gfn v r)"
  shows "\<exists>t'. page_info_put (p, RbNode c l gfn v r) v' = Some t' \<and> page_inv t'
    \<and> page_alpha t' = (page_alpha t)(gfn \<mapsto> v') \<and> page_count t' = page_count t"
proof -
  note w = walk_location[OF assms]
  let ?t = "rb_unwind p (RbNode c l gfn v' r)"
  obtain h where h: "path_valid p h" "fits p (RbNode c l gfn v r) h"
    using unwind_valid[of p "RbNode c l gfn v r"] assms(1) w(4) by (auto simp: page_inv_def)
  have "fits p (RbNode c l gfn v' r) h"
    using h(2) unfolding fits_def by (cases c) auto
  with h have valid: "rb_valid ?t" by (blast intro: valid_unwind)
  have keys: "page_keys ?t = page_keys t" by (simp add: page_keys_def w(3))
  have l: "gfn \<notin> fst ` set (path_before p @ rb_inorder l)"
    using assms(1) w(3) by (auto simp: page_inv_def page_keys_def sorted_wrt_append)
  then have "map_of (path_before p @ rb_inorder l) gfn = None"
    using map_of_eq_None_iff[of "path_before p @ rb_inorder l" gfn] by blast
  then have "page_alpha ?t = (page_alpha t)(gfn \<mapsto> v')"
    by (auto simp: page_alpha_def w(3) fun_eq_iff map_add_def split: option.splits)
  with valid keys assms(1) show ?thesis
    by (simp add: page_inv_def page_count_def w(3))
qed

lemma rm_page_info_ok:
  assumes "page_inv t" "page_info_walk [] t gfn = (p, RbNode c l gfn v r)"
  shows "\<exists>t'. rm_page_info_entry (p, RbNode c l gfn v r) heap = Some (t', Suc heap) \<and> page_inv t'
    \<and> page_alpha t' = (page_alpha t)(gfn := None) \<and> Suc (page_count t') = page_count t"
proof -
  note w = walk_location[OF assms]
  let ?xs = "path_before p @ rb_inorder l" and ?ys = "rb_inorder r @ path_after p"
  have io: "rb_inorder t = ?xs @ (gfn, v) # ?ys" using w(3) by simp
  have "rb_valid (rb_unwind p (RbNode c l gfn v r))" using assms(1) w(4) by (simp add: page_inv_def)
  from valid_erase[OF this] obtain t' where
    t': "rb_erase p (RbNode c l gfn v r) = Some t'" "rb_valid t'" by blast
  have io': "rb_inorder t' = ?xs @ ?ys" using inorder_erase[OF t'(1)] by simp
  have s: "sorted_wrt (<) (map fst (?xs @ (gfn, v) # ?ys))"
    using assms(1) io by (simp add: page_inv_def page_keys_def)
  then have b: "\<forall>x \<in> fst ` set ?xs. x < gfn" "\<forall>x \<in> fst ` set ?ys. gfn < x"
    by (auto simp: sorted_wrt_append)
  have "page_inv t'" using t'(2) s keys_between[OF b, of v] io' by (simp add: page_inv_def page_keys_def)
  moreover have "page_alpha t' = (page_alpha t)(gfn := None)"
    unfolding page_alpha_def io io' by (rule map_of_between(4)[OF b, symmetric])
  ultimately show ?thesis
    using t'(1) by (simp add: rm_page_info_entry_def page_count_def io io')
qed

lemma add_page_info_ok:
  assumes "page_inv t"
  shows "\<exists>t' h'. add_page_info_entry t heap gfn v = Some (heap > 0 \<and> page_alpha t gfn = None, t', h')
    \<and> page_inv t' \<and> page_count t' + h' = page_count t + heap
    \<and> page_alpha t' = (if heap > 0 \<and> page_alpha t gfn = None then (page_alpha t)(gfn \<mapsto> v) else page_alpha t)"
proof (cases "page_alpha t gfn")
  case None
  with insert_page_info_new[OF assms, of gfn v] show ?thesis
    using assms by (auto simp: add_page_info_entry_def)
next
  case (Some w)
  with insert_page_info_exists[OF assms Some] show ?thesis
    using assms by (auto simp: add_page_info_entry_def)
qed

lemma free_xom_info_node_count: "free_xom_info_node t heap = heap + page_count t"
  by (induction t heap rule: free_xom_info_node.induct) (auto simp: page_count_def)

subsection \<open>The interface\<close>

text \<open>
  What the sealing code relies on: \<open>find\<close> returns a pointer exactly for the keys of the map, the
  pointer reads, writes and removes the entry of its key, \<open>add\<close> succeeds exactly when an allocation
  succeeds and the key is new. No operation faults, and entries plus free allocations are constant.
\<close>

locale page_map =
  fixes inv :: "'t \<Rightarrow> bool"
    and alpha :: "'t \<Rightarrow> u64 \<rightharpoonup> 'v"
    and count :: "'t \<Rightarrow> nat"
    and find :: "'t \<Rightarrow> u64 \<Rightarrow> 'r option"
    and val :: "'r \<Rightarrow> 'v option"
    and put :: "'r \<Rightarrow> 'v \<Rightarrow> 't option"
    and remove :: "'r \<Rightarrow> nat \<Rightarrow> ('t \<times> nat) option"
    and add :: "'t \<Rightarrow> nat \<Rightarrow> u64 \<Rightarrow> 'v \<Rightarrow> (bool \<times> 't \<times> nat) option"
  assumes find_None: "inv t \<Longrightarrow> alpha t k = None \<Longrightarrow> find t k = None"
    and find_Some: "inv t \<Longrightarrow> alpha t k = Some v \<Longrightarrow> \<exists>r. find t k = Some r"
    and val_found: "inv t \<Longrightarrow> find t k = Some r \<Longrightarrow> val r = alpha t k"
    and put_found: "inv t \<Longrightarrow> find t k = Some r \<Longrightarrow>
      \<exists>t'. put r v' = Some t' \<and> inv t' \<and> alpha t' = (alpha t)(k \<mapsto> v') \<and> count t' = count t"
    and remove_found: "inv t \<Longrightarrow> find t k = Some r \<Longrightarrow>
      \<exists>t'. remove r h = Some (t', Suc h) \<and> inv t' \<and> alpha t' = (alpha t)(k := None)
        \<and> Suc (count t') = count t"
    and add_new: "inv t \<Longrightarrow> \<exists>t' h'. add t h k v = Some (h > 0 \<and> alpha t k = None, t', h')
        \<and> inv t' \<and> count t' + h' = count t + h
        \<and> alpha t' = (if h > 0 \<and> alpha t k = None then (alpha t)(k \<mapsto> v) else alpha t)"
begin

lemma find_iff: "inv t \<Longrightarrow> find t k = None \<longleftrightarrow> alpha t k = None"
  using find_None find_Some by (cases "alpha t k") fastforce+

lemma find_val: "inv t \<Longrightarrow> find t k = Some r \<Longrightarrow> \<exists>v. val r = Some v \<and> alpha t k = Some v"
  using find_iff[of t k] val_found[of t k r] by (cases "alpha t k") auto

text \<open>Looking an entry up and removing it if present deletes the key.\<close>

lemma drop_entry:
  assumes "inv t"
  shows "\<exists>t' h'. (case find t k of None \<Rightarrow> Some (t, h) | Some r \<Rightarrow> remove r h) = Some (t', h')
    \<and> inv t' \<and> alpha t' = (alpha t)(k := None) \<and> count t' + h' = count t + h"
proof (cases "find t k")
  case None
  with find_iff[OF assms, of k] have "(alpha t)(k := None) = alpha t" by auto
  with None assms show ?thesis by auto
next
  case (Some r)
  with remove_found[OF assms Some, of h] show ?thesis by fastforce
qed

lemma lookup_spec:
  "inv t \<Longrightarrow> (case find t k of None \<Rightarrow> None | Some r \<Rightarrow> val r) = alpha t k"
  using find_iff[of t k] val_found[of t k] by (cases "find t k") auto

end

interpretation page_info: page_map page_inv page_alpha page_count get_page_info_entry
  page_info_get page_info_put rm_page_info_entry add_page_info_entry
proof
  fix t :: "'v page_tree" and k v v' r h
  assume inv: "page_inv t"
  show "page_alpha t k = None \<Longrightarrow> get_page_info_entry t k = None"
    by (rule get_page_info_None[OF inv])
  show "page_alpha t k = Some v \<Longrightarrow> \<exists>r. get_page_info_entry t k = Some r"
    by (rule get_page_info_Some[OF inv]) blast+
  assume found: "get_page_info_entry t k = Some r"
  then obtain v0 where v0: "page_alpha t k = Some v0" using get_page_info_None[OF inv, of k] by fastforce
  then obtain p c l r' where walk: "page_info_walk [] t k = (p, RbNode c l k v0 r')"
    and r: "r = (p, RbNode c l k v0 r')"
    by (rule get_page_info_Some[OF inv]) (use found in auto)
  show "page_info_get r = page_alpha t k" by (simp add: r v0)
  show "\<exists>t'. page_info_put r v' = Some t' \<and> page_inv t' \<and> page_alpha t' = (page_alpha t)(k \<mapsto> v')
      \<and> page_count t' = page_count t"
    unfolding r by (rule page_info_put_ok[OF inv walk])
  show "\<exists>t'. rm_page_info_entry r h = Some (t', Suc h) \<and> page_inv t'
      \<and> page_alpha t' = (page_alpha t)(k := None) \<and> Suc (page_count t') = page_count t"
    unfolding r by (rule rm_page_info_ok[OF inv walk])
qed (rule add_page_info_ok)

subsection \<open>Main theorem\<close>

text \<open>
  C24: the page-info tree implements a finite map from guest frame numbers. On a well-formed tree a
  look-up returns the value of the map; an insertion succeeds exactly when an allocation succeeds and the
  frame has no entry, and then adds the entry; looking an entry up and removing it deletes the key; freeing the
  tree returns every entry. No operation dereferences NULL, all keep the tree well-formed, and
  entries and free allocations together stay constant.
\<close>

theorem page_info_refines_map:
  assumes "page_inv t"
  shows "Option.bind (get_page_info_entry t gfn) page_info_get = page_alpha t gfn
    \<and> (\<exists>t' h'. add_page_info_entry t heap gfn v = Some (heap > 0 \<and> page_alpha t gfn = None, t', h')
         \<and> page_inv t' \<and> page_count t' + h' = page_count t + heap
         \<and> page_alpha t' = (if heap > 0 \<and> page_alpha t gfn = None then (page_alpha t)(gfn \<mapsto> v) else page_alpha t))
    \<and> (\<exists>t' h'. (case get_page_info_entry t gfn of None \<Rightarrow> Some (t, heap) | Some r \<Rightarrow> rm_page_info_entry r heap) = Some (t', h')
         \<and> page_inv t' \<and> page_alpha t' = (page_alpha t)(gfn := None) \<and> page_count t' + h' = page_count t + heap)
    \<and> free_xom_info t heap = (RbNull, page_count t + heap)"
  using page_info.lookup_spec[OF assms, of gfn] add_page_info_ok[OF assms, of heap gfn v]
    page_info.drop_entry[OF assms, of heap gfn]
  by (auto simp: free_xom_info_def free_xom_info_node_count bind_eq_None_conv split: option.splits)

theorem page_info_refines_map_witness:
  "\<exists>t' h'. add_page_info_entry (RbNode RB_BLACK RbNull 5 (1 :: u32) RbNull) 1 9 7 = Some (True, t', h')
    \<and> page_inv t' \<and> page_count t' + h' = 2 \<and> page_alpha t' 9 = Some 7 \<and> page_alpha t' 5 = Some 1"
  using page_info_refines_map[of "RbNode RB_BLACK RbNull 5 (1 :: u32) RbNull" 9 1 7]
  by (auto simp: page_inv_def rb_valid_def page_keys_def page_alpha_def page_count_def)

end
