(* ===== verification/Xom_Seal.thy ===== *)
theory Xom_Seal
  imports P2m Page_Info
begin

text \<open>
  The hypervisor side of execute-only memory, \<^verbatim>\<open>xen/xen/arch/x86/xom_seal.c\<close>: sealing and unsealing
  guest pages, write-once subpages, pages that request register clearing, and the
  \<^verbatim>\<open>MMUEXT_*_XOM\<close> hypercall dispatcher.

  The state is the part of \<^verbatim>\<open>struct domain\<close> the file uses. Guest memory maps a machine frame and an
  offset to a byte. Everything runs under \<^verbatim>\<open>d->xom_page_lock\<close> and the p2m lock, so an operation is
  one function. A NULL dereference is \<^const>\<open>None\<close>.
\<close>

subsection \<open>State and environment\<close>

record 'e xom_domain =
  hostp2m :: "'e p2m_domain option"
  guest_mem :: "u64 \<Rightarrow> nat \<Rightarrow> u8"
  xom_subpages :: "u32 page_tree"
  xom_reg_clear_pages :: "u8 page_tree"
  xheap :: nat
  tlb_flushes :: nat
  is_hvm_domain :: bool
  hap_enabled :: bool

text \<open>
  The environment: the function pointers of the p2m, \<^verbatim>\<open>mfn_valid\<close>, and whether a reference
  (\<^verbatim>\<open>get_page\<close>) and a writable type reference (\<^verbatim>\<open>get_page_type\<close>) on the page of a frame can be taken.
\<close>

record 'e xom_env =
  p2m_fns :: "'e p2m_ops"
  mfn_valid :: "u64 \<Rightarrow> bool"
  get_page :: "u64 \<Rightarrow> bool"
  get_page_type :: "u64 \<Rightarrow> bool"

text \<open>\<^verbatim>\<open>struct xom_subpage_write_info\<close> and \<^verbatim>\<open>struct xom_subpage_write_command\<close>.\<close>

record xom_subpage_write_info =
  target_subpage :: u8
  wi_data :: "u8 list"

record xom_subpage_write_command =
  num_subpages :: u8
  write_info :: "xom_subpage_write_info list"

definition get_page_from_gfn :: "'e xom_env \<Rightarrow> 'e p2m_domain \<Rightarrow> u64 \<Rightarrow> u64 option" where
  "get_page_from_gfn env p2m gfn =
     p2m_get_page_from_gfn (p2m_fns env) (mfn_valid env) (get_page env) p2m gfn"

definition set_access_single ::
  "'e xom_env \<Rightarrow> 'e p2m_domain \<Rightarrow> p2m_access_t \<Rightarrow> u64 \<Rightarrow> int \<times> 'e p2m_domain" where
  "set_access_single env p2m a gfn =
     (let (rc, p2m, _) = p2m_set_mem_access_single (p2m_fns env) (mfn_valid env) p2m None a gfn
      in (rc, p2m))"

text \<open>\<^verbatim>\<open>p2m->tlb_flush(p2m)\<close>.\<close>

definition p2m_tlb_flush :: "'e xom_domain \<Rightarrow> 'e xom_domain" where
  "p2m_tlb_flush d = d\<lparr>tlb_flushes := Suc (tlb_flushes d)\<rparr>"

subsection \<open>Sealing pages\<close>

text \<open>
  The loop of \<^verbatim>\<open>set_xom_seal\<close>: the first argument is \<^verbatim>\<open>nr_pages - i\<close>, then \<^verbatim>\<open>c_gfn\<close> and \<^verbatim>\<open>ret\<close>.
\<close>

fun set_xom_loop :: "'e xom_env \<Rightarrow> nat \<Rightarrow> u64 \<Rightarrow> int \<Rightarrow> 'e p2m_domain \<Rightarrow> int \<times> 'e p2m_domain" where
  "set_xom_loop env 0 gfn ret p2m = (ret, p2m)"
| "set_xom_loop env (Suc n) gfn ret p2m =
     (let (ret, p2m) = set_access_single env p2m p2m_access_x gfn
      in if ret < 0 then (ret, p2m) else set_xom_loop env n (gfn + 1) ret p2m)"

definition set_xom_seal :: "'e xom_env \<Rightarrow> 'e xom_domain \<Rightarrow> u64 \<Rightarrow> u32 \<Rightarrow> int \<times> 'e xom_domain" where
  "set_xom_seal env d gfn nr_pages =
     (case hostp2m d of
        None \<Rightarrow> (- EFAULT, d)
      | Some p2m \<Rightarrow>
          if nr_pages = 0 then (- EINVAL, d)
          else if gfn + ucast nr_pages > max_mapped_pfn p2m then (- EOVERFLOW, d)
          else let (ret, p2m) = set_xom_loop env (unat nr_pages) gfn 0 p2m
               in (ret, p2m_tlb_flush (d\<lparr>hostp2m := Some p2m\<rparr>)))"

subsection \<open>Unsealing pages\<close>

text \<open>\<^verbatim>\<open>memset(xom_page, 0x90, PAGE_SIZE)\<close> on the mapped frame.\<close>

definition wipe_frame :: "(u64 \<Rightarrow> nat \<Rightarrow> u8) \<Rightarrow> u64 \<Rightarrow> u64 \<Rightarrow> nat \<Rightarrow> u8" where
  "wipe_frame mem mfn = mem(mfn := (\<lambda>off. if off < PAGE_SIZE then 0x90 else mem mfn off))"

text \<open>\<^verbatim>\<open>page_info = get_page_info_entry(...); if (page_info) rm_page_info_entry(...)\<close>.\<close>

definition forget_page :: "'v page_tree \<Rightarrow> nat \<Rightarrow> u64 \<Rightarrow> ('v page_tree \<times> nat) option" where
  "forget_page root heap gfn =
     (case get_page_info_entry root gfn of
        None \<Rightarrow> Some (root, heap)
      | Some data \<Rightarrow> rm_page_info_entry data heap)"

fun clear_xom_loop ::
  "'e xom_env \<Rightarrow> nat \<Rightarrow> u64 \<Rightarrow> int \<Rightarrow> 'e p2m_domain \<Rightarrow> 'e xom_domain
    \<Rightarrow> (int \<times> 'e p2m_domain \<times> 'e xom_domain) option" where
  "clear_xom_loop env 0 gfn ret p2m d = Some (ret, p2m, d)"
| "clear_xom_loop env (Suc n) gfn ret p2m d =
     (let (_, ptype, atype, _) = get_entry (p2m_fns env) p2m gfn
      in if atype \<noteq> p2m_access_x then clear_xom_loop env n (gfn + 1) ret p2m d
         else case get_page_from_gfn env p2m gfn of
           None \<Rightarrow> Some (- EINVAL, p2m, d)
         | Some mfn \<Rightarrow>
             if \<not> get_page_type env mfn then Some (- EPERM, p2m, d)
             else let d = d\<lparr>guest_mem := wipe_frame (guest_mem d) mfn\<rparr>;
                      (ret, p2m) = set_access_single env p2m p2m_access_rwx gfn
                  in do {
                    (sub, heap) \<leftarrow> forget_page (xom_subpages d) (xheap d) gfn;
                    (rcl, heap) \<leftarrow> forget_page (xom_reg_clear_pages d) heap gfn;
                    clear_xom_loop env n (gfn + 1) ret p2m
                      (d\<lparr>xom_subpages := sub, xom_reg_clear_pages := rcl, xheap := heap\<rparr>)
                  })"

definition clear_xom_seal ::
  "'e xom_env \<Rightarrow> 'e xom_domain \<Rightarrow> u64 \<Rightarrow> u32 \<Rightarrow> (int \<times> 'e xom_domain) option" where
  "clear_xom_seal env d gfn nr_pages =
     (case hostp2m d of
        None \<Rightarrow> Some (- EFAULT, d)
      | Some p2m \<Rightarrow>
          if nr_pages = 0 then Some (- EINVAL, d)
          else if gfn + ucast nr_pages > max_mapped_pfn p2m then Some (- EOVERFLOW, d)
          else do {
            (ret, p2m, d) \<leftarrow> clear_xom_loop env (unat nr_pages) gfn 0 p2m d;
            Some (ret, p2m_tlb_flush (d\<lparr>hostp2m := Some p2m\<rparr>))
          })"

subsection \<open>Subpages\<close>

fun create_xom_loop ::
  "'e xom_env \<Rightarrow> nat \<Rightarrow> u64 \<Rightarrow> int \<Rightarrow> 'e p2m_domain \<Rightarrow> 'e xom_domain
    \<Rightarrow> (int \<times> 'e p2m_domain \<times> 'e xom_domain) option" where
  "create_xom_loop env 0 gfn ret p2m d = Some (ret, p2m, d)"
| "create_xom_loop env (Suc n) gfn ret p2m d =
     (let (_, ptype, atype, _) = get_entry (p2m_fns env) p2m gfn
      in if atype = p2m_access_x then Some (- EINVAL, p2m, d)
         else let (ret, p2m) = set_access_single env p2m p2m_access_x gfn
              in do {
                (added, sub, heap) \<leftarrow> add_page_info_entry (xom_subpages d) (xheap d) gfn 0;
                (let d = d\<lparr>xom_subpages := sub, xheap := heap\<rparr>
                 in if \<not> added then Some (- ENOMEM, p2m, d)
                    else create_xom_loop env n (gfn + 1) ret p2m d)
              })"

definition create_xom_subpages ::
  "'e xom_env \<Rightarrow> 'e xom_domain \<Rightarrow> u64 \<Rightarrow> u32 \<Rightarrow> (int \<times> 'e xom_domain) option" where
  "create_xom_subpages env d gfn nr_pages =
     (case hostp2m d of
        None \<Rightarrow> Some (- EFAULT, d)
      | Some p2m \<Rightarrow>
          if nr_pages = 0 then Some (- EINVAL, d)
          else if gfn + ucast nr_pages > max_mapped_pfn p2m then Some (- EOVERFLOW, d)
          else do {
            (ret, p2m, d) \<leftarrow> create_xom_loop env (unat nr_pages) gfn 0 p2m d;
            Some (ret, p2m_tlb_flush (d\<lparr>hostp2m := Some p2m\<rparr>))
          })"

text \<open>
  \<^verbatim>\<open>memcpy(&command, xom_page, sizeof(command))\<close>: the packed layout of the command in the source
  page, one count byte and then 31 records of a target byte and 128 data bytes.
\<close>

definition read_write_command :: "(nat \<Rightarrow> u8) \<Rightarrow> xom_subpage_write_command" where
  "read_write_command pg =
     \<lparr>num_subpages = pg 0,
      write_info = map (\<lambda>i. \<lparr>target_subpage = pg (1 + i * (1 + SUBPAGE_SIZE)),
                             wi_data = map (\<lambda>j. pg (2 + i * (1 + SUBPAGE_SIZE) + j)) [0..<SUBPAGE_SIZE]\<rparr>)
                    [0..<MAX_SUBPAGES_PER_CMD]\<rparr>"

definition subpage_bit :: "u8 \<Rightarrow> u32" where
  "subpage_bit target = push_bit (unat target) 1"

text \<open>The validation loop over the first \<^verbatim>\<open>num_subpages\<close> records.\<close>

definition valid_targets :: "u32 \<Rightarrow> xom_subpage_write_info list \<Rightarrow> bool" where
  "valid_targets lock_status wis \<longleftrightarrow>
     (\<forall>wi \<in> set wis. unat (target_subpage wi) < SUBPAGES_PER_PAGE
        \<and> lock_status AND subpage_bit (target_subpage wi) = 0)"

definition write_subpage :: "(nat \<Rightarrow> u8) \<Rightarrow> xom_subpage_write_info \<Rightarrow> nat \<Rightarrow> u8" where
  "write_subpage pg wi =
     (\<lambda>off. let base = unat (target_subpage wi) * SUBPAGE_SIZE
            in if base \<le> off \<and> off < base + SUBPAGE_SIZE then wi_data wi ! (off - base) else pg off)"

fun write_subpages ::
  "xom_subpage_write_info list \<Rightarrow> (nat \<Rightarrow> u8) \<Rightarrow> u32 \<Rightarrow> (nat \<Rightarrow> u8) \<times> u32" where
  "write_subpages [] pg lock_status = (pg, lock_status)"
| "write_subpages (wi # wis) pg lock_status =
     write_subpages wis (write_subpage pg wi) (lock_status OR subpage_bit (target_subpage wi))"

definition write_into_subpage ::
  "'e xom_env \<Rightarrow> 'e xom_domain \<Rightarrow> u64 \<Rightarrow> u64 \<Rightarrow> (int \<times> 'e xom_domain) option" where
  "write_into_subpage env d gfn_dest gfn_src =
     (case get_page_info_entry (xom_subpages d) gfn_dest of
        None \<Rightarrow> Some (- EINVAL, d)
      | Some subpage_info \<Rightarrow>
      (case hostp2m d of
        None \<Rightarrow> Some (- EFAULT, d)
      | Some p2m \<Rightarrow>
        if gfn_src > max_mapped_pfn p2m then Some (- EOVERFLOW, d)
        else case get_page_from_gfn env p2m gfn_src of
          None \<Rightarrow> Some (- EINVAL, d)
        | Some src \<Rightarrow>
          let command = read_write_command (guest_mem d src);
              wis = take (unat (num_subpages command)) (write_info command)
          in if unat (num_subpages command) > MAX_SUBPAGES_PER_CMD then Some (- EINVAL, d)
             else do {
               lock_status \<leftarrow> page_info_get subpage_info;
               (if \<not> valid_targets lock_status wis then Some (- EINVAL, d)
                else case get_page_from_gfn env p2m gfn_dest of
                  None \<Rightarrow> Some (- EINVAL, d)
                | Some dest \<Rightarrow>
                    if \<not> get_page_type env dest then Some (- EPERM, d)
                    else let (pg, lock_status) = write_subpages wis (guest_mem d dest) lock_status
                         in do {
                           sub \<leftarrow> page_info_put subpage_info lock_status;
                           Some (0, d\<lparr>guest_mem := (guest_mem d)(dest := pg), xom_subpages := sub\<rparr>)
                         })
             }))"

subsection \<open>Register-clear pages\<close>

definition mark_reg_clear_page ::
  "'e xom_env \<Rightarrow> 'e xom_domain \<Rightarrow> u64 \<Rightarrow> u32 \<Rightarrow> (int \<times> 'e xom_domain) option" where
  "mark_reg_clear_page env d gfn reg_clear_type =
     (if reg_clear_type = 0 \<or> reg_clear_type > of_nat REG_CLEAR_TYPE_FULL then Some (- EINVAL, d)
      else if get_page_info_entry (xom_reg_clear_pages d) gfn \<noteq> None then Some (- EINVAL, d)
      else do {
        p2m \<leftarrow> hostp2m d;
        (let (_, ptype, atype, _) = get_entry (p2m_fns env) p2m gfn
         in if atype \<noteq> p2m_access_x then Some (- EINVAL, d)
            else do {
              (added, rcl, heap) \<leftarrow>
                add_page_info_entry (xom_reg_clear_pages d) (xheap d) gfn (ucast reg_clear_type);
              Some (if added then 0 else - ENOMEM, d\<lparr>xom_reg_clear_pages := rcl, xheap := heap\<rparr>)
            })
      })"

subsection \<open>The hypercall\<close>

text \<open>
  \<^verbatim>\<open>struct mmuext_op\<close>: the command number, \<^verbatim>\<open>arg1.mfn\<close>, and the union \<^verbatim>\<open>arg2\<close>, whose members \<^verbatim>\<open>nr_ents\<close> (32 bits)
  and \<^verbatim>\<open>src_mfn\<close> (64 bits) share their storage.
\<close>

record mmuext_op =
  op_cmd :: u32
  op_mfn :: u64
  op_arg2 :: u64

definition op_nr_ents :: "mmuext_op \<Rightarrow> u32" where
  "op_nr_ents op = ucast (op_arg2 op)"

definition op_src_mfn :: "mmuext_op \<Rightarrow> u64" where
  "op_src_mfn op = op_arg2 op"

abbreviation (input) MMUEXT_MARK_XOM :: u32 where "MMUEXT_MARK_XOM \<equiv> 21"
abbreviation (input) MMUEXT_UNMARK_XOM :: u32 where "MMUEXT_UNMARK_XOM \<equiv> 22"
abbreviation (input) MMUEXT_CREATE_XOM_SPAGES :: u32 where "MMUEXT_CREATE_XOM_SPAGES \<equiv> 23"
abbreviation (input) MMUEXT_WRITE_XOM_SPAGES :: u32 where "MMUEXT_WRITE_XOM_SPAGES \<equiv> 24"
abbreviation (input) MMUEXT_MARK_REG_CLEAR :: u32 where "MMUEXT_MARK_REG_CLEAR \<equiv> 26"

definition xom_op :: "'e xom_env \<Rightarrow> 'e xom_domain \<Rightarrow> mmuext_op \<Rightarrow> (int \<times> 'e xom_domain) option" where
  "xom_op env d op =
     (if op_cmd op = MMUEXT_MARK_XOM then Some (set_xom_seal env d (op_mfn op) (op_nr_ents op))
      else if op_cmd op = MMUEXT_UNMARK_XOM then clear_xom_seal env d (op_mfn op) (op_nr_ents op)
      else if op_cmd op = MMUEXT_CREATE_XOM_SPAGES
        then create_xom_subpages env d (op_mfn op) (op_nr_ents op)
      else if op_cmd op = MMUEXT_WRITE_XOM_SPAGES
        then write_into_subpage env d (op_mfn op) (op_src_mfn op)
      else if op_cmd op = MMUEXT_MARK_REG_CLEAR
        then mark_reg_clear_page env d (op_mfn op) (op_nr_ents op)
      else Some (- EOPNOTSUPP, d))"

text \<open>
  The loop of \<^verbatim>\<open>handle_xom_seal\<close>: the list holds the operations still in the guest's array, \<^const>\<open>None\<close>
  where the copy from the guest faults; \<open>preempt i\<close> is the preemption test before operation \<open>i\<close>. The
  result is the return code, the state, and what is copied to \<^verbatim>\<open>pdone\<close> (nothing on an early return).
\<close>

fun handle_xom_loop ::
  "'e xom_env \<Rightarrow> (nat \<Rightarrow> bool) \<Rightarrow> nat \<Rightarrow> mmuext_op option list \<Rightarrow> 'e xom_domain
    \<Rightarrow> (int \<times> 'e xom_domain \<times> nat option) option" where
  "handle_xom_loop env preempt i [] d = Some (0, d, Some i)"
| "handle_xom_loop env preempt i (uop # uops) d =
     (if preempt i then Some (- ERESTART, d, None)
      else case uop of
        None \<Rightarrow> Some (- EFAULT, d, None)
      | Some op \<Rightarrow> do {
          (rc, d) \<leftarrow> xom_op env d op;
          (if rc < 0 then Some (rc, d, None) else handle_xom_loop env preempt (Suc i) uops d)
        })"

definition handle_xom_seal ::
  "'e xom_env \<Rightarrow> (nat \<Rightarrow> bool) \<Rightarrow> mmuext_op option list \<Rightarrow> 'e xom_domain
    \<Rightarrow> (int \<times> 'e xom_domain \<times> nat option) option" where
  "handle_xom_seal env preempt uops d =
     (if \<not> is_hvm_domain d \<or> \<not> hap_enabled d then Some (- EOPNOTSUPP, d, None)
      else handle_xom_loop env preempt 0 uops d)"

text \<open>
  \<^verbatim>\<open>gfn_of_rip\<close>: \<open>init\<close> is \<^verbatim>\<open>curr->is_initialised\<close> (with \<^verbatim>\<open>curr\<close> a proper pointer), \<open>cs_base\<close> the base of the
  code segment, \<open>gva_to_gfn\<close> the guest page walk \<^verbatim>\<open>paging_gva_to_gfn\<close>. \<^verbatim>\<open>regs\<close> is \<^const>\<open>None\<close> for a NULL or
  all-ones pointer, otherwise the instruction pointer in it.
\<close>

definition gfn_of_rip :: "bool \<Rightarrow> u64 \<Rightarrow> (u64 \<Rightarrow> u64) \<Rightarrow> u64 \<Rightarrow> u64" where
  "gfn_of_rip init cs_base gva_to_gfn rip =
     (if \<not> init then INVALID_GFN else gva_to_gfn (cs_base + rip))"

definition get_reg_clear_type ::
  "'e xom_domain \<Rightarrow> bool \<Rightarrow> u64 \<Rightarrow> (u64 \<Rightarrow> u64) \<Rightarrow> u64 option \<Rightarrow> u8" where
  "get_reg_clear_type d init cs_base gva_to_gfn regs =
     (case regs of
        None \<Rightarrow> of_nat REG_CLEAR_TYPE_NONE
      | Some rip \<Rightarrow>
          if \<not> is_hvm_domain d \<or> \<not> hap_enabled d then of_nat REG_CLEAR_TYPE_NONE
          else let instr_gfn = gfn_of_rip init cs_base gva_to_gfn rip
               in if instr_gfn = INVALID_GFN then of_nat REG_CLEAR_TYPE_NONE
                  else case Option.bind (get_page_info_entry (xom_reg_clear_pages d) instr_gfn) page_info_get of
                    None \<Rightarrow> of_nat REG_CLEAR_TYPE_NONE
                  | Some t \<Rightarrow> t)"

end
