(* ===== verification/Seal_Proofs.thy ===== *)
theory Seal_Proofs
  imports Xom_Seal
begin

text \<open>
  Correctness of the sealing operations of \<^verbatim>\<open>xom_seal.c\<close> against the contract of the p2m table and of
  the page-info map: every operation keeps the invariant and does not fault, sealing changes only
  the access rights of its range, unsealing wipes a frame before it becomes accessible, locked
  subpages keep their contents, and the contents of sealed pages do not influence anything the
  guest can observe.
\<close>

subsection \<open>Invariant\<close>

definition dom_ok :: "('e p2m_domain \<Rightarrow> bool) \<Rightarrow> 'e xom_domain \<Rightarrow> bool" where
  "dom_ok ok d \<longleftrightarrow> page_inv (xom_subpages d) \<and> page_inv (xom_reg_clear_pages d)
     \<and> (\<exists>p. hostp2m d = Some p \<and> ok p)"

text \<open>Entries of both trees and free allocations together: the memory the feature owns.\<close>

definition xom_budget :: "'e xom_domain \<Rightarrow> nat" where
  "xom_budget d = page_count (xom_subpages d) + page_count (xom_reg_clear_pages d) + xheap d"

text \<open>
  A frame number a range check admits: either mapped territory, or so large that the
  64-bit sum of the check wrapped around.
\<close>

definition near :: "'e p2m_domain \<Rightarrow> u64 \<Rightarrow> bool" where
  "near p gfn \<longleftrightarrow> gfn \<le> max_mapped_pfn p \<or> 2 ^ 45 \<le> gfn"

definition range_ok :: "'e p2m_domain \<Rightarrow> u64 \<Rightarrow> nat \<Rightarrow> bool" where
  "range_ok p gfn n \<longleftrightarrow> (\<forall>i<n. near p (gfn + of_nat i))"

lemma range_ok_Suc: "range_ok p gfn (Suc n) \<longleftrightarrow> near p gfn \<and> range_ok p (gfn + 1) n"
proof -
  have "(\<forall>i<Suc n. near p (gfn + of_nat i)) \<longleftrightarrow> near p gfn \<and> (\<forall>i<n. near p (gfn + of_nat (Suc i)))"
    by (auto simp: less_Suc_eq_0_disj)
  then show ?thesis by (simp add: range_ok_def algebra_simps)
qed

lemma range_ok_cong: "max_mapped_pfn p = max_mapped_pfn q \<Longrightarrow> range_ok p = range_ok q"
  by (auto simp: range_ok_def near_def fun_eq_iff)

lemma range_check:
  assumes "\<not> max_mapped_pfn p < gfn + ucast (nr :: u32)"
  shows "range_ok p gfn (unat nr)"
  unfolding range_ok_def
proof (intro allI impI)
  fix i assume i: "i < unat nr"
  have nr: "unat nr < 2 ^ 32" using unsigned_less[of nr] by simp
  have A: "unat (gfn + of_nat i) = (unat gfn + i) mod 2 ^ 64"
    using i nr by (simp add: unat_word_ariths unat_of_nat mod_add_right_eq)
  have S: "unat (gfn + ucast nr) = (unat gfn + unat nr) mod 2 ^ 64"
    using nr by (simp add: unat_word_ariths unsigned_ucast_eq take_bit_nat_eq_self)
  have g: "unat gfn < 2 ^ 64" using unsigned_less[of gfn] by simp
  show "near p (gfn + of_nat i)"
  proof (cases "unat gfn + i < 2 ^ 64 \<and> 2 ^ 64 \<le> unat gfn + unat nr")
    case True
    with A nr have "2 ^ 45 \<le> unat (gfn + of_nat i)" by simp
    then show ?thesis by (simp add: near_def word_le_nat_alt)
  next
    case False
    with A S i nr g have "unat (gfn + of_nat i) \<le> unat (gfn + ucast nr)"
      by (cases "unat gfn + i < 2 ^ 64"; cases "unat gfn + unat nr < 2 ^ 64")
        (auto simp: mod_if le_mod_geq)
    with assms show ?thesis by (auto simp: near_def word_le_nat_alt word_less_nat_alt)
  qed
qed

subsection \<open>Changing the access rights of a set of pages\<close>

definition gfns :: "u64 \<Rightarrow> nat \<Rightarrow> u64 set" where
  "gfns gfn n = (\<lambda>i. gfn + of_nat i) ` {..<n}"

lemma gfns_0 [simp]: "gfns gfn 0 = {}"
  by (simp add: gfns_def)

lemma gfns_Suc [simp]: "gfns gfn (Suc n) = insert gfn (gfns (gfn + 1) n)"
  by (simp add: gfns_def lessThan_Suc_eq_insert_0 image_image algebra_simps)

text \<open>
  \<open>retag ops a S p q\<close>: going from \<open>p\<close> to \<open>q\<close>, only entries of \<open>S\<close> changed, and those to rights \<open>a\<close>
  (or they were dropped).
\<close>

definition retag ::
  "'e p2m_ops \<Rightarrow> p2m_access_t \<Rightarrow> u64 set \<Rightarrow> 'e p2m_domain \<Rightarrow> 'e p2m_domain \<Rightarrow> bool" where
  "retag ops a S p q \<longleftrightarrow> max_mapped_pfn q = max_mapped_pfn p
     \<and> (\<forall>g. p2m_view ops q g = p2m_view ops p g
          \<or> g \<in> S \<and> p2m_view ops q g \<in> retagged (fst (p2m_view ops p g)) a)"

lemma retag_refl [simp]: "retag ops a S p p"
  by (simp add: retag_def)

lemma retagged_trans: "v \<in> retagged m a \<Longrightarrow> w \<in> retagged (fst v) a \<Longrightarrow> w \<in> retagged m a"
  by (auto simp: retagged_def)

lemma retag_trans: "retag ops a S p q \<Longrightarrow> retag ops a T q r \<Longrightarrow> retag ops a (S \<union> T) p r"
  unfolding retag_def by (metis UnCI retagged_trans)

lemma retag_mono: "retag ops a S p q \<Longrightarrow> S \<subseteq> T \<Longrightarrow> retag ops a T p q"
  unfolding retag_def by blast

lemma retag_range: "retag ops a S p q \<Longrightarrow> range_ok q = range_ok p"
  by (rule range_ok_cong) (simp add: retag_def)

text \<open>
  \<open>sealed_as env v a\<close>: the possible translations of a page that translated to \<open>v\<close> after its rights were
  set to \<open>a\<close> successfully; a page with a valid frame is not dropped.
\<close>

definition sealed_as :: "'e xom_env \<Rightarrow> u64 \<times> p2m_access_t \<Rightarrow> p2m_access_t \<Rightarrow> (u64 \<times> p2m_access_t) set" where
  "sealed_as env v a = (if mfn_valid env (fst v) then {(fst v, a)} else retagged (fst v) a)"

lemma sealed_as_trans:
  "v \<in> sealed_as env u a \<Longrightarrow> w \<in> sealed_as env v a \<Longrightarrow> \<not> mfn_valid env INVALID_MFN \<Longrightarrow> w \<in> sealed_as env u a"
  by (auto simp: sealed_as_def retagged_def split: if_splits)

locale seal = p2m_table "p2m_fns env" ok "mfn_valid env"
  for env :: "'e xom_env" and ok :: "'e p2m_domain \<Rightarrow> bool"
begin

lemma set_single:
  assumes "ok p" "near p gfn" "set_access_single env p a gfn = (rc, q)" "a \<noteq> p2m_access_n"
  shows "ok q \<and> rc \<le> 0 \<and> retag (p2m_fns env) a {gfn} p q
    \<and> (rc = 0 \<longrightarrow> p2m_view (p2m_fns env) q gfn \<in> sealed_as env (p2m_view (p2m_fns env) p gfn) a)"
proof (cases "gfn \<le> max_mapped_pfn p")
  case True
  from assms(3) obtain ap where
    "set_mem_access (p2m_fns env) (mfn_valid env) p None a gfn = (rc, q, ap)"
    by (auto simp: set_access_single_def p2m_set_mem_access_single_def split: prod.splits)
  from set_single_contract[OF assms(1) True assms(4) this] show ?thesis
    by (auto simp: retag_def sealed_as_def)
next
  case False
  with assms(2) have "2 ^ 45 \<le> gfn" by (simp add: near_def)
  from set_entry_far[OF assms(1) this] assms show ?thesis
    by (auto simp: set_access_single_def p2m_set_mem_access_single_def split: prod.splits)
qed

lemma set_xom_loop_spec:
  assumes "ok p" "range_ok p gfn n" "set_xom_loop env n gfn r p = (ret, q)" "r \<le> 0"
  shows "ok q \<and> ret \<le> 0 \<and> retag (p2m_fns env) p2m_access_x (gfns gfn n) p q
    \<and> (ret = 0 \<longrightarrow> (\<forall>g \<in> gfns gfn n.
         p2m_view (p2m_fns env) q g \<in> sealed_as env (p2m_view (p2m_fns env) p g) p2m_access_x))"
  using assms
proof (induction n arbitrary: gfn r p)
  case (Suc n)
  obtain rc p1 where s: "set_access_single env p p2m_access_x gfn = (rc, p1)" by fastforce
  from Suc.prems(2) have near: "near p gfn" and rest: "range_ok p (gfn + 1) n"
    by (auto simp: range_ok_Suc)
  note one = set_single[OF Suc.prems(1) near s, simplified]
  show ?case
  proof (cases "rc < 0")
    case True
    with Suc.prems(3) s have "q = p1" "ret = rc" by auto
    with one True show ?thesis by (auto intro: retag_mono)
  next
    case False
    with one have rc: "rc = 0" by simp
    with Suc.prems(3) s have loop: "set_xom_loop env n (gfn + 1) 0 p1 = (ret, q)" by simp
    have "range_ok p1 (gfn + 1) n" using rest one retag_range by metis
    note ih = Suc.IH[OF _ this loop] 
    have tags: "retag (p2m_fns env) p2m_access_x (gfns gfn (Suc n)) p q"
      using one ih retag_trans[of _ _ "{gfn}" p p1 "gfns (gfn + 1) n" q] by auto
    have "p2m_view (p2m_fns env) q g \<in> sealed_as env (p2m_view (p2m_fns env) p g) p2m_access_x"
      if "ret = 0" "g \<in> gfns gfn (Suc n)" for g
    proof (cases "g \<in> gfns (gfn + 1) n")
      case True
      have "p2m_view (p2m_fns env) p1 g = p2m_view (p2m_fns env) p g
          \<or> p2m_view (p2m_fns env) p1 g \<in> sealed_as env (p2m_view (p2m_fns env) p g) p2m_access_x"
        using one rc unfolding retag_def by (metis singletonD)
      with ih one that(1) True invalid_mfn[OF Suc.prems(1)] show ?thesis by (auto intro: sealed_as_trans)
    next
      case False
      with that(2) have g: "g = gfn" by simp
      have "p2m_view (p2m_fns env) q g = p2m_view (p2m_fns env) p1 g"
        using ih one False unfolding retag_def by blast
      with one rc g show ?thesis by simp
    qed
    with one ih tags show ?thesis by auto
  qed
qed auto

end

subsection \<open>Unsealing\<close>

definition wiped :: "(u64 \<Rightarrow> nat \<Rightarrow> u8) \<Rightarrow> u64 \<Rightarrow> bool" where
  "wiped mem mfn \<longleftrightarrow> (\<forall>off < PAGE_SIZE. mem mfn off = 0x90)"

lemma wiped_wipe [simp]: "wiped (wipe_frame mem mfn) mfn"
  by (simp add: wiped_def wipe_frame_def)

lemma wipe_other [simp]: "m \<noteq> mfn \<Longrightarrow> wipe_frame mem mfn m = mem m"
  by (simp add: wipe_frame_def)

lemma wipe_changed:
  "wipe_frame mem mfn m \<noteq> mem m \<Longrightarrow> m = mfn \<and> wiped (wipe_frame mem mfn) m"
  by (cases "m = mfn") auto

text \<open>
  What a (partial) run of the unsealing loop may do: an entry that changes was execute-only, its
  frame is wiped and its page-info entries are gone; only frames of execute-only entries of the
  range are written, and they are wiped.
\<close>

definition unsealed ::
  "'e p2m_ops \<Rightarrow> u64 set \<Rightarrow> 'e p2m_domain \<Rightarrow> 'e xom_domain \<Rightarrow> 'e p2m_domain \<Rightarrow> 'e xom_domain \<Rightarrow> bool" where
  "unsealed ops S p d q e \<longleftrightarrow> retag ops p2m_access_rwx S p q
     \<and> (\<forall>g. p2m_view ops q g \<noteq> p2m_view ops p g \<longrightarrow>
          snd (p2m_view ops p g) = p2m_access_x \<and> wiped (guest_mem e) (fst (p2m_view ops p g))
          \<and> page_alpha (xom_subpages e) g = None \<and> page_alpha (xom_reg_clear_pages e) g = None)
     \<and> (\<forall>m. guest_mem e m \<noteq> guest_mem d m \<longrightarrow>
          wiped (guest_mem e) m \<and> (\<exists>g \<in> S. p2m_view ops p g = (m, p2m_access_x)))
     \<and> (\<forall>g. page_alpha (xom_subpages e) g \<in> {page_alpha (xom_subpages d) g, None})
     \<and> (\<forall>g. page_alpha (xom_reg_clear_pages e) g \<in> {page_alpha (xom_reg_clear_pages d) g, None})
     \<and> xom_budget e = xom_budget d \<and> hostp2m e = hostp2m d \<and> tlb_flushes e = tlb_flushes d
     \<and> is_hvm_domain e = is_hvm_domain d \<and> hap_enabled e = hap_enabled d"

lemma unsealed_refl [simp]: "unsealed ops S p d p d"
  by (simp add: unsealed_def)

lemma retag_rwx_x:
  "retag ops p2m_access_rwx S p q \<Longrightarrow> p2m_view ops q g = (m, p2m_access_x) \<Longrightarrow>
   p2m_view ops p g = (m, p2m_access_x)"
  unfolding retag_def retagged_def by (elim conjE allE[where x = g]) auto

lemma wiped_stays:
  "wiped m1 m \<Longrightarrow> (\<forall>m. m2 m \<noteq> m1 m \<longrightarrow> wiped m2 m \<and> P m) \<Longrightarrow> wiped m2 m"
  unfolding wiped_def by metis

lemma unsealed_trans:
  assumes 1: "unsealed ops S p d q e" and 2: "unsealed ops T q e r f"
  shows "unsealed ops (S \<union> T) p d r f"
proof -
  have tags: "retag ops p2m_access_rwx (S \<union> T) p r"
    using 1 2 retag_trans unfolding unsealed_def by blast
  have keep: "wiped (guest_mem e) m \<Longrightarrow> wiped (guest_mem f) m" for m
    using 2 wiped_stays[of "guest_mem e" m "guest_mem f"] unfolding unsealed_def by blast
  have change: "snd (p2m_view ops p g) = p2m_access_x \<and> wiped (guest_mem f) (fst (p2m_view ops p g))
      \<and> page_alpha (xom_subpages f) g = None \<and> page_alpha (xom_reg_clear_pages f) g = None"
    if "p2m_view ops r g \<noteq> p2m_view ops p g" for g
  proof (cases "p2m_view ops q g = p2m_view ops p g")
    case True
    with 2 that show ?thesis unfolding unsealed_def by metis
  next
    case False
    with 1 have *: "snd (p2m_view ops p g) = p2m_access_x" "wiped (guest_mem e) (fst (p2m_view ops p g))"
      "page_alpha (xom_subpages e) g = None" "page_alpha (xom_reg_clear_pages e) g = None"
      unfolding unsealed_def by blast+
    moreover have "page_alpha (xom_subpages f) g \<in> {page_alpha (xom_subpages e) g, None}"
      "page_alpha (xom_reg_clear_pages f) g \<in> {page_alpha (xom_reg_clear_pages e) g, None}"
      using 2 unfolding unsealed_def by blast+
    ultimately show ?thesis using keep by auto
  qed
  have mem: "wiped (guest_mem f) m \<and> (\<exists>g \<in> S \<union> T. p2m_view ops p g = (m, p2m_access_x))"
    if "guest_mem f m \<noteq> guest_mem d m" for m
  proof (cases "guest_mem f m = guest_mem e m")
    case True
    with that 1 keep show ?thesis unfolding unsealed_def by (metis UnI1)
  next
    case False
    with 2 obtain g where "g \<in> T" "p2m_view ops q g = (m, p2m_access_x)" "wiped (guest_mem f) m"
      unfolding unsealed_def by blast
    with 1 show ?thesis using retag_rwx_x[of ops S p q g m] unfolding unsealed_def by blast
  qed
  have "page_alpha (xom_subpages f) g \<in> {page_alpha (xom_subpages d) g, None}"
    "page_alpha (xom_reg_clear_pages f) g \<in> {page_alpha (xom_reg_clear_pages d) g, None}" for g
    using 1 2 unfolding unsealed_def by (metis empty_iff insert_iff)+
  with 1 2 tags change mem show ?thesis unfolding unsealed_def by presburger
qed

lemma forget_page_ok:
  "page_inv t \<Longrightarrow> \<exists>t' h'. forget_page t h k = Some (t', h') \<and> page_inv t'
     \<and> page_alpha t' = (page_alpha t)(k := None) \<and> page_count t' + h' = page_count t + h"
  unfolding forget_page_def by (rule page_info.drop_entry)

lemma get_page_view:
  "get_page_from_gfn env p gfn = Some m \<Longrightarrow> m = fst (p2m_view (p2m_fns env) p gfn)"
  by (auto simp: get_page_from_gfn_def p2m_get_page_from_gfn_def p2m_get_gfn_type_access_def
      p2m_view_def p2m_is_ram_def p2m_is_broken_def split: prod.splits if_splits)

lemma atype_view:
  "get_entry ops p gfn = (m, t, a, n) \<Longrightarrow> snd (p2m_view ops p gfn) = a"
  by (simp add: p2m_view_def p2m_get_gfn_type_access_def)

context seal
begin

lemma clear_page_step:
  assumes "ok p" "near p gfn" "page_inv (xom_subpages d)" "page_inv (xom_reg_clear_pages d)"
    and view: "p2m_view (p2m_fns env) p gfn = (mfn, p2m_access_x)"
    and s: "set_access_single env p p2m_access_rwx gfn = (rc, q)"
  obtains sub rcl h1 h2 where "forget_page (xom_subpages d) (xheap d) gfn = Some (sub, h1)"
    and "forget_page (xom_reg_clear_pages d) h1 gfn = Some (rcl, h2)"
    and "page_inv sub" "page_inv rcl" "ok q" "range_ok q = range_ok p"
    and "unsealed (p2m_fns env) {gfn} p d q
      (d\<lparr>guest_mem := wipe_frame (guest_mem d) mfn, xom_subpages := sub,
         xom_reg_clear_pages := rcl, xheap := h2\<rparr>)"
proof -
  note one = set_single[OF assms(1,2) s, simplified]
  obtain sub h1 where sub: "forget_page (xom_subpages d) (xheap d) gfn = Some (sub, h1)" "page_inv sub"
    "page_alpha sub = (page_alpha (xom_subpages d))(gfn := None)"
    "page_count sub + h1 = page_count (xom_subpages d) + xheap d"
    using forget_page_ok[OF assms(3)] by blast
  obtain rcl h2 where rcl: "forget_page (xom_reg_clear_pages d) h1 gfn = Some (rcl, h2)" "page_inv rcl"
    "page_alpha rcl = (page_alpha (xom_reg_clear_pages d))(gfn := None)"
    "page_count rcl + h2 = page_count (xom_reg_clear_pages d) + h1"
    using forget_page_ok[OF assms(4)] by blast
  have "unsealed (p2m_fns env) {gfn} p d q
      (d\<lparr>guest_mem := wipe_frame (guest_mem d) mfn, xom_subpages := sub,
         xom_reg_clear_pages := rcl, xheap := h2\<rparr>)"
    using one view sub(3,4) rcl(3,4) wipe_changed[of "guest_mem d" mfn]
    unfolding unsealed_def retag_def by (auto simp: xom_budget_def)
  with that one sub(1,2) rcl(1,2) show ?thesis using retag_range by metis
qed

lemma clear_xom_loop_spec:
  assumes "ok p" "range_ok p gfn n" "page_inv (xom_subpages d)" "page_inv (xom_reg_clear_pages d)"
  shows "\<exists>ret q e. clear_xom_loop env n gfn r p d = Some (ret, q, e) \<and> ok q
    \<and> page_inv (xom_subpages e) \<and> page_inv (xom_reg_clear_pages e)
    \<and> unsealed (p2m_fns env) (gfns gfn n) p d q e"
  using assms
proof (induction n arbitrary: gfn r p d)
  case (Suc n)
  obtain m t a ord where ge: "get_entry (p2m_fns env) p gfn = (m, t, a, ord)"
    by (cases "get_entry (p2m_fns env) p gfn") auto
  from Suc.prems(2) have near: "near p gfn" and rest: "range_ok p (gfn + 1) n"
    by (auto simp: range_ok_Suc)
  consider "a \<noteq> p2m_access_x" | "a = p2m_access_x" "get_page_from_gfn env p gfn = None"
    | mfn where "a = p2m_access_x" "get_page_from_gfn env p gfn = Some mfn" "\<not> get_page_type env mfn"
    | mfn where "a = p2m_access_x" "get_page_from_gfn env p gfn = Some mfn" "get_page_type env mfn"
    by blast
  then show ?case
  proof cases
    case 1
    from Suc.IH[OF Suc.prems(1) rest Suc.prems(3,4), of r] obtain ret q e where
      *: "clear_xom_loop env n (gfn + 1) r p d = Some (ret, q, e)" "ok q"
      "page_inv (xom_subpages e)" "page_inv (xom_reg_clear_pages e)"
      "unsealed (p2m_fns env) (gfns (gfn + 1) n) p d q e" by blast
    have "unsealed (p2m_fns env) (gfns gfn (Suc n)) p d q e"
      using unsealed_trans[OF unsealed_refl[of _ "{gfn}"] *(5)] by simp
    with * 1 ge show ?thesis by auto
  next
    case (4 mfn)
    have view: "p2m_view (p2m_fns env) p gfn = (mfn, p2m_access_x)"
      using atype_view[OF ge] get_page_view[OF 4(2)] 4(1) by (simp add: prod_eq_iff)
    obtain rc p1 where s: "set_access_single env p p2m_access_rwx gfn = (rc, p1)" by fastforce
    obtain sub rcl h1 h2 where step: "forget_page (xom_subpages d) (xheap d) gfn = Some (sub, h1)"
      "forget_page (xom_reg_clear_pages d) h1 gfn = Some (rcl, h2)"
      "page_inv sub" "page_inv rcl" "ok p1" "range_ok p1 = range_ok p"
      "unsealed (p2m_fns env) {gfn} p d p1
        (d\<lparr>guest_mem := wipe_frame (guest_mem d) mfn, xom_subpages := sub,
           xom_reg_clear_pages := rcl, xheap := h2\<rparr>)" (is "unsealed _ _ _ _ _ ?e")
      by (rule clear_page_step[OF Suc.prems(1) near Suc.prems(3,4) view s])
    from Suc.IH[OF step(5), of "gfn + 1" ?e rc] rest step(3,4,6) obtain ret q e where
      *: "clear_xom_loop env n (gfn + 1) rc p1 ?e = Some (ret, q, e)" "ok q"
      "page_inv (xom_subpages e)" "page_inv (xom_reg_clear_pages e)"
      "unsealed (p2m_fns env) (gfns (gfn + 1) n) p1 ?e q e" by auto
    with unsealed_trans[OF step(7) *(5)] 4 ge s step(1,2) show ?thesis by auto
  qed (use Suc.prems ge in auto)
qed auto

end

subsection \<open>Subpages\<close>

text \<open>
  A (partial) run of the subpage creation: rights change to execute-only, new entries have an empty
  lock status, nothing else of the domain changes.
\<close>

definition subpaged ::
  "'e p2m_ops \<Rightarrow> u64 set \<Rightarrow> 'e p2m_domain \<Rightarrow> 'e xom_domain \<Rightarrow> 'e p2m_domain \<Rightarrow> 'e xom_domain \<Rightarrow> bool" where
  "subpaged ops S p d q e \<longleftrightarrow> retag ops p2m_access_x S p q
     \<and> e = d\<lparr>xom_subpages := xom_subpages e, xheap := xheap e\<rparr> \<and> page_inv (xom_subpages e)
     \<and> xom_budget e = xom_budget d
     \<and> (\<forall>g. page_alpha (xom_subpages e) g = page_alpha (xom_subpages d) g
          \<or> g \<in> S \<and> page_alpha (xom_subpages d) g = None \<and> page_alpha (xom_subpages e) g = Some 0)"

lemma subpaged_trans:
  assumes 1: "subpaged ops S p d q e" and 2: "subpaged ops T q e r f"
  shows "subpaged ops (S \<union> T) p d r f"
proof -
  have "retag ops p2m_access_x (S \<union> T) p r"
    using 1 2 retag_trans unfolding subpaged_def by blast
  moreover have "f = d\<lparr>xom_subpages := xom_subpages f, xheap := xheap f\<rparr>"
    using 1 2 unfolding subpaged_def by (cases d; cases e; cases f) auto
  moreover have "page_alpha (xom_subpages f) g = page_alpha (xom_subpages d) g
      \<or> g \<in> S \<union> T \<and> page_alpha (xom_subpages d) g = None \<and> page_alpha (xom_subpages f) g = Some 0" for g
    using 1 2 unfolding subpaged_def by (metis Un_iff)
  ultimately show ?thesis using 1 2 unfolding subpaged_def by presburger
qed

lemma subpaged_mono: "subpaged ops S p d q e \<Longrightarrow> S \<subseteq> T \<Longrightarrow> subpaged ops T p d q e"
  unfolding subpaged_def using retag_mono by blast

context seal
begin

lemma create_xom_loop_spec:
  assumes "ok p" "range_ok p gfn n" "page_inv (xom_subpages d)"
  shows "\<exists>ret q e. create_xom_loop env n gfn r p d = Some (ret, q, e) \<and> ok q
    \<and> subpaged (p2m_fns env) (gfns gfn n) p d q e"
  using assms
proof (induction n arbitrary: gfn r p d)
  case 0
  then show ?case by (cases d) (auto simp: subpaged_def)
next
  case (Suc n)
  obtain m t a ord where ge: "get_entry (p2m_fns env) p gfn = (m, t, a, ord)"
    by (cases "get_entry (p2m_fns env) p gfn") auto
  from Suc.prems(2) have near: "near p gfn" and rest: "range_ok p (gfn + 1) n"
    by (auto simp: range_ok_Suc)
  show ?case
  proof (cases "a = p2m_access_x")
    case True
    with ge Suc.prems show ?thesis by (cases d) (auto simp: subpaged_def)
  next
    case False
    obtain rc p1 where s: "set_access_single env p p2m_access_x gfn = (rc, p1)" by fastforce
    note one = set_single[OF Suc.prems(1) near s, simplified]
    let ?fresh = "xheap d > 0 \<and> page_alpha (xom_subpages d) gfn = None"
    obtain sub h where add: "add_page_info_entry (xom_subpages d) (xheap d) gfn 0 = Some (?fresh, sub, h)"
      "page_inv sub" "page_count sub + h = page_count (xom_subpages d) + xheap d"
      "page_alpha sub = (if ?fresh then (page_alpha (xom_subpages d))(gfn \<mapsto> 0) else page_alpha (xom_subpages d))"
      using page_info.add_new[OF Suc.prems(3)] by blast
    let ?e = "d\<lparr>xom_subpages := sub, xheap := h\<rparr>"
    have step: "subpaged (p2m_fns env) {gfn} p d p1 ?e"
      using one add by (auto simp: subpaged_def xom_budget_def)
    show ?thesis
    proof (cases ?fresh)
      case True
      have "range_ok p1 (gfn + 1) n" using rest one retag_range by metis
      from Suc.IH[OF _ this, of ?e rc] one add(2) obtain ret q e where
        *: "create_xom_loop env n (gfn + 1) rc p1 ?e = Some (ret, q, e)" "ok q"
        "subpaged (p2m_fns env) (gfns (gfn + 1) n) p1 ?e q e" by auto
      with subpaged_trans[OF step *(3)] False ge s add(1) True show ?thesis by auto
    next
      case nofresh: False
      have "subpaged (p2m_fns env) (gfns gfn (Suc n)) p d p1 ?e" using step by (auto elim: subpaged_mono)
      with False ge s add(1) nofresh one show ?thesis by auto
    qed
  qed
qed

end

text \<open>
  The effect of a write command on the destination page: a subpage that is not a target keeps its
  bytes, the lock status gains exactly the bits of the targets.
\<close>

definition in_subpage :: "nat \<Rightarrow> nat \<Rightarrow> bool" where
  "in_subpage i off \<longleftrightarrow> i * SUBPAGE_SIZE \<le> off \<and> off < Suc i * SUBPAGE_SIZE"

lemma write_subpages_other:
  "\<forall>wi \<in> set wis. \<not> in_subpage (unat (target_subpage wi)) off \<Longrightarrow>
   fst (write_subpages wis pg ls) off = pg off"
  by (induction wis pg ls rule: write_subpages.induct)
    (auto simp: write_subpage_def in_subpage_def Let_def)

lemma write_subpages_locks:
  "bit (snd (write_subpages wis pg ls)) i \<longleftrightarrow>
   bit ls i \<or> (i < 32 \<and> (\<exists>wi \<in> set wis. unat (target_subpage wi) = i))"
  by (induction wis pg ls rule: write_subpages.induct)
    (auto simp: subpage_bit_def bit_simps)

lemma in_subpage_unique: "in_subpage i off \<Longrightarrow> in_subpage j off \<Longrightarrow> i = j"
  unfolding in_subpage_def by (metis div_nat_eqI mult.commute)

lemma valid_targets_bits:
  "valid_targets ls wis \<Longrightarrow> wi \<in> set wis \<Longrightarrow>
   unat (target_subpage wi) < SUBPAGES_PER_PAGE \<and> \<not> bit ls (unat (target_subpage wi))"
  by (auto simp: valid_targets_def subpage_bit_def push_bit_of_1 and_exp_eq_0_iff_not_bit)

text \<open>With distinct targets every record of the command ends up in its subpage.\<close>

lemma write_subpages_data:
  assumes "distinct (map target_subpage wis)" "wi \<in> set wis" "in_subpage (unat (target_subpage wi)) off"
  shows "fst (write_subpages wis pg ls) off = wi_data wi ! (off - unat (target_subpage wi) * SUBPAGE_SIZE)"
  using assms
proof (induction wis pg ls rule: write_subpages.induct)
  case (2 w wis pg ls)
  show ?case
  proof (cases "wi = w")
    case True
    have "\<not> in_subpage (unat (target_subpage v)) off" if "v \<in> set wis" for v
      using that "2.prems" True in_subpage_unique by (metis distinct.simps(2) image_eqI list.set_map list.simps(9) unsigned_word_eqI)
    then have "fst (write_subpages wis (write_subpage pg w) (ls OR subpage_bit (target_subpage w))) off = write_subpage pg w off"
      by (intro write_subpages_other) blast
    with True "2.prems"(3) show ?thesis by (simp add: write_subpage_def in_subpage_def Let_def)
  qed (use 2 in auto)
qed simp

text \<open>
  What a validated command does to a page and its lock status: the targets were unlocked, exactly they
  become locked, bytes outside them keep their value, and a target holds its data if no other record
  has the same target.
\<close>

definition subpages_written ::
  "xom_subpage_write_info list \<Rightarrow> (nat \<Rightarrow> u8) \<Rightarrow> u32 \<Rightarrow> (nat \<Rightarrow> u8) \<Rightarrow> u32 \<Rightarrow> bool" where
  "subpages_written wis pg ls pg' ls' \<longleftrightarrow>
     (\<forall>wi \<in> set wis. unat (target_subpage wi) < SUBPAGES_PER_PAGE \<and> \<not> bit ls (unat (target_subpage wi)))
   \<and> (\<forall>i. bit ls' i \<longleftrightarrow> bit ls i \<or> i < 32 \<and> (\<exists>wi \<in> set wis. unat (target_subpage wi) = i))
   \<and> (\<forall>off. (\<forall>wi \<in> set wis. \<not> in_subpage (unat (target_subpage wi)) off) \<longrightarrow> pg' off = pg off)
   \<and> (distinct (map target_subpage wis) \<longrightarrow> (\<forall>wi \<in> set wis. \<forall>off.
        in_subpage (unat (target_subpage wi)) off \<longrightarrow>
        pg' off = wi_data wi ! (off - unat (target_subpage wi) * SUBPAGE_SIZE)))"

lemma write_subpages_written:
  "valid_targets ls wis \<Longrightarrow>
   subpages_written wis pg ls (fst (write_subpages wis pg ls)) (snd (write_subpages wis pg ls))"
  unfolding subpages_written_def
  using valid_targets_bits write_subpages_locks write_subpages_other write_subpages_data by blast

text \<open>Locked subpages are untouched by a validated command.\<close>

lemma write_subpages_locked:
  assumes "valid_targets ls wis" "bit ls i" "in_subpage i off"
  shows "fst (write_subpages wis pg ls) off = pg off"
proof (rule write_subpages_other, intro ballI notI)
  fix wi assume "wi \<in> set wis" "in_subpage (unat (target_subpage wi)) off"
  with assms in_subpage_unique valid_targets_bits show False by metis
qed

text \<open>
  The whole operation: a failing call changes nothing; a successful one wrote the validated command
  found in the source page into the frame of the destination.
\<close>

definition command_of :: "(nat \<Rightarrow> u8) \<Rightarrow> xom_subpage_write_info list" where
  "command_of pg = take (unat (num_subpages (read_write_command pg))) (write_info (read_write_command pg))"

lemma num_subpages_read [simp]: "num_subpages (read_write_command pg) = pg 0"
  by (simp add: read_write_command_def)

lemma write_into_subpage_found:
  assumes "get_page_info_entry (xom_subpages d) gfn_dest = Some ref" "page_info_get ref = Some ls"
    and "hostp2m d = Some p"
  shows "write_into_subpage env d gfn_dest gfn_src =
    (if gfn_src > max_mapped_pfn p then Some (- EOVERFLOW, d)
     else case get_page_from_gfn env p gfn_src of
       None \<Rightarrow> Some (- EINVAL, d)
     | Some src \<Rightarrow>
         if unat (guest_mem d src 0) > MAX_SUBPAGES_PER_CMD \<or> \<not> valid_targets ls (command_of (guest_mem d src))
         then Some (- EINVAL, d)
         else case get_page_from_gfn env p gfn_dest of
           None \<Rightarrow> Some (- EINVAL, d)
         | Some dest \<Rightarrow>
             if \<not> get_page_type env dest then Some (- EPERM, d)
             else case page_info_put ref
                         (snd (write_subpages (command_of (guest_mem d src)) (guest_mem d dest) ls)) of
               None \<Rightarrow> None
             | Some sub \<Rightarrow> Some (0, d\<lparr>guest_mem := (guest_mem d)
                   (dest := fst (write_subpages (command_of (guest_mem d src)) (guest_mem d dest) ls)),
                 xom_subpages := sub\<rparr>))"
  using assms
  by (simp add: write_into_subpage_def command_of_def Let_def split_beta bind_eq_None_conv
      split: option.split)

lemma write_into_subpage_spec:
  assumes inv: "page_inv (xom_subpages d)" and p: "hostp2m d = Some p"
  shows "\<exists>ret e. write_into_subpage env d gfn_dest gfn_src = Some (ret, e) \<and> ret \<le> 0
    \<and> (if ret \<noteq> 0 then e = d
       else \<exists>ls src dest sub. page_alpha (xom_subpages d) gfn_dest = Some ls
         \<and> get_page_from_gfn env p gfn_src = Some src \<and> get_page_from_gfn env p gfn_dest = Some dest
         \<and> unat (guest_mem d src 0) \<le> MAX_SUBPAGES_PER_CMD
         \<and> valid_targets ls (command_of (guest_mem d src))
         \<and> page_inv sub \<and> page_count sub = page_count (xom_subpages d)
         \<and> page_alpha sub = (page_alpha (xom_subpages d))
              (gfn_dest \<mapsto> snd (write_subpages (command_of (guest_mem d src)) (guest_mem d dest) ls))
         \<and> e = d\<lparr>guest_mem := (guest_mem d)
                 (dest := fst (write_subpages (command_of (guest_mem d src)) (guest_mem d dest) ls)),
              xom_subpages := sub\<rparr>)"
proof (cases "get_page_info_entry (xom_subpages d) gfn_dest")
  case None
  then show ?thesis by (auto simp: write_into_subpage_def)
next
  case (Some ref)
  obtain ls where ls: "page_info_get ref = Some ls" "page_alpha (xom_subpages d) gfn_dest = Some ls"
    using page_info.find_val[OF inv Some] by blast
  have put: "\<exists>sub. page_info_put ref ls' = Some sub \<and> page_inv sub
      \<and> page_alpha sub = (page_alpha (xom_subpages d))(gfn_dest \<mapsto> ls')
      \<and> page_count sub = page_count (xom_subpages d)" for ls'
    by (rule page_info.put_found[OF inv Some])
  show ?thesis
  proof (cases "get_page_from_gfn env p gfn_dest")
    case None
    then show ?thesis
      unfolding write_into_subpage_found[OF Some ls(1) p]
      by (cases "get_page_from_gfn env p gfn_src") simp_all
  next
    case dest: (Some dest)
    show ?thesis
    proof (cases "get_page_from_gfn env p gfn_src")
      case None
      then show ?thesis unfolding write_into_subpage_found[OF Some ls(1) p] by simp
    next
      case src: (Some src)
      obtain sub where
        "page_info_put ref (snd (write_subpages (command_of (guest_mem d src)) (guest_mem d dest) ls)) = Some sub"
        "page_inv sub" "page_count sub = page_count (xom_subpages d)"
        "page_alpha sub = (page_alpha (xom_subpages d))
           (gfn_dest \<mapsto> snd (write_subpages (command_of (guest_mem d src)) (guest_mem d dest) ls))"
        using put by blast
      with dest src ls(2) show ?thesis unfolding write_into_subpage_found[OF Some ls(1) p] by auto
    qed
  qed
qed

subsection \<open>Register-clear pages and the dispatcher\<close>

lemma mark_reg_clear_page_spec:
  assumes inv: "page_inv (xom_reg_clear_pages d)" and p: "hostp2m d = Some p"
  shows "\<exists>ret e. mark_reg_clear_page env d gfn t = Some (ret, e) \<and> ret \<le> 0
    \<and> page_inv (xom_reg_clear_pages e) \<and> xom_budget e = xom_budget d
    \<and> e = d\<lparr>xom_reg_clear_pages := xom_reg_clear_pages e, xheap := xheap e\<rparr>
    \<and> page_alpha (xom_reg_clear_pages e) =
        (if ret = 0 then (page_alpha (xom_reg_clear_pages d))(gfn \<mapsto> ucast t)
         else page_alpha (xom_reg_clear_pages d))
    \<and> (ret = 0 \<longrightarrow> (t = 1 \<or> t = 2) \<and> snd (p2m_view (p2m_fns env) p gfn) = p2m_access_x
        \<and> page_alpha (xom_reg_clear_pages d) gfn = None)"
proof (cases "t = 0 \<or> t > 2 \<or> page_alpha (xom_reg_clear_pages d) gfn \<noteq> None
    \<or> snd (p2m_view (p2m_fns env) p gfn) \<noteq> p2m_access_x")
  case True
  then have "mark_reg_clear_page env d gfn t = Some (- EINVAL, d)"
    using p page_info.find_iff[OF inv, of gfn]
    by (auto simp: mark_reg_clear_page_def p2m_view_def p2m_get_gfn_type_access_def split: prod.splits)
  with inv show ?thesis by (cases d) auto
next
  case False
  obtain rcl h where add: "add_page_info_entry (xom_reg_clear_pages d) (xheap d) gfn (ucast t) = Some (xheap d > 0, rcl, h)"
    "page_inv rcl" "page_count rcl + h = page_count (xom_reg_clear_pages d) + xheap d"
    "page_alpha rcl = (if xheap d > 0 then (page_alpha (xom_reg_clear_pages d))(gfn \<mapsto> ucast t)
       else page_alpha (xom_reg_clear_pages d))"
    using page_info.add_new[OF inv, of "xheap d" gfn "ucast t"] False by auto
  have "mark_reg_clear_page env d gfn t = Some (if xheap d > 0 then 0 else - ENOMEM,
      d\<lparr>xom_reg_clear_pages := rcl, xheap := h\<rparr>)"
    using p page_info.find_iff[OF inv, of gfn] False add(1)
    by (auto simp: mark_reg_clear_page_def p2m_view_def p2m_get_gfn_type_access_def split: prod.splits)
  moreover have "t = 1 \<or> t = 2"
    using False by (auto simp: word_less_nat_alt word_unat_eq_iff)
  ultimately show ?thesis using add False by (auto simp: xom_budget_def)
qed

lemma budget_flush [simp]: "xom_budget (p2m_tlb_flush (d\<lparr>hostp2m := q\<rparr>)) = xom_budget d"
  by (simp add: xom_budget_def p2m_tlb_flush_def)

lemma dom_ok_flush:
  "dom_ok ok (p2m_tlb_flush (d\<lparr>hostp2m := Some q\<rparr>)) \<longleftrightarrow>
   page_inv (xom_subpages d) \<and> page_inv (xom_reg_clear_pages d) \<and> ok q"
  by (simp add: dom_ok_def p2m_tlb_flush_def)

context seal
begin

lemma set_xom_seal_spec:
  assumes "dom_ok ok d" "hostp2m d = Some p" "set_xom_seal env d gfn nr = (ret, e)"
  shows "dom_ok ok e \<and> ret \<le> 0 \<and> xom_budget e = xom_budget d
    \<and> (\<exists>q. e = d\<lparr>hostp2m := Some q, tlb_flushes := tlb_flushes e\<rparr>
        \<and> retag (p2m_fns env) p2m_access_x (gfns gfn (unat nr)) p q
        \<and> (ret = 0 \<longrightarrow> nr \<noteq> 0 \<and> (\<forall>g \<in> gfns gfn (unat nr).
             p2m_view (p2m_fns env) q g \<in> sealed_as env (p2m_view (p2m_fns env) p g) p2m_access_x)))"
proof (cases "nr = 0 \<or> max_mapped_pfn p < gfn + ucast nr")
  case True
  with assms have "e = d" "ret < 0" by (auto simp: set_xom_seal_def split: if_splits)
  then show ?thesis using assms by (cases d) auto
next
  case False
  obtain r q where loop: "set_xom_loop env (unat nr) gfn 0 p = (r, q)" by fastforce
  with False assms have e: "e = p2m_tlb_flush (d\<lparr>hostp2m := Some q\<rparr>)" "ret = r"
    by (auto simp: set_xom_seal_def)
  have "ok p" using assms(1,2) by (auto simp: dom_ok_def)
  note s = set_xom_loop_spec[OF this range_check loop]
  show ?thesis using s False assms(1)
    unfolding e(2) unfolding e(1) dom_ok_flush budget_flush by (auto simp: dom_ok_def p2m_tlb_flush_def)
qed

lemma clear_xom_seal_spec:
  assumes "dom_ok ok d" "hostp2m d = Some p"
  shows "\<exists>ret e. clear_xom_seal env d gfn nr = Some (ret, e) \<and> dom_ok ok e \<and> xom_budget e = xom_budget d
    \<and> (\<exists>q f. hostp2m e = Some q \<and> e = f\<lparr>hostp2m := Some q, tlb_flushes := tlb_flushes e\<rparr>
        \<and> unsealed (p2m_fns env) (gfns gfn (unat nr)) p d q f)"
proof (cases "nr = 0 \<or> max_mapped_pfn p < gfn + ucast nr")
  case True
  with assms have "\<exists>ret. clear_xom_seal env d gfn nr = Some (ret, d)" by (auto simp: clear_xom_seal_def)
  moreover have "unsealed (p2m_fns env) (gfns gfn (unat nr)) p d p d" by simp
  moreover have "d = d\<lparr>hostp2m := Some p, tlb_flushes := tlb_flushes d\<rparr>" using assms(2) by (cases d) simp
  ultimately show ?thesis using assms by blast
next
  case False
  have inv: "ok p" "page_inv (xom_subpages d)" "page_inv (xom_reg_clear_pages d)"
    using assms by (auto simp: dom_ok_def)
  obtain ret q f where loop: "clear_xom_loop env (unat nr) gfn 0 p d = Some (ret, q, f)" "ok q"
    "page_inv (xom_subpages f)" "page_inv (xom_reg_clear_pages f)"
    "unsealed (p2m_fns env) (gfns gfn (unat nr)) p d q f"
    using clear_xom_loop_spec[OF inv(1) range_check inv(2,3), of gfn nr 0] False by blast
  let ?e = "p2m_tlb_flush (f\<lparr>hostp2m := Some q\<rparr>)"
  have "clear_xom_seal env d gfn nr = Some (ret, ?e)"
    using False assms(2) loop(1) by (simp add: clear_xom_seal_def)
  moreover have "dom_ok ok ?e \<and> xom_budget ?e = xom_budget d"
    using loop by (simp add: dom_ok_flush unsealed_def)
  moreover have "hostp2m ?e = Some q" "?e = f\<lparr>hostp2m := Some q, tlb_flushes := tlb_flushes ?e\<rparr>"
    by (simp_all add: p2m_tlb_flush_def)
  ultimately show ?thesis using loop(5) by blast
qed

lemma create_xom_subpages_spec:
  assumes "dom_ok ok d" "hostp2m d = Some p"
  shows "\<exists>ret e. create_xom_subpages env d gfn nr = Some (ret, e) \<and> dom_ok ok e \<and> xom_budget e = xom_budget d
    \<and> (\<exists>q f. hostp2m e = Some q \<and> e = f\<lparr>hostp2m := Some q, tlb_flushes := tlb_flushes e\<rparr>
        \<and> subpaged (p2m_fns env) (gfns gfn (unat nr)) p d q f)"
proof (cases "nr = 0 \<or> max_mapped_pfn p < gfn + ucast nr")
  case True
  with assms have "\<exists>ret. create_xom_subpages env d gfn nr = Some (ret, d)"
    by (auto simp: create_xom_subpages_def)
  moreover have "subpaged (p2m_fns env) (gfns gfn (unat nr)) p d p d"
    using assms by (cases d) (simp add: subpaged_def dom_ok_def)
  moreover have "d = d\<lparr>hostp2m := Some p, tlb_flushes := tlb_flushes d\<rparr>" using assms(2) by (cases d) simp
  ultimately show ?thesis using assms by blast
next
  case False
  have inv: "ok p" "page_inv (xom_subpages d)" "page_inv (xom_reg_clear_pages d)"
    using assms by (auto simp: dom_ok_def)
  obtain ret q f where loop: "create_xom_loop env (unat nr) gfn 0 p d = Some (ret, q, f)" "ok q"
    "subpaged (p2m_fns env) (gfns gfn (unat nr)) p d q f"
    using create_xom_loop_spec[OF inv(1) range_check inv(2), of gfn nr 0] False by blast
  let ?e = "p2m_tlb_flush (f\<lparr>hostp2m := Some q\<rparr>)"
  have "create_xom_subpages env d gfn nr = Some (ret, ?e)"
    using False assms(2) loop(1) by (simp add: create_xom_subpages_def)
  moreover have "xom_reg_clear_pages f = xom_reg_clear_pages d"
    using loop(3) by (cases d; cases f) (simp add: subpaged_def)
  then have "dom_ok ok ?e \<and> xom_budget ?e = xom_budget d"
    using loop inv by (simp add: dom_ok_flush subpaged_def)
  moreover have "hostp2m ?e = Some q" "?e = f\<lparr>hostp2m := Some q, tlb_flushes := tlb_flushes ?e\<rparr>"
    by (simp_all add: p2m_tlb_flush_def)
  ultimately show ?thesis using loop(3) by blast
qed

end

context seal
begin

lemma xom_op_spec:
  assumes "dom_ok ok d"
  shows "\<exists>rc e. xom_op env d op = Some (rc, e) \<and> dom_ok ok e \<and> xom_budget e = xom_budget d"
proof -
  from assms obtain p where p: "hostp2m d = Some p" and inv: "page_inv (xom_subpages d)"
    "page_inv (xom_reg_clear_pages d)" "ok p" by (auto simp: dom_ok_def)
  have mark: "\<exists>rc e. Some (set_xom_seal env d g n) = Some (rc, e) \<and> dom_ok ok e \<and> xom_budget e = xom_budget d" for g n
    using set_xom_seal_spec[OF assms p] by (cases "set_xom_seal env d g n") auto
  have "\<exists>rc e. write_into_subpage env d g s = Some (rc, e) \<and> dom_ok ok e \<and> xom_budget e = xom_budget d" for g s
    using write_into_subpage_spec[OF inv(1) p, of env g s] inv p assms
    by (fastforce simp: dom_ok_def xom_budget_def split: if_splits)
  moreover have "\<exists>rc e. mark_reg_clear_page env d g t = Some (rc, e) \<and> dom_ok ok e \<and> xom_budget e = xom_budget d" for g t
  proof -
    from mark_reg_clear_page_spec[OF inv(2) p, of env g t] obtain ret e where
      "mark_reg_clear_page env d g t = Some (ret, e)" "page_inv (xom_reg_clear_pages e)"
      "xom_budget e = xom_budget d" and e: "e = d\<lparr>xom_reg_clear_pages := xom_reg_clear_pages e, xheap := xheap e\<rparr>"
      by blast
    moreover have "hostp2m e = Some p \<and> xom_subpages e = xom_subpages d" using p by (subst (1 2) e) simp
    ultimately show ?thesis using inv by (auto simp: dom_ok_def)
  qed
  moreover have "\<exists>rc e. clear_xom_seal env d g n = Some (rc, e) \<and> dom_ok ok e \<and> xom_budget e = xom_budget d"
    "\<exists>rc e. create_xom_subpages env d g n = Some (rc, e) \<and> dom_ok ok e \<and> xom_budget e = xom_budget d" for g n
    using clear_xom_seal_spec[OF assms p] create_xom_subpages_spec[OF assms p] by meson+
  ultimately show ?thesis
    using mark assms unfolding xom_op_def by simp
qed

end

subsection \<open>Non-interference\<close>

text \<open>
  Two memories agree on everything the guest can read or write directly: all frames that are mapped
  with rights other than execute-only.
\<close>

definition same_low ::
  "'e p2m_ops \<Rightarrow> 'e p2m_domain \<Rightarrow> (u64 \<Rightarrow> nat \<Rightarrow> u8) \<Rightarrow> (u64 \<Rightarrow> nat \<Rightarrow> u8) \<Rightarrow> bool" where
  "same_low ops p m1 m2 \<longleftrightarrow>
     (\<forall>g m a. p2m_view ops p g = (m, a) \<longrightarrow> a \<noteq> p2m_access_x \<longrightarrow> m \<noteq> INVALID_MFN \<longrightarrow>
        (\<forall>off < PAGE_SIZE. m1 m off = m2 m off))"

text \<open>Two domains that differ at most in the contents of frames only mapped execute-only.\<close>

definition low_equiv :: "'e p2m_ops \<Rightarrow> 'e xom_domain \<Rightarrow> 'e xom_domain \<Rightarrow> bool" where
  "low_equiv ops d1 d2 \<longleftrightarrow> d2 = d1\<lparr>guest_mem := guest_mem d2\<rparr>
     \<and> (\<forall>p. hostp2m d1 = Some p \<longrightarrow> same_low ops p (guest_mem d1) (guest_mem d2))"

lemma same_low_retag_x:
  assumes "retag ops p2m_access_x S p q" "same_low ops p m1 m2"
  shows "same_low ops q m1 m2"
  unfolding same_low_def
proof (intro allI impI)
  fix g m a off
  assume q: "p2m_view ops q g = (m, a)" "a \<noteq> p2m_access_x" "m \<noteq> INVALID_MFN" "off < PAGE_SIZE"
  with assms(1) have "p2m_view ops p g = (m, a)"
    unfolding retag_def retagged_def by (elim conjE allE[where x = g]) auto
  with assms(2) q show "m1 m off = m2 m off" unfolding same_low_def by blast
qed

lemma same_low_wipe:
  assumes "retag ops p2m_access_rwx {gfn} p q" "p2m_view ops p gfn = (mfn, b)" "same_low ops p m1 m2"
  shows "same_low ops q (wipe_frame m1 mfn) (wipe_frame m2 mfn)"
  unfolding same_low_def
proof (intro allI impI)
  fix g m a off
  assume q: "p2m_view ops q g = (m, a)" "a \<noteq> p2m_access_x" "m \<noteq> INVALID_MFN" "off < PAGE_SIZE"
  show "wipe_frame m1 mfn m off = wipe_frame m2 mfn m off"
  proof (cases "m = mfn")
    case True
    with q show ?thesis by (simp add: wipe_frame_def)
  next
    case False
    with assms(1,2) q have "p2m_view ops p g = (m, a)"
      unfolding retag_def retagged_def by (elim conjE allE[where x = g]) auto
    with assms(3) q False show ?thesis unfolding same_low_def by (metis wipe_other)
  qed
qed

text \<open>Updates of other fields commute with the memory update, which is moved to the outside.\<close>

lemma mem_update_outer [xom_simps]:
  "(d\<lparr>guest_mem := m\<rparr>)\<lparr>xom_subpages := s\<rparr> = (d\<lparr>xom_subpages := s\<rparr>)\<lparr>guest_mem := m\<rparr>"
  "(d\<lparr>guest_mem := m\<rparr>)\<lparr>xom_reg_clear_pages := c\<rparr> = (d\<lparr>xom_reg_clear_pages := c\<rparr>)\<lparr>guest_mem := m\<rparr>"
  "(d\<lparr>guest_mem := m\<rparr>)\<lparr>xheap := h\<rparr> = (d\<lparr>xheap := h\<rparr>)\<lparr>guest_mem := m\<rparr>"
  "(d\<lparr>guest_mem := m\<rparr>)\<lparr>hostp2m := p\<rparr> = (d\<lparr>hostp2m := p\<rparr>)\<lparr>guest_mem := m\<rparr>"
  "(d\<lparr>guest_mem := m\<rparr>)\<lparr>tlb_flushes := n\<rparr> = (d\<lparr>tlb_flushes := n\<rparr>)\<lparr>guest_mem := m\<rparr>"
  by simp_all

lemma create_loop_mem:
  "create_xom_loop env n gfn r p (d\<lparr>guest_mem := m\<rparr>) =
   map_option (\<lambda>(ret, q, e). (ret, q, e\<lparr>guest_mem := m\<rparr>)) (create_xom_loop env n gfn r p d)"
proof (induction n arbitrary: gfn r p d)
  case (Suc n)
  show ?case
    by (cases "add_page_info_entry (xom_subpages d) (xheap d) gfn 0")
      (auto simp: Suc.IH xom_simps split_beta Let_def)
qed simp

lemma same_low_page:
  assumes "same_low ops p m1 m2" "p2m_view ops p g = (m, a)" "a \<noteq> p2m_access_x" "m \<noteq> INVALID_MFN"
  shows "off < PAGE_SIZE \<Longrightarrow> m1 m off = m2 m off"
  using assms unfolding same_low_def by blast

lemma read_command_cong:
  assumes "\<And>off. off < PAGE_SIZE \<Longrightarrow> pg1 off = pg2 off"
  shows "read_write_command pg1 = read_write_command pg2"
proof -
  have "pg1 0 = pg2 0" by (rule assms) simp
  moreover have "pg1 (1 + i * 129) = pg2 (1 + i * 129)" if "i < 31" for i
    using that by (intro assms) simp
  moreover have "pg1 (2 + i * 129 + j) = pg2 (2 + i * 129 + j)" if "i < 31" "j < 128" for i j
    using that by (intro assms) simp
  ultimately show ?thesis by (simp add: read_write_command_def)
qed

lemma write_subpages_cong:
  "(\<And>off. off < PAGE_SIZE \<Longrightarrow> pg1 off = pg2 off) \<Longrightarrow> off < PAGE_SIZE \<Longrightarrow>
   fst (write_subpages wis pg1 ls) off = fst (write_subpages wis pg2 ls) off"
proof (induction wis arbitrary: pg1 pg2 ls)
  case (Cons wi wis)
  show ?case
    unfolding write_subpages.simps
    by (rule Cons.IH) (use Cons.prems in \<open>auto simp: write_subpage_def Let_def\<close>)
qed simp

lemma write_subpages_snd: "snd (write_subpages wis pg1 ls) = snd (write_subpages wis pg2 ls)"
  by (induction wis arbitrary: pg1 pg2 ls) auto

lemma same_low_upd:
  assumes "same_low ops p m1 m2"
    and "(\<And>off. off < PAGE_SIZE \<Longrightarrow> m1 dest off = m2 dest off) \<Longrightarrow> (\<And>off. off < PAGE_SIZE \<Longrightarrow> pg1 off = pg2 off)"
  shows "same_low ops p (m1(dest := pg1)) (m2(dest := pg2))"
  using assms unfolding same_low_def by (metis fun_upd_other fun_upd_same)

context seal
begin

lemma clear_loop_low:
  assumes "ok p" "range_ok p gfn n" "page_inv (xom_subpages d)" "page_inv (xom_reg_clear_pages d)"
    and "same_low (p2m_fns env) p (guest_mem d) m"
    and "clear_xom_loop env n gfn r p d = Some (ret, q, e)"
  shows "\<exists>m'. clear_xom_loop env n gfn r p (d\<lparr>guest_mem := m\<rparr>) = Some (ret, q, e\<lparr>guest_mem := m'\<rparr>)
    \<and> same_low (p2m_fns env) q (guest_mem e) m'"
  using assms
proof (induction n arbitrary: gfn r p d m)
  case 0
  then show ?case by auto
next
  case (Suc n)
  obtain mf t a ord where ge: "get_entry (p2m_fns env) p gfn = (mf, t, a, ord)"
    by (cases "get_entry (p2m_fns env) p gfn") auto
  from Suc.prems(2) have near: "near p gfn" and rest: "range_ok p (gfn + 1) n"
    by (auto simp: range_ok_Suc)
  consider "a \<noteq> p2m_access_x" | "a = p2m_access_x" "get_page_from_gfn env p gfn = None"
    | mfn where "a = p2m_access_x" "get_page_from_gfn env p gfn = Some mfn" "\<not> get_page_type env mfn"
    | mfn where "a = p2m_access_x" "get_page_from_gfn env p gfn = Some mfn" "get_page_type env mfn"
    by blast
  then show ?case
  proof cases
    case 1
    with Suc.IH[OF Suc.prems(1) rest Suc.prems(3,4,5), of r] Suc.prems(6) ge show ?thesis by auto
  next
    case (4 mfn)
    have view: "p2m_view (p2m_fns env) p gfn = (mfn, p2m_access_x)"
      using atype_view[OF ge] get_page_view[OF 4(2)] 4(1) by (simp add: prod_eq_iff)
    obtain rc p1 where s: "set_access_single env p p2m_access_rwx gfn = (rc, p1)" by fastforce
    obtain sub rcl h1 h2 where step: "forget_page (xom_subpages d) (xheap d) gfn = Some (sub, h1)"
      "forget_page (xom_reg_clear_pages d) h1 gfn = Some (rcl, h2)"
      "page_inv sub" "page_inv rcl" "ok p1" "range_ok p1 = range_ok p"
      by (rule clear_page_step[OF Suc.prems(1) near Suc.prems(3,4) view s]) blast
    let ?e = "d\<lparr>guest_mem := wipe_frame (guest_mem d) mfn, xom_subpages := sub,
      xom_reg_clear_pages := rcl, xheap := h2\<rparr>"
    have low: "same_low (p2m_fns env) p1 (guest_mem ?e) (wipe_frame m mfn)"
      using same_low_wipe[OF _ view Suc.prems(5)] set_single[OF Suc.prems(1) near s] by simp
    have "clear_xom_loop env n (gfn + 1) rc p1 ?e = Some (ret, q, e)"
      using Suc.prems(6) 4 ge s step(1,2) by simp
    from Suc.IH[OF step(5) _ _ _ low this] rest step(3,4,6) 4 ge s step(1,2) show ?thesis
      by (simp add: xom_simps)
  qed (use Suc.prems ge in auto)
qed

lemma write_low:
  assumes inv: "page_inv (xom_subpages d)" and p: "hostp2m d = Some p" and ok: "ok p"
    and low: "same_low (p2m_fns env) p (guest_mem d) m"
    and src: "snd (p2m_view (p2m_fns env) p gfn_src) \<noteq> p2m_access_x"
    and w: "write_into_subpage env d gfn_dest gfn_src = Some (ret, e)"
  shows "\<exists>m'. write_into_subpage env (d\<lparr>guest_mem := m\<rparr>) gfn_dest gfn_src = Some (ret, e\<lparr>guest_mem := m'\<rparr>)
    \<and> same_low (p2m_fns env) p (guest_mem e) m'"
proof (cases "get_page_info_entry (xom_subpages d) gfn_dest")
  case None
  with w low show ?thesis by (auto simp: write_into_subpage_def)
next
  case (Some ref)
  obtain ls where ls: "page_info_get ref = Some ls"
    using page_info.find_val[OF inv Some] by blast
  note f1 = write_into_subpage_found[OF Some ls p]
  note f2 = write_into_subpage_found[of "d\<lparr>guest_mem := m\<rparr>", simplified, OF Some ls p]
  show ?thesis
  proof (cases "get_page_from_gfn env p gfn_src")
    case None
    with w low show ?thesis by (auto simp: f1 f2 split: if_splits)
  next
    case s: (Some sm)
    have "mfn_valid env sm" using s
      by (auto simp: get_page_from_gfn_def p2m_get_page_from_gfn_def split: prod.splits if_splits)
    with invalid_mfn[OF ok] have "sm \<noteq> INVALID_MFN" by metis
    with low src get_page_view[OF s] have "off < PAGE_SIZE \<Longrightarrow> guest_mem d sm off = m sm off" for off
      using same_low_page[of "p2m_fns env" p "guest_mem d" m gfn_src sm] by (metis prod.collapse)
    then have c: "command_of (m sm) = command_of (guest_mem d sm)" and n: "m sm 0 = guest_mem d sm 0"
      using read_command_cong[of "guest_mem d sm" "m sm"] by (auto simp: command_of_def)
    have upd: "same_low (p2m_fns env) p
        ((guest_mem d)(dest := fst (write_subpages wis (guest_mem d dest) ls)))
        (m(dest := fst (write_subpages wis (m dest) ls)))" for dest wis
      by (rule same_low_upd[OF low]) (rule write_subpages_cong)
    have l: "snd (write_subpages wis (m dest) ls) = snd (write_subpages wis (guest_mem d dest) ls)" for wis dest
      by (rule write_subpages_snd)
    show ?thesis
      using w low upd unfolding f1 f2 s
      by (auto simp: c n l xom_simps split: if_splits option.splits)
        (rule exI, rule conjI, rule refl, simp)
  qed
qed

end

lemma mark_mem:
  "mark_reg_clear_page env (d\<lparr>guest_mem := m\<rparr>) gfn t =
   map_option (\<lambda>(ret, e). (ret, e\<lparr>guest_mem := m\<rparr>)) (mark_reg_clear_page env d gfn t)"
  by (cases "hostp2m d"; cases "add_page_info_entry (xom_reg_clear_pages d) (xheap d) gfn (ucast t :: u8)")
    (auto simp: mark_reg_clear_page_def split_beta Let_def xom_simps)

lemma set_mem:
  "set_xom_seal env (d\<lparr>guest_mem := m\<rparr>) gfn nr =
   (fst (set_xom_seal env d gfn nr), (snd (set_xom_seal env d gfn nr))\<lparr>guest_mem := m\<rparr>)"
  by (auto simp: set_xom_seal_def p2m_tlb_flush_def xom_simps split_beta Let_def split: option.split)

lemma create_mem:
  "create_xom_subpages env (d\<lparr>guest_mem := m\<rparr>) gfn nr =
   map_option (\<lambda>(ret, e). (ret, e\<lparr>guest_mem := m\<rparr>)) (create_xom_subpages env d gfn nr)"
  by (cases "hostp2m d"; cases "create_xom_loop env (unat nr) gfn 0 (the (hostp2m d)) d")
    (auto simp: create_xom_subpages_def create_loop_mem p2m_tlb_flush_def xom_simps split_beta)

lemma low_equivI:
  "hostp2m d = Some p \<Longrightarrow> same_low ops p (guest_mem d) m \<Longrightarrow> low_equiv ops d (d\<lparr>guest_mem := m\<rparr>)"
  by (simp add: low_equiv_def)

text \<open>
  The only operation that reads guest memory is the subpage write, from its source page. The
  side condition says that this page is not itself execute-only.
\<close>

definition src_visible :: "'e xom_env \<Rightarrow> 'e xom_domain \<Rightarrow> mmuext_op \<Rightarrow> bool" where
  "src_visible env d op \<longleftrightarrow> op_cmd op = MMUEXT_WRITE_XOM_SPAGES \<longrightarrow>
     (case hostp2m d of
        None \<Rightarrow> True
      | Some p \<Rightarrow> snd (p2m_view (p2m_fns env) p (op_src_mfn op)) \<noteq> p2m_access_x)"

text \<open>The side condition along a run of the dispatcher.\<close>

fun reads_visible :: "'e xom_env \<Rightarrow> mmuext_op option list \<Rightarrow> 'e xom_domain \<Rightarrow> bool" where
  "reads_visible env [] d = True"
| "reads_visible env (None # uops) d = True"
| "reads_visible env (Some op # uops) d =
     (src_visible env d op \<and>
      (case xom_op env d op of
         None \<Rightarrow> True
       | Some (rc, e) \<Rightarrow> rc < 0 \<or> reads_visible env uops e))"

context seal
begin

lemma clear_low:
  assumes d: "dom_ok ok d" and p: "hostp2m d = Some p" and low: "same_low (p2m_fns env) p (guest_mem d) m"
    and c: "clear_xom_seal env d gfn nr = Some (ret, e)"
  shows "\<exists>e2. clear_xom_seal env (d\<lparr>guest_mem := m\<rparr>) gfn nr = Some (ret, e2) \<and> low_equiv (p2m_fns env) e e2"
proof (cases "nr = 0 \<or> max_mapped_pfn p < gfn + ucast nr")
  case True
  with c p low show ?thesis by (auto simp: clear_xom_seal_def low_equiv_def)
next
  case False
  have inv: "ok p" "page_inv (xom_subpages d)" "page_inv (xom_reg_clear_pages d)"
    using d p by (auto simp: dom_ok_def)
  from c False p obtain q f where loop: "clear_xom_loop env (unat nr) gfn 0 p d = Some (ret, q, f)"
    and e: "e = p2m_tlb_flush (f\<lparr>hostp2m := Some q\<rparr>)"
    by (auto simp: clear_xom_seal_def split: bind_splits)
  from clear_loop_low[OF inv(1) range_check inv(2,3) low loop] False obtain m' where
    "clear_xom_loop env (unat nr) gfn 0 p (d\<lparr>guest_mem := m\<rparr>) = Some (ret, q, f\<lparr>guest_mem := m'\<rparr>)"
    "same_low (p2m_fns env) q (guest_mem f) m'" by blast
  with False p e show ?thesis
    by (auto simp: clear_xom_seal_def p2m_tlb_flush_def low_equiv_def)
qed

lemma set_low:
  assumes d: "dom_ok ok d" and p: "hostp2m d = Some p" and low: "same_low (p2m_fns env) p (guest_mem d) m"
    and s: "set_xom_seal env d gfn nr = (ret, e)"
  shows "\<exists>e2. set_xom_seal env (d\<lparr>guest_mem := m\<rparr>) gfn nr = (ret, e2) \<and> low_equiv (p2m_fns env) e e2"
proof -
  from set_xom_seal_spec[OF d p s] obtain q where
    q: "e = d\<lparr>hostp2m := Some q, tlb_flushes := tlb_flushes e\<rparr>"
       "retag (p2m_fns env) p2m_access_x (gfns gfn (unat nr)) p q" by blast
  have "hostp2m e = Some q" "guest_mem e = guest_mem d" by (subst q(1), simp)+
  then have "low_equiv (p2m_fns env) e (e\<lparr>guest_mem := m\<rparr>)"
    using same_low_retag_x[OF q(2) low] by (auto intro: low_equivI)
  with s show ?thesis by (simp add: set_mem)
qed

lemma create_low:
  assumes d: "dom_ok ok d" and p: "hostp2m d = Some p" and low: "same_low (p2m_fns env) p (guest_mem d) m"
    and c: "create_xom_subpages env d gfn nr = Some (ret, e)"
  shows "\<exists>e2. create_xom_subpages env (d\<lparr>guest_mem := m\<rparr>) gfn nr = Some (ret, e2)
    \<and> low_equiv (p2m_fns env) e e2"
proof -
  from create_xom_subpages_spec[OF d p, of gfn nr] c obtain q f where
    q: "hostp2m e = Some q" "e = f\<lparr>hostp2m := Some q, tlb_flushes := tlb_flushes e\<rparr>"
       "subpaged (p2m_fns env) (gfns gfn (unat nr)) p d q f" by auto
  have "guest_mem f = guest_mem d" using q(3) by (cases f; cases d) (simp add: subpaged_def)
  moreover have "guest_mem e = guest_mem f" by (subst q(2)) simp
  ultimately have "low_equiv (p2m_fns env) e (e\<lparr>guest_mem := m\<rparr>)"
    using same_low_retag_x[of "p2m_fns env" _ p q "guest_mem d" m] low q
    by (auto intro: low_equivI simp: subpaged_def)
  with c show ?thesis by (simp add: create_mem)
qed

lemma write_into_subpage_low:
  assumes inv: "page_inv (xom_subpages d)" and p: "hostp2m d = Some p" and ok: "ok p"
    and low: "same_low (p2m_fns env) p (guest_mem d) m"
    and src: "snd (p2m_view (p2m_fns env) p gfn_src) \<noteq> p2m_access_x"
    and w: "write_into_subpage env d gfn_dest gfn_src = Some (ret, e)"
  shows "\<exists>e2. write_into_subpage env (d\<lparr>guest_mem := m\<rparr>) gfn_dest gfn_src = Some (ret, e2)
    \<and> low_equiv (p2m_fns env) e e2"
proof -
  have "hostp2m e = Some p"
    using write_into_subpage_spec[OF inv p, of env gfn_dest gfn_src] w p by (auto split: if_splits)
  with write_low[OF assms] show ?thesis by (auto intro: low_equivI)
qed

lemma mark_low:
  assumes inv: "page_inv (xom_reg_clear_pages d)" and p: "hostp2m d = Some p"
    and low: "same_low (p2m_fns env) p (guest_mem d) m"
    and c: "mark_reg_clear_page env d gfn t = Some (ret, e)"
  shows "\<exists>e2. mark_reg_clear_page env (d\<lparr>guest_mem := m\<rparr>) gfn t = Some (ret, e2)
    \<and> low_equiv (p2m_fns env) e e2"
proof -
  have e: "e = d\<lparr>xom_reg_clear_pages := xom_reg_clear_pages e, xheap := xheap e\<rparr>"
    using mark_reg_clear_page_spec[OF inv p, of env gfn t] c by auto
  have "hostp2m e = Some p" "guest_mem e = guest_mem d" using p by (subst e, simp)+
  with low have "low_equiv (p2m_fns env) e (e\<lparr>guest_mem := m\<rparr>)" by (auto intro: low_equivI)
  with c show ?thesis by (simp add: mark_mem)
qed

lemma xom_op_low:
  assumes d: "dom_ok ok d1" and low: "low_equiv (p2m_fns env) d1 d2" and src: "src_visible env d1 op"
    and op: "xom_op env d1 op = Some (rc, e1)"
  shows "\<exists>e2. xom_op env d2 op = Some (rc, e2) \<and> low_equiv (p2m_fns env) e1 e2"
proof -
  obtain m where d2: "d2 = d1\<lparr>guest_mem := m\<rparr>" using low unfolding low_equiv_def by blast
  from d obtain p where p: "hostp2m d1 = Some p" and inv: "page_inv (xom_subpages d1)"
    "page_inv (xom_reg_clear_pages d1)" "ok p" by (auto simp: dom_ok_def)
  have sl: "same_low (p2m_fns env) p (guest_mem d1) m" using low p d2 by (simp add: low_equiv_def)
  have "op_cmd op = MMUEXT_WRITE_XOM_SPAGES \<Longrightarrow> snd (p2m_view (p2m_fns env) p (op_src_mfn op)) \<noteq> p2m_access_x"
    using src p by (simp add: src_visible_def)
  with set_low[OF d p sl] clear_low[OF d p sl] create_low[OF d p sl]
    write_into_subpage_low[OF inv(1) p inv(3) sl] mark_low[OF inv(2) p sl] op low
  show ?thesis unfolding d2 xom_op_def by (auto split: if_splits)
qed

text \<open>The dispatcher on a whole array of operations.\<close>

lemma handle_xom_loop_spec:
  "dom_ok ok d \<Longrightarrow> \<exists>rc e n. handle_xom_loop env preempt i uops d = Some (rc, e, n) \<and> dom_ok ok e
    \<and> xom_budget e = xom_budget d"
proof (induction uops arbitrary: i d)
  case (Cons uop uops)
  show ?case
  proof (cases uop)
    case (Some op)
    from xom_op_spec[OF Cons.prems, of op] obtain rc e where
      "xom_op env d op = Some (rc, e)" "dom_ok ok e" "xom_budget e = xom_budget d" by blast
    with Cons.IH[of e "Suc i"] Some Cons.prems show ?thesis by auto
  qed (use Cons.prems in auto)
qed auto

lemma handle_xom_loop_low:
  assumes "dom_ok ok d1" "low_equiv (p2m_fns env) d1 d2" "reads_visible env uops d1"
    and "handle_xom_loop env preempt i uops d1 = Some (rc, e1, n)"
  shows "\<exists>e2. handle_xom_loop env preempt i uops d2 = Some (rc, e2, n) \<and> low_equiv (p2m_fns env) e1 e2"
  using assms
proof (induction uops arbitrary: i d1 d2)
  case (Cons uop uops)
  show ?case
  proof (cases uop)
    case (Some op)
    from xom_op_spec[OF Cons.prems(1), of op] obtain r f1 where
      f1: "xom_op env d1 op = Some (r, f1)" "dom_ok ok f1" by blast
    with Cons.prems Some have "src_visible env d1 op" by simp
    from xom_op_low[OF Cons.prems(1,2) this f1(1)] obtain f2 where
      "xom_op env d2 op = Some (r, f2)" "low_equiv (p2m_fns env) f1 f2" by blast
    with Cons.IH[of f1 f2 "Suc i"] f1 Some Cons.prems show ?thesis by (auto split: if_splits)
  qed (use Cons.prems in \<open>auto split: if_splits\<close>)
qed auto

end

subsection \<open>Invariants of runs\<close>

lemma handle_xom_loop_invariant:
  assumes step: "\<And>d op rc e. P d \<Longrightarrow> Some op \<in> set uops \<Longrightarrow> xom_op env d op = Some (rc, e) \<Longrightarrow> P e"
    and "P d" "handle_xom_loop env preempt i uops d = Some (rc, e, n)"
  shows "P e"
  using assms
proof (induction uops arbitrary: i d)
  case (Cons uop uops)
  show ?case
  proof (cases "preempt i \<or> uop = None")
    case True
    with Cons.prems show ?thesis by (auto split: if_splits)
  next
    case False
    then obtain op where op: "uop = Some op" by auto
    from Cons.prems(3) False op obtain r f where f: "xom_op env d op = Some (r, f)"
      by (cases "xom_op env d op") auto
    with Cons.prems op have "P f" by (metis list.set_intros(1))
    show ?thesis
    proof (cases "r < 0")
      case True
      with Cons.prems(3) False op f \<open>P f\<close> show ?thesis by auto
    next
      case nonneg: False
      with Cons.prems(3) False op f have "handle_xom_loop env preempt (Suc i) uops f = Some (rc, e, n)" by auto
      with Cons.IH[OF _ \<open>P f\<close>] Cons.prems(1) show ?thesis by (metis list.set_intros(2))
    qed
  qed
qed auto

text \<open>A frame that only one guest page maps, and a locked subpage of that page.\<close>

definition frame_exclusive :: "'e p2m_ops \<Rightarrow> 'e xom_domain \<Rightarrow> u64 \<Rightarrow> u64 \<Rightarrow> bool" where
  "frame_exclusive ops d gfn m \<longleftrightarrow> m \<noteq> INVALID_MFN
     \<and> (\<exists>p. hostp2m d = Some p \<and> (\<forall>g. g \<noteq> gfn \<longrightarrow> fst (p2m_view ops p g) \<noteq> m))"

definition subpage_locked :: "'e xom_domain \<Rightarrow> u64 \<Rightarrow> nat \<Rightarrow> bool" where
  "subpage_locked d gfn i \<longleftrightarrow> (\<exists>ls. page_alpha (xom_subpages d) gfn = Some ls \<and> bit ls i)"

lemma retag_exclusive:
  assumes "retag ops a S p q" "m \<noteq> INVALID_MFN" "\<forall>g. g \<noteq> gfn \<longrightarrow> fst (p2m_view ops p g) \<noteq> m"
  shows "\<forall>g. g \<noteq> gfn \<longrightarrow> fst (p2m_view ops q g) \<noteq> m"
  using assms unfolding retag_def retagged_def by (metis empty_iff fst_conv insert_iff)

text \<open>The state of one locked subpage, relative to the contents it had.\<close>

definition locked_state ::
  "'e p2m_ops \<Rightarrow> u64 \<Rightarrow> u64 \<Rightarrow> nat \<Rightarrow> (nat \<Rightarrow> u8) \<Rightarrow> 'e xom_domain \<Rightarrow> bool" where
  "locked_state ops gfn m i pg d \<longleftrightarrow> frame_exclusive ops d gfn m \<and> subpage_locked d gfn i
     \<and> (\<forall>off. in_subpage i off \<longrightarrow> guest_mem d m off = pg off)"

lemma write_locked:
  assumes inv: "page_inv (xom_subpages d)" and l: "locked_state (p2m_fns env) gfn m i pg d"
    and w: "write_into_subpage env d gfn_dest gfn_src = Some (rc, e)"
  shows "locked_state (p2m_fns env) gfn m i pg e"
proof -
  from l obtain p ls where p: "hostp2m d = Some p" and ex: "\<forall>g. g \<noteq> gfn \<longrightarrow> fst (p2m_view (p2m_fns env) p g) \<noteq> m"
    and m: "m \<noteq> INVALID_MFN" and ls: "page_alpha (xom_subpages d) gfn = Some ls" "bit ls i"
    and pg: "\<forall>off. in_subpage i off \<longrightarrow> guest_mem d m off = pg off"
    by (auto simp: locked_state_def frame_exclusive_def subpage_locked_def)
  show ?thesis
  proof (cases "rc = 0")
    case False
    with write_into_subpage_spec[OF inv p, of env gfn_dest gfn_src] w have "e = d" by auto
    with l show ?thesis by simp
  next
    case True
    with write_into_subpage_spec[OF inv p, of env gfn_dest gfn_src] w obtain ls' src dest sub where
      s: "page_alpha (xom_subpages d) gfn_dest = Some ls'" "get_page_from_gfn env p gfn_dest = Some dest"
      "valid_targets ls' (command_of (guest_mem d src))"
      "page_alpha sub = (page_alpha (xom_subpages d))
         (gfn_dest \<mapsto> snd (write_subpages (command_of (guest_mem d src)) (guest_mem d dest) ls'))"
      "e = d\<lparr>guest_mem := (guest_mem d)
         (dest := fst (write_subpages (command_of (guest_mem d src)) (guest_mem d dest) ls')), xom_subpages := sub\<rparr>"
      by auto
    have "subpage_locked e gfn i"
      using s(1,4,5) ls by (auto simp: subpage_locked_def write_subpages_locks)
    moreover have "guest_mem e m off = pg off" if "in_subpage i off" for off
    proof (cases "dest = m")
      case True
      with ex get_page_view[OF s(2)] have "gfn_dest = gfn" by auto
      with s ls that pg True show ?thesis by (simp add: write_subpages_locked)
    next
      case False
      with s(5) pg that show ?thesis by simp
    qed
    ultimately show ?thesis using p ex m s(5) by (auto simp: locked_state_def frame_exclusive_def)
  qed
qed

text \<open>
  The operations that neither write guest memory nor lift a protection: rights only become
  execute-only and existing subpage entries stay.
\<close>

definition quiet :: "'e p2m_ops \<Rightarrow> 'e xom_domain \<Rightarrow> 'e xom_domain \<Rightarrow> bool" where
  "quiet ops d e \<longleftrightarrow> guest_mem e = guest_mem d
     \<and> (\<exists>p q S. hostp2m d = Some p \<and> hostp2m e = Some q \<and> retag ops p2m_access_x S p q)
     \<and> (\<forall>g ls. page_alpha (xom_subpages d) g = Some ls \<longrightarrow> page_alpha (xom_subpages e) g = Some ls)"

lemma quiet_locked:
  assumes "quiet ops d e" "locked_state ops gfn m i pg d"
  shows "locked_state ops gfn m i pg e"
proof -
  from assms(1) obtain p q S where pq: "hostp2m d = Some p" "hostp2m e = Some q" "retag ops p2m_access_x S p q"
    and "guest_mem e = guest_mem d"
    and "\<forall>g ls. page_alpha (xom_subpages d) g = Some ls \<longrightarrow> page_alpha (xom_subpages e) g = Some ls"
    unfolding quiet_def by blast
  with assms(2) retag_exclusive[OF pq(3), of m gfn] show ?thesis
    by (auto simp: locked_state_def frame_exclusive_def subpage_locked_def)
qed

context seal
begin

lemma set_quiet:
  assumes d: "dom_ok ok d" and s: "set_xom_seal env d g n = (rc, e)"
  shows "quiet (p2m_fns env) d e \<and> xom_reg_clear_pages e = xom_reg_clear_pages d"
proof -
  obtain p where p: "hostp2m d = Some p" using d by (auto simp: dom_ok_def)
  from set_xom_seal_spec[OF d p s] obtain q where
    q: "e = d\<lparr>hostp2m := Some q, tlb_flushes := tlb_flushes e\<rparr>"
       "retag (p2m_fns env) p2m_access_x (gfns g (unat n)) p q" by blast
  have "hostp2m e = Some q" "guest_mem e = guest_mem d" "xom_subpages e = xom_subpages d"
    "xom_reg_clear_pages e = xom_reg_clear_pages d" by (subst q(1), simp)+
  with p q(2) show ?thesis by (auto simp: quiet_def)
qed

lemma create_quiet:
  assumes d: "dom_ok ok d" and c: "create_xom_subpages env d g n = Some (rc, e)"
  shows "quiet (p2m_fns env) d e \<and> xom_reg_clear_pages e = xom_reg_clear_pages d"
proof -
  obtain p where p: "hostp2m d = Some p" using d by (auto simp: dom_ok_def)
  from create_xom_subpages_spec[OF d p, of g n] c obtain q f where
    q: "hostp2m e = Some q" "e = f\<lparr>hostp2m := Some q, tlb_flushes := tlb_flushes e\<rparr>"
       "subpaged (p2m_fns env) (gfns g (unat n)) p d q f" by auto
  have "guest_mem e = guest_mem f" "xom_subpages e = xom_subpages f"
    "xom_reg_clear_pages e = xom_reg_clear_pages f" by (subst q(2), simp)+
  moreover have "guest_mem f = guest_mem d" "xom_reg_clear_pages f = xom_reg_clear_pages d"
    using q(3) by (cases f; cases d, simp add: subpaged_def)+
  moreover have "page_alpha (xom_subpages f) k = Some ls" if "page_alpha (xom_subpages d) k = Some ls" for k ls
    using q(3) that unfolding subpaged_def by (metis option.distinct(1))
  ultimately show ?thesis using p q(1,3) by (auto simp: quiet_def subpaged_def)
qed

lemma mark_quiet:
  assumes d: "dom_ok ok d" and m: "mark_reg_clear_page env d g t = Some (rc, e)"
  shows "quiet (p2m_fns env) d e \<and> hostp2m e = hostp2m d"
proof -
  obtain p where p: "hostp2m d = Some p" and inv: "page_inv (xom_reg_clear_pages d)"
    using d by (auto simp: dom_ok_def)
  have e: "e = d\<lparr>xom_reg_clear_pages := xom_reg_clear_pages e, xheap := xheap e\<rparr>"
    using mark_reg_clear_page_spec[OF inv p, of env g t] m by auto
  have "hostp2m e = hostp2m d" "guest_mem e = guest_mem d" "xom_subpages e = xom_subpages d"
    by (subst e, simp)+
  with p show ?thesis by (auto simp: quiet_def intro: retag_refl)
qed

lemma xom_op_locked:
  assumes d: "dom_ok ok d" and l: "locked_state (p2m_fns env) gfn m i pg d"
    and "op_cmd op \<noteq> MMUEXT_UNMARK_XOM" and op: "xom_op env d op = Some (rc, e)"
  shows "locked_state (p2m_fns env) gfn m i pg e"
proof -
  from d have inv: "page_inv (xom_subpages d)" by (auto simp: dom_ok_def)
  show ?thesis
    using op assms(3) set_quiet[OF d] create_quiet[OF d] mark_quiet[OF d] quiet_locked[OF _ l]
      write_locked[OF inv l] l
    by (auto simp: xom_op_def split: if_splits)
qed

end

text \<open>
  Register-clear entries: their type is one of the two defined ones, and their page is execute-only
  (or no longer mapped).
\<close>

definition reg_clear_sealed :: "'e p2m_ops \<Rightarrow> 'e xom_domain \<Rightarrow> bool" where
  "reg_clear_sealed ops d \<longleftrightarrow> (\<forall>g t p. page_alpha (xom_reg_clear_pages d) g = Some t \<longrightarrow> hostp2m d = Some p \<longrightarrow>
     (t = 1 \<or> t = 2) \<and> (snd (p2m_view ops p g) = p2m_access_x \<or> fst (p2m_view ops p g) = INVALID_MFN))"

lemma quiet_reg_clear:
  assumes "quiet ops d e" "xom_reg_clear_pages e = xom_reg_clear_pages d" "reg_clear_sealed ops d"
  shows "reg_clear_sealed ops e"
proof -
  from assms(1) obtain p q S where pq: "hostp2m d = Some p" "hostp2m e = Some q" "retag ops p2m_access_x S p q"
    unfolding quiet_def by blast
  have "snd (p2m_view ops q g) = p2m_access_x \<or> fst (p2m_view ops q g) = INVALID_MFN"
    if "snd (p2m_view ops p g) = p2m_access_x \<or> fst (p2m_view ops p g) = INVALID_MFN" for g
    using pq(3) that unfolding retag_def retagged_def by (elim conjE allE[where x = g]) auto
  with assms pq show ?thesis by (auto simp: reg_clear_sealed_def)
qed

context seal
begin

lemma clear_reg_clear:
  assumes d: "dom_ok ok d" and r: "reg_clear_sealed (p2m_fns env) d"
    and c: "clear_xom_seal env d gfn nr = Some (ret, e)"
  shows "reg_clear_sealed (p2m_fns env) e"
proof -
  obtain p where p: "hostp2m d = Some p" using d by (auto simp: dom_ok_def)
  from clear_xom_seal_spec[OF d p, of gfn nr] c obtain q f where
    q: "hostp2m e = Some q" "e = f\<lparr>hostp2m := Some q, tlb_flushes := tlb_flushes e\<rparr>"
       "unsealed (p2m_fns env) (gfns gfn (unat nr)) p d q f" by auto
  have "xom_reg_clear_pages e = xom_reg_clear_pages f" by (subst q(2)) simp
  moreover have "page_alpha (xom_reg_clear_pages d) g = Some t \<and> p2m_view (p2m_fns env) q g = p2m_view (p2m_fns env) p g"
    if "page_alpha (xom_reg_clear_pages f) g = Some t" for g t
    using q(3) that unfolding unsealed_def by (metis empty_iff insert_iff option.distinct(1))
  ultimately show ?thesis using r p q(1) unfolding reg_clear_sealed_def by fastforce
qed

lemma mark_reg_clear:
  assumes d: "dom_ok ok d" and r: "reg_clear_sealed (p2m_fns env) d"
    and m: "mark_reg_clear_page env d gfn t = Some (ret, e)"
  shows "reg_clear_sealed (p2m_fns env) e"
proof -
  obtain p where p: "hostp2m d = Some p" and inv: "page_inv (xom_reg_clear_pages d)"
    using d by (auto simp: dom_ok_def)
  from mark_reg_clear_page_spec[OF inv p, of env gfn t] m mark_quiet[OF d m] p r show ?thesis
    by (auto simp: reg_clear_sealed_def split: if_splits)
qed

lemma xom_op_reg_clear:
  assumes d: "dom_ok ok d" and r: "reg_clear_sealed (p2m_fns env) d" and op: "xom_op env d op = Some (rc, e)"
  shows "reg_clear_sealed (p2m_fns env) e"
proof -
  obtain p where p: "hostp2m d = Some p" and inv: "page_inv (xom_subpages d)"
    using d by (auto simp: dom_ok_def)
  have "reg_clear_sealed (p2m_fns env) e" if "write_into_subpage env d g s = Some (rc, e)" for g s
  proof -
    have "hostp2m e = hostp2m d \<and> xom_reg_clear_pages e = xom_reg_clear_pages d"
      using write_into_subpage_spec[OF inv p, of env g s] that by (auto split: if_splits)
    with r show ?thesis unfolding reg_clear_sealed_def by metis
  qed
  with op r set_quiet[OF d] create_quiet[OF d] quiet_reg_clear[OF _ _ r] clear_reg_clear[OF d r]
    mark_reg_clear[OF d r]
  show ?thesis by (auto simp: xom_op_def split: if_splits)
qed

end

end
