(* ===== verification/Ept.thy ===== *)
theory Ept
  imports P2m
begin

text \<open>
  The Intel extended page tables of \<^verbatim>\<open>xen/xen/arch/x86/mm/p2m-ept.c\<close>: the implementation behind the
  \<^verbatim>\<open>get_entry\<close>/\<^verbatim>\<open>set_entry\<close> function pointers of a p2m.

  A page table is a function from the 512 indices to nodes. A node is an entry, together with the
  table it points to when it is a directory entry; following \<^verbatim>\<open>entry->mfn\<close> is taking that table. The
  pages that page tables are allocated from form a list of frame numbers. Address width is 48 bits
  (\<^verbatim>\<open>ept->wl = 3\<close>), levels count down to 0 for 4K pages.
\<close>

subsection \<open>Entries and environment\<close>

record ept_entry_t =
  e_r :: bool
  e_w :: bool
  e_x :: bool
  e_emt :: nat
  e_ipat :: bool
  e_sp :: bool
  e_a :: bool
  e_d :: bool
  e_recalc :: bool
  e_snp :: bool
  e_mfn :: u64
  e_p2mt :: p2m_type_t
  e_access :: p2m_access_t
  e_sve :: bool

datatype ept_node = Ent ept_entry_t | Tab ept_entry_t "nat \<Rightarrow> ept_node"

type_synonym ept_table = "nat \<Rightarrow> ept_node"
type_synonym ptp_pool = "u64 list"

record ept_data =
  ept_root :: ept_table
  ept_pool :: ptp_pool

type_synonym ept_p2m = "ept_data p2m_domain"

abbreviation (input) EPT_TABLE_ORDER :: nat where "EPT_TABLE_ORDER \<equiv> 9"
abbreviation (input) EPT_PAGETABLE_ENTRIES :: nat where "EPT_PAGETABLE_ENTRIES \<equiv> 512"
abbreviation (input) EPT_WL :: nat where "EPT_WL \<equiv> 3"
abbreviation (input) MTRR_NUM_TYPES :: nat where "MTRR_NUM_TYPES \<equiv> 7"

text \<open>
  What the code asks of the rest of the hypervisor: \<^verbatim>\<open>mfn_valid\<close>, \<^verbatim>\<open>epte_get_entry_emt\<close> (memory type,
  negative when a superpage must be split, and the ignore-PAT flag), CPU and domain features, the
  read-only MMIO ranges, the log-dirty ranges, references on foreign pages, and the return codes of
  the IOMMU update and of the propagation to alternate views at the end of \<^verbatim>\<open>ept_set_entry\<close>.
\<close>

record ept_env =
  ev_mfn_valid :: "u64 \<Rightarrow> bool"
  ev_emt :: "u64 \<Rightarrow> u64 \<Rightarrow> nat \<Rightarrow> p2m_type_t \<Rightarrow> int \<times> bool"
  ev_ept_ad :: bool
  ev_exec_sp :: bool
  ev_pml :: bool
  ev_ioreq_wp :: bool
  ev_ioreq_server :: bool
  ev_snp :: bool
  ev_mmio_ro :: "u64 \<Rightarrow> bool"
  ev_logdirty :: "u64 \<Rightarrow> u64 \<Rightarrow> int"
  ev_get_owner :: "u64 \<Rightarrow> bool"
  ev_iommu :: "u64 \<Rightarrow> u64 \<Rightarrow> nat \<Rightarrow> int"
  ev_altp2m :: "u64 \<Rightarrow> u64 \<Rightarrow> nat \<Rightarrow> p2m_type_t \<Rightarrow> p2m_access_t \<Rightarrow> int"

text \<open>\<^verbatim>\<open>(ept_entry_t) { .epte = 0 }\<close>: type 0 is \<^const>\<open>p2m_ram_rw\<close>, access 0 is \<^const>\<open>p2m_access_n\<close>.\<close>

definition epte_zero :: ept_entry_t where
  "epte_zero = \<lparr>e_r = False, e_w = False, e_x = False, e_emt = 0, e_ipat = False, e_sp = False,
     e_a = False, e_d = False, e_recalc = False, e_snp = False, e_mfn = 0, e_p2mt = p2m_ram_rw,
     e_access = p2m_access_n, e_sve = False\<rparr>"

definition is_epte_present :: "ept_entry_t \<Rightarrow> bool" where
  "is_epte_present e \<longleftrightarrow> e_r e \<or> e_w e \<or> e_x e"

definition is_epte_superpage :: "ept_entry_t \<Rightarrow> bool" where
  "is_epte_superpage e = e_sp e"

definition is_epte_valid :: "ept_entry_t \<Rightarrow> bool" where
  "is_epte_valid e \<longleftrightarrow> e\<lparr>e_sve := False\<rparr> \<noteq> epte_zero \<and> e_p2mt e \<noteq> p2m_invalid"

fun node_entry :: "ept_node \<Rightarrow> ept_entry_t" where
  "node_entry (Ent e) = e"
| "node_entry (Tab e t) = e"

text \<open>The 40-bit frame field.\<close>

definition mfn_field :: "u64 \<Rightarrow> u64" where
  "mfn_field mfn = take_bit 40 mfn"

text \<open>
  \<^verbatim>\<open>p2m_entry_modify\<close>: only leaf writes of a different type or frame take or drop references; the
  counter of ioreq-server entries is not part of the state.
\<close>

definition p2m_entry_modify ::
  "ept_env \<Rightarrow> p2m_type_t \<Rightarrow> p2m_type_t \<Rightarrow> u64 \<Rightarrow> u64 \<Rightarrow> nat \<Rightarrow> int" where
  "p2m_entry_modify env nt ot nfn ofn level =
     (if level \<noteq> 1 \<or> (nt = ot \<and> nfn = ofn) then 0
      else if nt = p2m_map_foreign \<and> \<not> ev_mfn_valid env nfn then - EINVAL
      else if nt = p2m_map_foreign \<and> \<not> ev_get_owner env nfn then - 16
      else if ot = p2m_map_foreign \<and> \<not> ev_mfn_valid env ofn then - EINVAL
      else 0)"

definition atomic_write_ept_entry ::
  "ept_env \<Rightarrow> ept_entry_t \<Rightarrow> ept_entry_t \<Rightarrow> nat \<Rightarrow> int \<times> ept_entry_t" where
  "atomic_write_ept_entry env old new level =
     (let rc = p2m_entry_modify env (e_p2mt new) (e_p2mt old) (e_mfn new) (e_mfn old) (level + 1)
      in (rc, if rc \<noteq> 0 then old else new))"

subsection \<open>Permissions\<close>

text \<open>\<^verbatim>\<open>ept_p2m_type_to_flags\<close>: first the permissions of the type, then the restriction by access.\<close>

definition ept_type_perms :: "ept_env \<Rightarrow> ept_entry_t \<Rightarrow> ept_entry_t" where
  "ept_type_perms env e =
     (let ad = ev_ept_ad env
      in case e_p2mt e of
        p2m_ram_rw \<Rightarrow> e\<lparr>e_r := True, e_w := True, e_x := True, e_a := ad, e_d := ad\<rparr>
      | p2m_ioreq_server \<Rightarrow>
          e\<lparr>e_r := True, e_w := \<not> ev_ioreq_wp env, e_x := False, e_a := ad, e_d := \<not> ev_ioreq_wp env \<and> ad\<rparr>
      | p2m_mmio_direct \<Rightarrow>
          e\<lparr>e_r := True, e_x := True, e_w := \<not> ev_mmio_ro env (e_mfn e), e_a := ad,
            e_d := \<not> ev_mmio_ro env (e_mfn e) \<and> ad\<rparr>
      | p2m_ram_logdirty \<Rightarrow>
          e\<lparr>e_r := True, e_x := True, e_w := ev_pml env \<and> \<not> is_epte_superpage e, e_a := ad, e_d := False\<rparr>
      | p2m_ram_ro \<Rightarrow> e\<lparr>e_r := True, e_x := True, e_w := False, e_a := ad, e_d := False\<rparr>
      | p2m_ram_shared \<Rightarrow> e\<lparr>e_r := True, e_x := True, e_w := False, e_a := ad, e_d := False\<rparr>
      | p2m_grant_map_rw \<Rightarrow> e\<lparr>e_r := True, e_w := True, e_x := False, e_a := ad, e_d := ad\<rparr>
      | p2m_map_foreign \<Rightarrow> e\<lparr>e_r := True, e_w := True, e_x := False, e_a := ad, e_d := ad\<rparr>
      | p2m_grant_map_ro \<Rightarrow> e\<lparr>e_r := True, e_w := False, e_x := False, e_a := ad, e_d := False\<rparr>
      | _ \<Rightarrow> e\<lparr>e_r := False, e_w := False, e_x := False\<rparr>)"

definition ept_access_perms :: "ept_entry_t \<Rightarrow> ept_entry_t" where
  "ept_access_perms e =
     (case e_access e of
        p2m_access_n \<Rightarrow> e\<lparr>e_r := False, e_w := False, e_x := False\<rparr>
      | p2m_access_n2rwx \<Rightarrow> e\<lparr>e_r := False, e_w := False, e_x := False\<rparr>
      | p2m_access_r \<Rightarrow> e\<lparr>e_w := False, e_x := False\<rparr>
      | p2m_access_w \<Rightarrow> e\<lparr>e_r := False, e_x := False\<rparr>
      | p2m_access_x \<Rightarrow> e\<lparr>e_r := False, e_w := False\<rparr>
      | p2m_access_rx \<Rightarrow> e\<lparr>e_w := False\<rparr>
      | p2m_access_rx2rw \<Rightarrow> e\<lparr>e_w := False\<rparr>
      | p2m_access_wx \<Rightarrow> e\<lparr>e_r := False\<rparr>
      | p2m_access_rw \<Rightarrow> e\<lparr>e_x := False\<rparr>
      | p2m_access_rwx \<Rightarrow> e)"

definition ept_p2m_type_to_flags :: "ept_env \<Rightarrow> ept_entry_t \<Rightarrow> ept_entry_t" where
  "ept_p2m_type_to_flags env e =
     (let e = ept_access_perms (ept_type_perms env e)
      in if \<not> ev_exec_sp env \<and> is_epte_superpage e then e\<lparr>e_x := False\<rparr> else e)"

subsection \<open>Page-table pages\<close>

text \<open>
  \<^verbatim>\<open>ept_set_middle_entry\<close>: the new directory entry, its table of empty entries, and the pool
  without the page taken from it.
\<close>

definition ept_empty_table :: ept_table where
  "ept_empty_table = (\<lambda>i. Ent (epte_zero\<lparr>e_sve := True\<rparr>))"

fun ept_set_middle_entry ::
  "ept_env \<Rightarrow> p2m_access_t \<Rightarrow> ptp_pool \<Rightarrow> (ept_entry_t \<times> ept_table \<times> ptp_pool) option" where
  "ept_set_middle_entry env dflt [] = None"
| "ept_set_middle_entry env dflt (mfn # pool) =
     Some (epte_zero\<lparr>e_mfn := mfn_field mfn, e_access := dflt, e_r := True, e_w := True, e_x := True,
             e_a := ev_ept_ad env, e_sve := True\<rparr>, ept_empty_table, pool)"

text \<open>\<^verbatim>\<open>ept_free_entry\<close>: the pages of the tables below an entry go back to the pool.\<close>

primrec ept_freed :: "ept_node \<Rightarrow> ptp_pool" where
  "ept_freed (Ent e) = []"
| "ept_freed (Tab e t) = concat (map (\<lambda>i. ept_freed (t i)) [0..<EPT_PAGETABLE_ENTRIES]) @ [e_mfn e]"

definition ept_free_entry :: "ept_node \<Rightarrow> ptp_pool \<Rightarrow> ptp_pool" where
  "ept_free_entry node pool = ept_freed node @ pool"

subsection \<open>Splitting a superpage\<close>

text \<open>Entry \<open>i\<close> of the table that replaces a superpage of level \<open>Suc l\<close>.\<close>

definition split_entry :: "ept_env \<Rightarrow> ept_entry_t \<Rightarrow> nat \<Rightarrow> nat \<Rightarrow> ept_entry_t" where
  "split_entry env e l i =
     ept_p2m_type_to_flags env
       (e\<lparr>e_sp := (l > 0), e_mfn := mfn_field (e_mfn e + of_nat i * push_bit (l * EPT_TABLE_ORDER) 1),
          e_snp := ev_snp env\<rparr>)"

text \<open>The loop over the entries of the new table, stopping when a nested split fails.\<close>

fun split_loop ::
  "(ept_entry_t \<Rightarrow> ptp_pool \<Rightarrow> bool \<times> ept_node \<times> ptp_pool) \<Rightarrow> (nat \<Rightarrow> ept_entry_t) \<Rightarrow> nat list
    \<Rightarrow> ept_table \<Rightarrow> ptp_pool \<Rightarrow> bool \<times> ept_table \<times> ptp_pool" where
  "split_loop split ent [] tbl pool = (True, tbl, pool)"
| "split_loop split ent (i # is) tbl pool =
     (let (rv, node, pool) = split (ent i) pool
      in if rv then split_loop split ent is (tbl(i := node)) pool
         else (False, tbl(i := node), pool))"

primrec ept_split_super_page ::
  "ept_env \<Rightarrow> p2m_access_t \<Rightarrow> nat \<Rightarrow> nat \<Rightarrow> ept_entry_t \<Rightarrow> ptp_pool \<Rightarrow> bool \<times> ept_node \<times> ptp_pool" where
  "ept_split_super_page env dflt 0 target e pool = (True, Ent e, pool)"
| "ept_split_super_page env dflt (Suc l) target e pool =
     (if Suc l \<le> target then (True, Ent e, pool)
      else case ept_set_middle_entry env dflt pool of
        None \<Rightarrow> (False, Ent e, pool)
      | Some (new_ept, tbl, pool) \<Rightarrow>
          if l = target
          then (True, Tab new_ept (\<lambda>i. if i < EPT_PAGETABLE_ENTRIES then Ent (split_entry env e l i) else tbl i), pool)
          else let (rv, tbl, pool) = split_loop (ept_split_super_page env dflt l target)
                     (split_entry env e l) [0..<EPT_PAGETABLE_ENTRIES] tbl pool
               in (rv, Tab new_ept tbl, pool))"

subsection \<open>Deferred changes\<close>

text \<open>\<^verbatim>\<open>p2m_recalc_type\<close> for one frame number.\<close>

definition p2m_recalc_type :: "ept_env \<Rightarrow> bool \<Rightarrow> p2m_type_t \<Rightarrow> u64 \<Rightarrow> p2m_type_t" where
  "p2m_recalc_type env recalc t gfn =
     (if \<not> recalc \<or> \<not> p2m_is_changeable t then t
      else if t = p2m_ioreq_server \<and> ev_ioreq_server env then t
      else if ev_logdirty env gfn gfn \<noteq> 0 then p2m_ram_logdirty else p2m_ram_rw)"

text \<open>One entry of \<^verbatim>\<open>ept_invalidate_emt_subtree\<close>; \<open>level\<close> is that of the table.\<close>

definition invalidate_entry :: "ept_env \<Rightarrow> bool \<Rightarrow> nat \<Rightarrow> ept_entry_t \<Rightarrow> ept_entry_t" where
  "invalidate_entry env recalc level e =
     (if \<not> is_epte_valid e \<or> \<not> is_epte_present e \<or> (e_emt e = MTRR_NUM_TYPES \<and> (e_recalc e \<or> \<not> recalc))
      then e
      else snd (atomic_write_ept_entry env e
                  (e\<lparr>e_emt := MTRR_NUM_TYPES, e_recalc := e_recalc e \<or> recalc\<rparr>) level))"

fun map_entry :: "(ept_entry_t \<Rightarrow> ept_entry_t) \<Rightarrow> ept_node \<Rightarrow> ept_node" where
  "map_entry f (Ent e) = Ent (f e)"
| "map_entry f (Tab e t) = Tab (f e) t"

definition ept_invalidate_emt_subtree :: "ept_env \<Rightarrow> ept_table \<Rightarrow> bool \<Rightarrow> nat \<Rightarrow> ept_table" where
  "ept_invalidate_emt_subtree env tbl recalc level =
     (\<lambda>i. if i < EPT_PAGETABLE_ENTRIES then map_entry (invalidate_entry env recalc level) (tbl i) else tbl i)"

text \<open>The body of the level-0 loop of \<^verbatim>\<open>resolve_misconfig\<close> for the entry of \<open>gfn\<close>.\<close>

definition resolve_leaf :: "ept_env \<Rightarrow> u64 \<Rightarrow> ept_entry_t \<Rightarrow> ept_entry_t" where
  "resolve_leaf env gfn old =
     (let e = (if e_emt old = MTRR_NUM_TYPES then old\<lparr>e_emt := 0\<rparr> else old)
      in if \<not> is_epte_valid e \<or> \<not> is_epte_present e then old
         else let (emt, ipat) = ev_emt env gfn (e_mfn e) 0 (e_p2mt e);
                  e = e\<lparr>e_emt := nat (emt mod 8), e_ipat := ipat\<rparr>;
                  nt = p2m_recalc_type env (e_recalc e) (e_p2mt e) gfn;
                  e = (if nt \<noteq> e_p2mt e then ept_p2m_type_to_flags env (e\<lparr>e_p2mt := nt\<rparr>) else e);
                  e = e\<lparr>e_recalc := False\<rparr>
              in snd (atomic_write_ept_entry env old e 0))"

text \<open>
  The superpage case: \<open>Inl e\<close> is the entry to write back, \<open>Inr e\<close> says that \<open>e\<close> must be split.
\<close>

definition resolve_superpage :: "ept_env \<Rightarrow> nat \<Rightarrow> u64 \<Rightarrow> ept_entry_t \<Rightarrow> ept_entry_t + ept_entry_t" where
  "resolve_superpage env level gfn e =
     (let (emt, ipat) = ev_emt env gfn (e_mfn e) (level * EPT_TABLE_ORDER) (e_p2mt e);
          recalc = e_recalc e;
          low = push_bit (level * EPT_TABLE_ORDER) 1 - 1;
          ld = ev_logdirty env (gfn AND NOT low) (gfn OR low);
          (emt, e) = (if recalc \<and> p2m_is_changeable (e_p2mt e)
                      then if ld = 0 then (emt, e\<lparr>e_p2mt := p2m_ram_rw, e_recalc := False\<rparr>)
                           else if ld = 1 then (emt, e\<lparr>e_p2mt := p2m_ram_logdirty, e_recalc := False\<rparr>)
                           else (- 1, e)
                      else (emt, e))
      in if emt < 0 then Inr e
         else let e = e\<lparr>e_emt := nat (emt mod 8), e_ipat := ipat, e_recalc := False\<rparr>
              in Inl (if recalc \<and> p2m_is_changeable (e_p2mt e) then ept_p2m_type_to_flags env e else e))"

definition ept_index :: "nat \<Rightarrow> u64 \<Rightarrow> nat" where
  "ept_index level gfn = unat (take_bit EPT_TABLE_ORDER (drop_bit (level * EPT_TABLE_ORDER) gfn))"

fun node_table :: "ept_node \<Rightarrow> ept_table option" where
  "node_table (Ent e) = None"
| "node_table (Tab e t) = Some t"

text \<open>
  The level loop of \<^verbatim>\<open>resolve_misconfig\<close> from a table downwards. An entry without the superpage flag
  that is not a directory ends the walk.
\<close>

primrec resolve_table ::
  "ept_env \<Rightarrow> p2m_access_t \<Rightarrow> nat \<Rightarrow> ept_table \<Rightarrow> u64 \<Rightarrow> int \<Rightarrow> ptp_pool \<Rightarrow> int \<times> ept_table \<times> ptp_pool" where
  "resolve_table env dflt 0 tbl gfn rc pool =
     (if e_emt (node_entry (tbl (ept_index 0 gfn))) \<noteq> MTRR_NUM_TYPES then (rc, tbl, pool)
      else (1, \<lambda>j. if j < EPT_PAGETABLE_ENTRIES
                   then map_entry (resolve_leaf env (gfn - of_nat (ept_index 0 gfn) + of_nat j)) (tbl j)
                   else tbl j, pool))"
| "resolve_table env dflt (Suc l) tbl gfn rc pool =
     (let i = ept_index (Suc l) gfn;
          e = node_entry (tbl i);
          descend = (\<lambda>e t rc pool.
            let (rc, t, pool) = resolve_table env dflt l t gfn rc pool in (rc, tbl(i := Tab e t), pool))
      in if is_epte_superpage e
         then if e_emt e \<noteq> MTRR_NUM_TYPES then (rc, tbl, pool)
              else case resolve_superpage env (Suc l) gfn e of
                Inl e' \<Rightarrow> (1, tbl(i := Ent (snd (atomic_write_ept_entry env e e' (Suc l)))), pool)
              | Inr e' \<Rightarrow>
                  (case ept_split_super_page env dflt (Suc l) l e' pool of
                     (True, Tab ne t, pool) \<Rightarrow> descend ne t rc pool
                   | (_, node, pool) \<Rightarrow> (- ENOMEM, tbl, ept_free_entry node pool))
         else case tbl i of
           Ent e \<Rightarrow> (rc, tbl, pool)
         | Tab e t \<Rightarrow>
             if e_emt e = MTRR_NUM_TYPES
             then descend (snd (atomic_write_ept_entry env e (e\<lparr>e_emt := 0, e_recalc := False\<rparr>) (Suc l)))
                    (ept_invalidate_emt_subtree env t (e_recalc e) l) 1 pool
             else if is_epte_present e \<and> e_emt e = 0 then descend e t rc pool
             else (rc, tbl, pool))"

definition resolve_misconfig :: "ept_env \<Rightarrow> ept_p2m \<Rightarrow> u64 \<Rightarrow> int \<times> ept_p2m" where
  "resolve_misconfig env p2m gfn =
     (let (rc, tbl, pool) = resolve_table env (default_access p2m) EPT_WL (ept_root (table p2m)) gfn 0
                              (ept_pool (table p2m))
      in (rc, p2m\<lparr>table := \<lparr>ept_root = tbl, ept_pool = pool\<rparr>\<rparr>))"

subsection \<open>Reading an entry\<close>

text \<open>
  The walk of \<^verbatim>\<open>ept_get_entry\<close> (with \<^verbatim>\<open>ept_next_level\<close> in read-only mode): \<open>Inl\<close> a missing table or a
  populate-on-demand region with the type to report, \<open>Inr\<close> the entry the walk ends at, its level, the
  remaining offset and whether a level asked for a type recalculation.
\<close>

primrec ept_walk_ro ::
  "nat \<Rightarrow> ept_table \<Rightarrow> u64 \<Rightarrow> bool \<Rightarrow> (p2m_type_t \<times> nat) + (ept_entry_t \<times> nat \<times> u64 \<times> bool)" where
  "ept_walk_ro 0 tbl rem recalc = Inr (node_entry (tbl (unat rem)), 0, rem, recalc)"
| "ept_walk_ro (Suc l) tbl rem recalc =
     (let node = tbl (unat (drop_bit (Suc l * EPT_TABLE_ORDER) rem));
          e = node_entry node;
          recalc = (recalc \<or> e_recalc e)
      in if \<not> is_epte_present e
         then Inl (if p2m_is_pod (e_p2mt e) then p2m_populate_on_demand else p2m_mmio_dm, Suc l)
         else if is_epte_superpage e then Inr (e, Suc l, rem, recalc)
         else case node_table node of
           Some t \<Rightarrow> ept_walk_ro l t (take_bit (Suc l * EPT_TABLE_ORDER) rem) recalc
         | None \<Rightarrow> Inl (p2m_mmio_dm, Suc l))"

text \<open>The order reported for a frame number above \<^verbatim>\<open>max_mapped_pfn\<close>.\<close>

fun ept_order_above :: "nat \<Rightarrow> u64 \<Rightarrow> u64 \<Rightarrow> nat" where
  "ept_order_above 0 gfn mx = 0"
| "ept_order_above (Suc l) gfn mx =
     (if gfn AND NOT (push_bit (Suc l * EPT_TABLE_ORDER) 1 - 1) > mx then Suc l
      else ept_order_above l gfn mx)"

definition ept_get_entry ::
  "ept_env \<Rightarrow> ept_p2m \<Rightarrow> u64 \<Rightarrow> u64 \<times> p2m_type_t \<times> p2m_access_t \<times> nat" where
  "ept_get_entry env p2m gfn =
     (if gfn > max_mapped_pfn p2m
      then (INVALID_MFN, p2m_mmio_dm, p2m_access_n,
            ept_order_above EPT_WL gfn (max_mapped_pfn p2m) * EPT_TABLE_ORDER)
      else case ept_walk_ro EPT_WL (ept_root (table p2m)) gfn False of
        Inl (t, i) \<Rightarrow> (INVALID_MFN, t, p2m_access_n, i * EPT_TABLE_ORDER)
      | Inr (e, i, rem, recalc) \<Rightarrow>
          if p2m_is_pod (e_p2mt e)
          then (INVALID_MFN, p2m_populate_on_demand, p2m_access_n, i * EPT_TABLE_ORDER)
          else if is_epte_valid e
          then (e_mfn e + take_bit (i * EPT_TABLE_ORDER) rem,
                p2m_recalc_type env (recalc \<or> e_recalc e) (e_p2mt e) gfn, e_access e, i * EPT_TABLE_ORDER)
          else (INVALID_MFN, p2m_mmio_dm, p2m_access_n, i * EPT_TABLE_ORDER))"

subsection \<open>Writing an entry\<close>

text \<open>
  The walk of \<^verbatim>\<open>ept_set_entry\<close> to its target level, creating missing tables and splitting a superpage
  on the way; \<open>upd split old\<close> computes the return code and the node at the target, \<open>split\<close> telling
  whether a superpage was split. The result has the return code, the table, the pool, and the
  arguments of \<open>upd\<close> if the walk got to the target. (The last branch, a present entry that is neither
  superpage nor directory, does not occur in a table.)
\<close>

primrec ept_walk_rw ::
  "ept_env \<Rightarrow> p2m_access_t \<Rightarrow> nat \<Rightarrow> (bool \<Rightarrow> ept_node \<Rightarrow> int \<times> ept_node) \<Rightarrow> nat \<Rightarrow> bool \<Rightarrow> ept_table \<Rightarrow> u64
    \<Rightarrow> ptp_pool \<Rightarrow> int \<times> ept_table \<times> ptp_pool \<times> (bool \<times> ept_node) option" where
  "ept_walk_rw env dflt target upd 0 split tbl rem pool =
     (let i = unat rem; (rc, node) = upd split (tbl i)
      in (rc, tbl(i := node), pool, Some (split, tbl i)))"
| "ept_walk_rw env dflt target upd (Suc l) split tbl rem pool =
     (let i = unat (drop_bit (Suc l * EPT_TABLE_ORDER) rem);
          e = node_entry (tbl i);
          descend = (\<lambda>split e t pool.
            let (rc, t, pool, old) =
              ept_walk_rw env dflt target upd l split t (take_bit (Suc l * EPT_TABLE_ORDER) rem) pool
            in (rc, tbl(i := Tab e t), pool, old))
      in if Suc l \<le> target
         then let (rc, node) = upd split (tbl i)
              in (rc, tbl(i := node), pool, Some (split, tbl i))
         else if \<not> is_epte_present e \<and> \<not> p2m_is_pod (e_p2mt e)
         then case ept_set_middle_entry env dflt pool of
             None \<Rightarrow> (- ENOMEM, tbl, pool, None)
           | Some (ne, t, pool) \<Rightarrow> descend split (snd (atomic_write_ept_entry env e ne (Suc l))) t pool
         else if \<not> is_epte_present e \<or> is_epte_superpage e
         then case ept_split_super_page env dflt (Suc l) target e pool of
             (True, Tab ne t, pool) \<Rightarrow> descend True (snd (atomic_write_ept_entry env e ne (Suc l))) t pool
           | (_, node, pool) \<Rightarrow> (- ENOMEM, tbl, ept_free_entry node pool, None)
         else case node_table (tbl i) of
           Some t \<Rightarrow> descend split e t pool
         | None \<Rightarrow> (- ENOMEM, tbl, pool, None))"

text \<open>\<^verbatim>\<open>p2m_access_to_iommu_flags\<close> and \<^verbatim>\<open>p2m_get_iommu_flags\<close>: readable is 1, writable is 2.\<close>

definition p2m_access_to_iommu_flags :: "p2m_access_t \<Rightarrow> nat" where
  "p2m_access_to_iommu_flags a =
     (case a of
        p2m_access_rw \<Rightarrow> 3 | p2m_access_rwx \<Rightarrow> 3
      | p2m_access_r \<Rightarrow> 1 | p2m_access_rx \<Rightarrow> 1 | p2m_access_rx2rw \<Rightarrow> 1
      | p2m_access_w \<Rightarrow> 2 | p2m_access_wx \<Rightarrow> 2
      | _ \<Rightarrow> 0)"

definition p2m_get_iommu_flags :: "ept_env \<Rightarrow> p2m_type_t \<Rightarrow> p2m_access_t \<Rightarrow> u64 \<Rightarrow> nat" where
  "p2m_get_iommu_flags env t a mfn =
     (if t \<in> {p2m_ram_rw, p2m_grant_map_rw, p2m_ram_logdirty, p2m_map_foreign} then 3
      else if t \<in> {p2m_ram_ro, p2m_grant_map_ro} then 1
      else if t = p2m_mmio_direct
      then let flags = p2m_access_to_iommu_flags a
           in if flags \<ge> 2 \<and> ev_mmio_ro env mfn then flags - 2 else flags
      else 0)"

text \<open>The new entry of \<^verbatim>\<open>ept_set_entry\<close> at level \<open>i\<close>, given the one to inherit the suppress-VE bit from.\<close>

definition ept_new_entry ::
  "ept_env \<Rightarrow> nat \<Rightarrow> u64 \<Rightarrow> u64 \<Rightarrow> p2m_type_t \<Rightarrow> p2m_access_t \<Rightarrow> int \<Rightarrow> ept_entry_t \<Rightarrow> ept_entry_t" where
  "ept_new_entry env i gfn mfn p2mt p2ma sve old_entry =
     (let (emt, ipat) = ev_emt env gfn mfn (i * EPT_TABLE_ORDER) p2mt;
          e = (if ev_mfn_valid env mfn \<or> p2m_allows_invalid_mfn p2mt
               then ept_p2m_type_to_flags env
                 (epte_zero\<lparr>e_emt := (if emt \<ge> 0 then nat (emt mod 8) else MTRR_NUM_TYPES), e_ipat := ipat,
                    e_sp := (i > 0), e_p2mt := p2mt, e_access := p2ma, e_snp := ev_snp env,
                    e_mfn := mfn_field mfn\<rparr>)
               else epte_zero)
      in e\<lparr>e_sve := (if sve \<noteq> - 1 then sve \<noteq> 0
                      else if is_epte_valid old_entry then e_sve old_entry else True)\<rparr>)"

text \<open>The write at the target level; \<^verbatim>\<open>old_entry\<close> is zero when a superpage was split.\<close>

definition ept_update ::
  "ept_env \<Rightarrow> nat \<Rightarrow> u64 \<Rightarrow> u64 \<Rightarrow> p2m_type_t \<Rightarrow> p2m_access_t \<Rightarrow> int \<Rightarrow> bool \<Rightarrow> ept_node \<Rightarrow> int \<times> ept_node" where
  "ept_update env target gfn mfn p2mt p2ma sve split node =
     (let old = node_entry node;
          new = ept_new_entry env target gfn mfn p2mt p2ma sve (if split then epte_zero else old);
          (rc, e) = atomic_write_ept_entry env old new target
      in (rc, if rc \<noteq> 0 then node else Ent e))"

definition need_modify_vtd_table ::
  "ept_env \<Rightarrow> u64 \<Rightarrow> p2m_type_t \<Rightarrow> p2m_access_t \<Rightarrow> (bool \<times> ept_node) option \<Rightarrow> bool" where
  "need_modify_vtd_table env mfn p2mt p2ma reached =
     (case reached of
        None \<Rightarrow> True
      | Some (split, node) \<Rightarrow>
          \<not> ((ev_mfn_valid env mfn \<or> p2m_allows_invalid_mfn p2mt)
             \<and> e_mfn (node_entry node) = mfn_field mfn
             \<and> p2m_get_iommu_flags env (e_p2mt (node_entry node)) (e_access (node_entry node))
                 (e_mfn (node_entry node)) = p2m_get_iommu_flags env p2mt p2ma mfn))"

definition ept_set_entry ::
  "ept_env \<Rightarrow> ept_p2m \<Rightarrow> u64 \<Rightarrow> u64 \<Rightarrow> nat \<Rightarrow> p2m_type_t \<Rightarrow> p2m_access_t \<Rightarrow> int \<Rightarrow> int \<times> ept_p2m" where
  "ept_set_entry env p2m gfn mfn order p2mt p2ma sve =
     (let target = order div EPT_TABLE_ORDER;
          fn_mask = (if mfn \<noteq> INVALID_MFN then gfn OR mfn else gfn)
      in if fn_mask AND (push_bit order 1 - 1) \<noteq> 0 \<or> drop_bit ((EPT_WL + 1) * EPT_TABLE_ORDER) gfn \<noteq> 0
            \<or> order mod EPT_TABLE_ORDER \<noteq> 0
         then (- EINVAL, p2m)
         else let (ret, p2m) = resolve_misconfig env p2m gfn
         in if ret < 0 then (ret, p2m)
         else let (rc, tbl, pool, reached) =
                    ept_walk_rw env (default_access p2m) target (ept_update env target gfn mfn p2mt p2ma sve)
                      EPT_WL False (ept_root (table p2m)) gfn (ept_pool (table p2m));
                  written = (rc = 0);
                  last = gfn + push_bit order 1 - 1;
                  max' = (if written \<and> p2mt \<noteq> p2m_invalid \<and> last > max_mapped_pfn p2m
                          then last else max_mapped_pfn p2m);
                  rc = (if written \<and> need_modify_vtd_table env mfn p2mt p2ma reached
                        then ev_iommu env gfn mfn order else rc);
                  pool = (case reached of
                            Some (False, node) \<Rightarrow> if written then ept_free_entry node pool else pool
                          | _ \<Rightarrow> pool);
                  ret = (if written then ev_altp2m env gfn mfn order p2mt p2ma else 0)
              in (if rc = 0 then ret else rc,
                  p2m\<lparr>table := \<lparr>ept_root = tbl, ept_pool = pool\<rparr>, max_mapped_pfn := max'\<rparr>))"

definition ept_ops :: "ept_env \<Rightarrow> ept_data p2m_ops" where
  "ept_ops env = \<lparr>get_entry = ept_get_entry env, set_entry = ept_set_entry env\<rparr>"

end
