(* ===== verification/Ept_Proofs.thy ===== *)
theory Ept_Proofs
  imports Ept
begin

text \<open>
  Correctness of the EPT implementation: what a table translates a frame number to, that splitting a
  superpage, resolving deferred changes and creating tables keep every translation, that a 4K update
  changes exactly its own frame number, and the interpretation of the p2m contract on it.
\<close>

subsection \<open>The translation of a table\<close>

definition leaf_view :: "nat \<Rightarrow> ept_entry_t \<Rightarrow> u64 \<Rightarrow> u64 \<times> p2m_access_t" where
  "leaf_view i e rem =
     (if p2m_is_pod (e_p2mt e) \<or> \<not> is_epte_valid e then (INVALID_MFN, p2m_access_n)
      else (if p2m_is_broken (e_p2mt e) then INVALID_MFN else e_mfn e + take_bit (i * EPT_TABLE_ORDER) rem,
            e_access e))"

primrec tbl_view :: "nat \<Rightarrow> ept_table \<Rightarrow> u64 \<Rightarrow> u64 \<times> p2m_access_t" where
  "tbl_view 0 tbl rem = leaf_view 0 (node_entry (tbl (unat rem))) rem"
| "tbl_view (Suc l) tbl rem =
     (let node = tbl (unat (drop_bit (Suc l * EPT_TABLE_ORDER) rem));
          e = node_entry node
      in if \<not> is_epte_present e then (INVALID_MFN, p2m_access_n)
         else if is_epte_superpage e then leaf_view (Suc l) e rem
         else case node_table node of
           Some t \<Rightarrow> tbl_view l t (take_bit (Suc l * EPT_TABLE_ORDER) rem)
         | None \<Rightarrow> (INVALID_MFN, p2m_access_n))"

lemma walk_ro_view:
  "(case ept_walk_ro l tbl rem rc of
      Inl _ \<Rightarrow> (INVALID_MFN, p2m_access_n)
    | Inr (e, i, r, _) \<Rightarrow> leaf_view i e r) = tbl_view l tbl rem"
  by (induction l arbitrary: tbl rem rc) (auto simp: Let_def split: option.split)

lemma recalc_type_broken [simp]: "p2m_is_broken (p2m_recalc_type env b t g) = p2m_is_broken t"
  by (auto simp: p2m_recalc_type_def p2m_is_broken_def p2m_is_changeable_def)

lemma ept_view:
  "p2m_view (ept_ops env) p gfn =
   (if gfn > max_mapped_pfn p then (INVALID_MFN, p2m_access_n)
    else tbl_view EPT_WL (ept_root (table p)) gfn)"
proof (cases "ept_walk_ro EPT_WL (ept_root (table p)) gfn False")
  case (Inl a)
  with walk_ro_view[of EPT_WL "ept_root (table p)" gfn False] show ?thesis
    by (auto simp: p2m_view_def p2m_get_gfn_type_access_def ept_ops_def ept_get_entry_def split: prod.splits)
next
  case (Inr b)
  with walk_ro_view[of EPT_WL "ept_root (table p)" gfn False] show ?thesis
    by (auto simp: p2m_view_def p2m_get_gfn_type_access_def ept_ops_def ept_get_entry_def leaf_view_def
        split: prod.splits)
qed

subsection \<open>Well-formed tables\<close>

text \<open>Types whose pages are readable before the access restriction, and access rights that read.\<close>

definition readable_type :: "p2m_type_t \<Rightarrow> bool" where
  "readable_type t \<longleftrightarrow> t \<in> {p2m_ram_rw, p2m_ioreq_server, p2m_mmio_direct, p2m_ram_logdirty, p2m_ram_ro,
     p2m_ram_shared, p2m_grant_map_rw, p2m_map_foreign, p2m_grant_map_ro}"

definition readable_access :: "p2m_access_t \<Rightarrow> bool" where
  "readable_access a \<longleftrightarrow> a \<in> {p2m_access_r, p2m_access_rw, p2m_access_rx, p2m_access_rwx, p2m_access_rx2rw}"

text \<open>
  A 4K entry with execute-only access has no read and no write permission (\<open>x_only\<close>), has a frame that
  fits its field and is not populate-on-demand; a valid one has a frame or some access right. A superpage is readable and its frames fit. An upper entry that is not
  present is not a superpage.
\<close>

definition x_only :: "ept_entry_t \<Rightarrow> bool" where
  "x_only e \<longleftrightarrow> (e_access e = p2m_access_x \<longrightarrow> \<not> e_r e \<and> \<not> e_w e)"

definition ent_ok :: "ept_entry_t \<Rightarrow> bool" where
  "ent_ok e \<longleftrightarrow> x_only e \<and> unat (e_mfn e) < 2 ^ 40 \<and> \<not> p2m_is_pod (e_p2mt e)
     \<and> (is_epte_valid e \<longrightarrow> e_access e \<noteq> p2m_access_n \<or> e_mfn e \<noteq> 0)"

definition sup_ok :: "nat \<Rightarrow> ept_entry_t \<Rightarrow> bool" where
  "sup_ok l e \<longleftrightarrow> e_sp e \<and> is_epte_present e \<and> readable_type (e_p2mt e) \<and> readable_access (e_access e)
     \<and> unat (e_mfn e) + 2 ^ (l * EPT_TABLE_ORDER) \<le> 2 ^ 40"

primrec node_ok :: "nat \<Rightarrow> ept_node \<Rightarrow> bool" where
  "node_ok 0 node = (case node of Ent e \<Rightarrow> ent_ok e | Tab e t \<Rightarrow> False)"
| "node_ok (Suc l) node =
     (case node of
        Ent e \<Rightarrow> sup_ok (Suc l) e \<or> (\<not> is_epte_present e \<and> \<not> e_sp e \<and> \<not> p2m_is_pod (e_p2mt e))
      | Tab e t \<Rightarrow> is_epte_present e \<and> \<not> e_sp e \<and> (\<forall>i < EPT_PAGETABLE_ENTRIES. node_ok l (t i)))"

definition tbl_ok :: "nat \<Rightarrow> ept_table \<Rightarrow> bool" where
  "tbl_ok l t \<longleftrightarrow> (\<forall>i < EPT_PAGETABLE_ENTRIES. node_ok l (t i))"

lemma valid_if_access: "e_access e \<noteq> p2m_access_n \<Longrightarrow> e_p2mt e \<noteq> p2m_invalid \<Longrightarrow> is_epte_valid e"
  by (cases e) (auto simp: is_epte_valid_def epte_zero_def)

lemma valid_if_mfn: "e_mfn e \<noteq> 0 \<Longrightarrow> e_p2mt e \<noteq> p2m_invalid \<Longrightarrow> is_epte_valid e"
  by (cases e) (auto simp: is_epte_valid_def epte_zero_def)

lemma sup_ok_valid:
  "sup_ok l e \<Longrightarrow> is_epte_valid e \<and> \<not> p2m_is_pod (e_p2mt e) \<and> \<not> p2m_is_broken (e_p2mt e)"
  by (intro conjI valid_if_access)
    (auto simp: sup_ok_def readable_access_def readable_type_def p2m_is_pod_def p2m_is_broken_def)

text \<open>The fields that the recomputation of the permissions leaves alone.\<close>

lemma flags_fields [simp]:
  "e_mfn (ept_p2m_type_to_flags env e) = e_mfn e"
  "e_access (ept_p2m_type_to_flags env e) = e_access e"
  "e_p2mt (ept_p2m_type_to_flags env e) = e_p2mt e"
  "e_sp (ept_p2m_type_to_flags env e) = e_sp e"
  "e_emt (ept_p2m_type_to_flags env e) = e_emt e"
  "e_sve (ept_p2m_type_to_flags env e) = e_sve e"
  by (auto simp: ept_p2m_type_to_flags_def ept_access_perms_def ept_type_perms_def Let_def
      split: p2m_type_t.split p2m_access_t.split)

lemma x_only_update [simp]:
  "x_only (e\<lparr>e_x := b\<rparr>) = x_only e" "x_only (e\<lparr>e_recalc := b\<rparr>) = x_only e" "x_only (e\<lparr>e_sve := b\<rparr>) = x_only e"
  by (simp_all add: x_only_def)

lemma flags_x_only [simp]: "x_only (ept_p2m_type_to_flags env e)"
proof -
  have "x_only (ept_access_perms f)" for f
    by (cases "e_access f") (simp_all add: x_only_def ept_access_perms_def)
  then show ?thesis by (simp add: ept_p2m_type_to_flags_def Let_def)
qed

lemma flags_readable:
  "readable_type (e_p2mt e) \<Longrightarrow> readable_access (e_access e) \<Longrightarrow> is_epte_present (ept_p2m_type_to_flags env e)"
  by (auto simp: readable_type_def readable_access_def is_epte_present_def ept_p2m_type_to_flags_def
      ept_access_perms_def ept_type_perms_def Let_def)

lemma recalc_type_readable: "readable_type t \<Longrightarrow> readable_type (p2m_recalc_type env b t g)"
  by (auto simp: p2m_recalc_type_def readable_type_def)

lemma recalc_type_cases:
  "p2m_recalc_type env b t g = t \<or> p2m_recalc_type env b t g \<in> {p2m_ram_rw, p2m_ram_logdirty}"
  by (auto simp: p2m_recalc_type_def)

lemma atomic_write_upper [simp]: "atomic_write_ept_entry env old new (Suc l) = (0, new)"
  by (simp add: atomic_write_ept_entry_def p2m_entry_modify_def)

lemma empty_table_ok: "tbl_ok l ept_empty_table"
  by (cases l) (auto simp: tbl_ok_def x_only_def ept_empty_table_def ent_ok_def epte_zero_def is_epte_present_def
      p2m_is_pod_def is_epte_valid_def)

lemma empty_table_view: "tbl_view l ept_empty_table rem = (INVALID_MFN, p2m_access_n)"
  by (cases l) (auto simp: ept_empty_table_def leaf_view_def epte_zero_def is_epte_valid_def is_epte_present_def)

subsection \<open>Index arithmetic\<close>

lemma mfn_field_id: "unat m < 2 ^ 40 \<Longrightarrow> mfn_field m = m"
  by (simp add: mfn_field_def word_unat_eq_iff unat_take)

text \<open>The frame of entry \<open>i\<close> after a split, when all frames of the superpage fit the field.\<close>

lemma split_mfn:
  assumes "unat m + 2 ^ (Suc l * 9) \<le> 2 ^ 40" "i < 512" "l \<le> 3"
  shows "mfn_field (m + of_nat i * push_bit (l * 9) 1) = m + of_nat i * push_bit (l * 9) 1"
    and "unat (m + of_nat i * push_bit (l * 9) 1) + 2 ^ (l * 9) \<le> 2 ^ 40"
  using split_frame[of m l 40, OF assms(1) _ assms(2,3)] by (auto intro!: mfn_field_id)

subsection \<open>Splitting\<close>

text \<open>What it means that a table of level \<open>l\<close> translates like a superpage entry one level above.\<close>

definition splits_like :: "nat \<Rightarrow> ept_entry_t \<Rightarrow> ept_node \<Rightarrow> bool" where
  "splits_like l e node \<longleftrightarrow> (\<exists>ne t. node = Tab ne t \<and> is_epte_present ne \<and> \<not> e_sp ne \<and> tbl_ok l t
     \<and> (\<forall>r. unat r < 2 ^ (Suc l * 9) \<longrightarrow> tbl_view l t r = (e_mfn e + r, e_access e)))"

lemma split_entry_fields:
  assumes "sup_ok (Suc l) e" "i < 512" "l \<le> 3"
  shows "e_mfn (split_entry env e l i) = e_mfn e + of_nat i * push_bit (l * 9) 1"
    and "e_access (split_entry env e l i) = e_access e"
    and "0 < l \<Longrightarrow> sup_ok l (split_entry env e l i)"
    and "l = 0 \<Longrightarrow> ent_ok (split_entry env e l i) \<and> is_epte_valid (split_entry env e l i)
      \<and> \<not> p2m_is_broken (e_p2mt (split_entry env e l i))"
proof -
  from assms(1) have m: "unat (e_mfn e) + 2 ^ (Suc l * 9) \<le> 2 ^ 40" by (simp add: sup_ok_def)
  note sm = split_mfn[OF m assms(2,3)]
  show mfn: "e_mfn (split_entry env e l i) = e_mfn e + of_nat i * push_bit (l * 9) 1"
    using sm(1) by (simp add: split_entry_def)
  show acc: "e_access (split_entry env e l i) = e_access e" by (simp add: split_entry_def)
  have t: "e_p2mt (split_entry env e l i) = e_p2mt e" by (simp add: split_entry_def)
  have present: "is_epte_present (split_entry env e l i)"
    unfolding split_entry_def using assms(1) by (intro flags_readable) (auto simp: sup_ok_def)
  show "0 < l \<Longrightarrow> sup_ok l (split_entry env e l i)"
    using assms(1) present sm(2) unfolding sup_ok_def mfn acc t by (auto simp: split_entry_def)
  have "is_epte_valid (split_entry env e l i)"
    using assms(1) acc t by (intro valid_if_access) (auto simp: sup_ok_def readable_access_def readable_type_def)
  moreover have "e_access e \<noteq> p2m_access_n" "\<not> p2m_is_pod (e_p2mt e)"
    using assms(1) sup_ok_valid[OF assms(1)] by (auto simp: sup_ok_def readable_access_def)
  moreover have "l = 0 \<Longrightarrow> unat (e_mfn e + of_nat i * push_bit (l * 9) 1) < 2 ^ 40" using sm(2) by simp
  moreover have "x_only (split_entry env e l i)" by (simp add: split_entry_def)
  ultimately show "l = 0 \<Longrightarrow> ent_ok (split_entry env e l i) \<and> is_epte_valid (split_entry env e l i)
      \<and> \<not> p2m_is_broken (e_p2mt (split_entry env e l i))"
    using acc t mfn sup_ok_valid[OF assms(1)] by (simp add: ent_ok_def)
qed

lemma split_loop_all:
  "split_loop f ent is tbl pool = (True, tbl', pool') \<Longrightarrow> distinct is \<Longrightarrow>
   (\<forall>i \<in> set is. \<exists>p1 p2. f (ent i) p1 = (True, tbl' i, p2)) \<and> (\<forall>i. i \<notin> set is \<longrightarrow> tbl' i = tbl i)"
proof (induction "is" arbitrary: tbl pool)
  case (Cons i "is")
  obtain rv node p where f: "f (ent i) pool = (rv, node, p)" by (cases "f (ent i) pool") auto
  with Cons.prems have rv: "rv" and rest: "split_loop f ent is (tbl(i := node)) p = (True, tbl', pool')"
    by (auto split: if_splits)
  from Cons.IH[OF rest] Cons.prems(2) f rv show ?case by auto
qed auto

lemma set_middle_entry_ok:
  "ept_set_middle_entry env dflt pool = Some (ne, t, pool') \<Longrightarrow>
   is_epte_present ne \<and> \<not> e_sp ne \<and> t = ept_empty_table"
  by (cases pool) (auto simp: is_epte_present_def epte_zero_def)

text \<open>An entry of the new table, itself a smaller superpage or split further, covers its part.\<close>

definition split_part :: "ept_env \<Rightarrow> ept_entry_t \<Rightarrow> nat \<Rightarrow> nat \<Rightarrow> ept_node \<Rightarrow> bool" where
  "split_part env e l i node \<longleftrightarrow>
     node = Ent (split_entry env e (Suc l) i) \<or> splits_like l (split_entry env e (Suc l) i) node"

lemma split_part_view:
  assumes e: "sup_ok (Suc (Suc l)) e" "Suc l \<le> 3" and r: "unat r < 2 ^ (Suc (Suc l) * 9)"
    and part: "split_part env e l (unat (drop_bit (Suc l * 9) r)) (t (unat (drop_bit (Suc l * 9) r)))"
  shows "tbl_view (Suc l) t r = (e_mfn e + r, e_access e)"
proof -
  let ?c = "split_entry env e (Suc l) (unat (drop_bit (Suc l * 9) r))"
  note f = split_entry_fields[OF e(1) index_less[OF r] e(2), of env]
  have m: "e_mfn ?c + take_bit (Suc l * 9) r = e_mfn e + r"
    using f(1) split_rem[of "Suc l * 9" r] by (simp add: add.assoc)
  from part consider "t (unat (drop_bit (Suc l * 9) r)) = Ent ?c"
    | "splits_like l ?c (t (unat (drop_bit (Suc l * 9) r)))" unfolding split_part_def by blast
  then show ?thesis
  proof cases
    case 1
    have c: "sup_ok (Suc l) ?c" using f(3) by simp
    from 1 m f(2) sup_ok_valid[OF c] c show ?thesis
      by (simp add: leaf_view_def sup_ok_def is_epte_superpage_def)
  next
    case 2
    then obtain ne t' where "t (unat (drop_bit (Suc l * 9) r)) = Tab ne t'" "is_epte_present ne" "\<not> e_sp ne"
      "tbl_view l t' (take_bit (Suc l * 9) r) = (e_mfn ?c + take_bit (Suc l * 9) r, e_access ?c)"
      using take_less[of "Suc l * 9" r] unfolding splits_like_def by blast
    with m f(2) show ?thesis by (simp add: is_epte_superpage_def)
  qed
qed

lemma split_part_ok:
  "sup_ok (Suc (Suc l)) e \<Longrightarrow> Suc l \<le> 3 \<Longrightarrow> i < 512 \<Longrightarrow> split_part env e l i node \<Longrightarrow> node_ok (Suc l) node"
  using split_entry_fields(3)[of "Suc l" e i env] by (auto simp: split_part_def splits_like_def tbl_ok_def)

lemma split_super_page_ok:
  assumes "sup_ok (Suc l) e" "l \<le> 3" "target \<le> l"
    and "ept_split_super_page env dflt (Suc l) target e pool = (True, node, pool')"
  shows "splits_like l e node"
  using assms
proof (induction l arbitrary: e pool node pool')
  case 0
  from 0 obtain ne p where ne: "ept_set_middle_entry env dflt pool = Some (ne, ept_empty_table, p)"
    and node: "node = Tab ne (\<lambda>i. if i < 512 then Ent (split_entry env e 0 i) else ept_empty_table i)"
    by (auto split: option.splits dest: set_middle_entry_ok)
  note f = split_entry_fields[OF 0(1) _ 0(2)]
  have "tbl_view 0 (\<lambda>i. if i < 512 then Ent (split_entry env e 0 i) else ept_empty_table i) r = (e_mfn e + r, e_access e)"
    if "unat r < 512" for r
    using that f(1,2,4)[OF that] by (auto simp: leaf_view_def ent_ok_def)
  with ne node f(4) show ?case
    unfolding splits_like_def by (auto simp: tbl_ok_def dest: set_middle_entry_ok)
next
  case (Suc l)
  obtain ne p0 where ne: "ept_set_middle_entry env dflt pool = Some (ne, ept_empty_table, p0)"
    using Suc.prems(3,4) by (auto split: option.splits dest: set_middle_entry_ok)
  obtain t where node: "node = Tab ne t" and t: "\<And>i. i < 512 \<Longrightarrow> split_part env e l i (t i)"
  proof (cases "Suc l = target")
    case True
    with Suc.prems(4) ne that show ?thesis by (auto simp: split_part_def)
  next
    case False
    with Suc.prems(3,4) ne obtain t where
      loop: "split_loop (ept_split_super_page env dflt (Suc l) target) (split_entry env e (Suc l)) [0..<512]
        ept_empty_table p0 = (True, t, pool')" and "node = Tab ne t"
      by (auto simp del: ept_split_super_page.simps simp: ept_split_super_page.simps(2)[of env dflt "Suc l"] split: prod.splits)
    moreover have "split_part env e l i (t i)" if "i < 512" for i
    proof -
      from split_loop_all[OF loop] that obtain p1 p2 where
        "ept_split_super_page env dflt (Suc l) target (split_entry env e (Suc l) i) p1 = (True, t i, p2)" by fastforce
      from Suc.IH[OF _ _ _ this] split_entry_fields(3)[OF Suc.prems(1) that Suc.prems(2)] Suc.prems(2,3) False
      show ?thesis by (simp add: split_part_def)
    qed
    ultimately show ?thesis using that by blast
  qed
  have "is_epte_present ne \<and> \<not> e_sp ne" using set_middle_entry_ok[OF ne] by simp
  moreover have "tbl_ok (Suc l) t" using t split_part_ok[OF Suc.prems(1,2)] by (auto simp: tbl_ok_def)
  ultimately show ?case
    unfolding splits_like_def using node split_part_view[OF Suc.prems(1,2)] t index_less by blast
qed

subsection \<open>Deferred changes keep the translation\<close>

definition node_view :: "nat \<Rightarrow> ept_node \<Rightarrow> u64 \<Rightarrow> u64 \<times> p2m_access_t" where
  "node_view l node rem = tbl_view l (\<lambda>i. node) rem"

lemma tbl_view_node: "tbl_view l tbl rem = node_view l (tbl (unat (drop_bit (l * 9) rem))) rem"
  by (cases l) (simp_all add: node_view_def)

text \<open>\<open>same_node l a b\<close>: \<open>b\<close> may stand in the place of \<open>a\<close>.\<close>

definition same_node :: "nat \<Rightarrow> ept_node \<Rightarrow> ept_node \<Rightarrow> bool" where
  "same_node l a b \<longleftrightarrow> node_ok l b \<and> (\<forall>r. unat r < 2 ^ (Suc l * 9) \<longrightarrow> node_view l b r = node_view l a r)"

definition same_tbl :: "nat \<Rightarrow> ept_table \<Rightarrow> ept_table \<Rightarrow> bool" where
  "same_tbl l s t \<longleftrightarrow> tbl_ok l t \<and> (\<forall>r. unat r < 2 ^ (Suc l * 9) \<longrightarrow> tbl_view l t r = tbl_view l s r)"

lemma same_node_refl: "node_ok l a \<Longrightarrow> same_node l a a"
  by (simp add: same_node_def)

lemma same_tbl_refl: "tbl_ok l t \<Longrightarrow> same_tbl l t t"
  by (simp add: same_tbl_def)

lemma same_tbl_trans: "same_tbl l r s \<Longrightarrow> same_tbl l s t \<Longrightarrow> same_tbl l r t"
  by (simp add: same_tbl_def)

lemma same_tblI:
  assumes "\<And>i. i < 512 \<Longrightarrow> same_node l (s i) (t i)"
  shows "same_tbl l s t"
  unfolding same_tbl_def tbl_ok_def
  using assms index_less by (auto simp: tbl_view_node same_node_def)

lemma same_tbl_upd: "tbl_ok l t \<Longrightarrow> same_node l (t i) node \<Longrightarrow> same_tbl l t (t(i := node))"
  by (rule same_tblI) (auto simp: tbl_ok_def same_node_refl)

lemma same_node_Tab:
  assumes "is_epte_present e" "\<not> e_sp e" "same_tbl l s t"
    and "is_epte_present e'" "\<not> e_sp e'"
  shows "same_node (Suc l) (Tab e s) (Tab e' t)"
  using assms take_less[of "Suc l * 9"]
  by (auto simp: same_node_def same_tbl_def tbl_ok_def node_view_def is_epte_superpage_def)

lemma same_node_split:
  assumes "sup_ok (Suc l) e" "splits_like l e node"
  shows "same_node (Suc l) (Ent e) node"
proof -
  from assms(2) obtain ne t where node: "node = Tab ne t" "is_epte_present ne" "\<not> e_sp ne" "tbl_ok l t"
    and view: "\<And>r. unat r < 2 ^ (Suc l * 9) \<Longrightarrow> tbl_view l t r = (e_mfn e + r, e_access e)"
    unfolding splits_like_def by blast
  from assms(1) have "is_epte_present e" "e_sp e" by (auto simp: sup_ok_def)
  with node view[OF take_less] sup_ok_valid[OF assms(1)] show ?thesis
    by (simp add: same_node_def node_view_def tbl_ok_def is_epte_superpage_def leaf_view_def)
qed

lemma same_node_sup:
  "sup_ok (Suc l) e \<Longrightarrow> sup_ok (Suc l) e' \<Longrightarrow> e_mfn e' = e_mfn e \<Longrightarrow> e_access e' = e_access e \<Longrightarrow>
   same_node (Suc l) (Ent e) (Ent e')"
  using sup_ok_valid[of "Suc l" e] sup_ok_valid[of "Suc l" e']
  by (auto simp: same_node_def node_view_def sup_ok_def is_epte_superpage_def leaf_view_def)

lemma same_node_leaf:
  assumes "ent_ok e" "e_mfn e' = e_mfn e" "e_access e' = e_access e" "\<not> p2m_is_pod (e_p2mt e')"
    and "is_epte_valid e' \<longleftrightarrow> is_epte_valid e" "x_only e'" "p2m_is_broken (e_p2mt e') \<longleftrightarrow> p2m_is_broken (e_p2mt e)"
  shows "same_node 0 (Ent e) (Ent e')"
  using assms by (auto simp: same_node_def node_view_def leaf_view_def ent_ok_def)

lemma resolve_leaf_fields:
  "e_mfn (resolve_leaf env gfn e) = e_mfn e \<and> e_access (resolve_leaf env gfn e) = e_access e
   \<and> (e_p2mt (resolve_leaf env gfn e) = e_p2mt e
      \<or> e_p2mt (resolve_leaf env gfn e) \<in> {p2m_ram_rw, p2m_ram_logdirty})
   \<and> (p2m_is_broken (e_p2mt (resolve_leaf env gfn e)) \<longleftrightarrow> p2m_is_broken (e_p2mt e))"
  using recalc_type_cases[of env "e_recalc e" "e_p2mt e" gfn]
  by (auto simp: resolve_leaf_def atomic_write_ept_entry_def Let_def split_beta)

lemma resolve_leaf_x_only: "x_only e \<Longrightarrow> x_only (resolve_leaf env gfn e)"
  by (auto simp: resolve_leaf_def atomic_write_ept_entry_def Let_def split_beta) (auto simp: x_only_def)

lemma resolve_leaf_same:
  assumes "ent_ok e"
  shows "same_node 0 (Ent e) (Ent (resolve_leaf env gfn e))"
proof (cases "resolve_leaf env gfn e = e")
  case True
  with assms show ?thesis by (simp add: same_node_refl)
next
  case False
  then have "is_epte_valid (if e_emt e = 7 then e\<lparr>e_emt := 0\<rparr> else e)"
    by (auto simp: resolve_leaf_def Let_def split: if_splits)
  then have valid: "is_epte_valid e"
    by (cases e) (auto simp: is_epte_valid_def epte_zero_def split: if_splits)
  then have t: "e_p2mt e \<noteq> p2m_invalid" "\<not> p2m_is_pod (e_p2mt e)"
    and nz: "e_access e \<noteq> p2m_access_n \<or> e_mfn e \<noteq> 0"
    using assms by (auto simp: is_epte_valid_def ent_ok_def)
  note f = resolve_leaf_fields[of env gfn e]
  have "e_p2mt (resolve_leaf env gfn e) \<noteq> p2m_invalid" "\<not> p2m_is_pod (e_p2mt (resolve_leaf env gfn e))"
    using f t by (auto simp: p2m_is_pod_def)
  moreover from this(1) f nz have "is_epte_valid (resolve_leaf env gfn e)"
    using valid_if_access valid_if_mfn by metis
  moreover have "x_only (resolve_leaf env gfn e)" using assms by (simp add: ent_ok_def resolve_leaf_x_only)
  ultimately show ?thesis using assms f valid by (intro same_node_leaf) auto
qed

lemma resolve_superpage_ok:
  assumes "sup_ok l e"
  shows "(case resolve_superpage env l gfn e of Inl e' \<Rightarrow> sup_ok l e' \<and> e_mfn e' = e_mfn e \<and> e_access e' = e_access e
    | Inr e' \<Rightarrow> sup_ok l e' \<and> e_mfn e' = e_mfn e \<and> e_access e' = e_access e)"
proof -
  have r: "readable_type p2m_ram_rw" "readable_type p2m_ram_logdirty" by (auto simp: readable_type_def)
  show ?thesis
    using assms r
    by (auto simp: resolve_superpage_def Let_def sup_ok_def split_beta intro!: flags_readable
        split: if_splits) (auto simp: is_epte_present_def)
qed

lemma invalidate_entry_fields [simp]:
  "e_mfn (invalidate_entry env b l e) = e_mfn e" "e_access (invalidate_entry env b l e) = e_access e"
  "e_p2mt (invalidate_entry env b l e) = e_p2mt e" "e_sp (invalidate_entry env b l e) = e_sp e"
  "is_epte_present (invalidate_entry env b l e) = is_epte_present e"
  "is_epte_valid (invalidate_entry env b l e) = is_epte_valid e"
  "x_only (invalidate_entry env b l e) = x_only e"
  by (cases e, auto simp: invalidate_entry_def atomic_write_ept_entry_def is_epte_present_def Let_def
      is_epte_valid_def epte_zero_def x_only_def)+

lemma map_entry_same:
  assumes "node_ok l node"
  shows "same_node l node (map_entry (invalidate_entry env b l) node)"
proof (cases node)
  case (Ent e)
  show ?thesis
  proof (cases l)
    case 0
    with Ent assms show ?thesis by (auto simp: ent_ok_def intro!: same_node_leaf)
  next
    case (Suc k)
    with Ent assms show ?thesis
      by (auto simp: same_node_def node_view_def sup_ok_def leaf_view_def is_epte_superpage_def)
  qed
next
  case (Tab e t)
  with assms show ?thesis
    by (cases l) (auto simp: same_node_def node_view_def is_epte_superpage_def)
qed

lemma invalidate_subtree_same: "tbl_ok l t \<Longrightarrow> same_tbl l t (ept_invalidate_emt_subtree env t b l)"
  by (rule same_tblI) (auto simp: ept_invalidate_emt_subtree_def tbl_ok_def intro: map_entry_same same_node_refl)

lemma ept_index_less: "ept_index l gfn < 512"
  using take_less[of 9 "drop_bit (l * 9) gfn"] by (simp add: ept_index_def)

lemma descend_same:
  assumes "tbl_ok (Suc l) tbl" "i < 512" "same_node (Suc l) (tbl i) (Tab e t)" "same_tbl l t t'"
  shows "same_tbl (Suc l) tbl (tbl(i := Tab e t'))"
proof (rule same_tbl_upd[OF assms(1)])
  from assms(3) have "is_epte_present e" "\<not> e_sp e" by (auto simp: same_node_def)
  then have "same_node (Suc l) (Tab e t) (Tab e t')" using assms(4) by (intro same_node_Tab) auto
  with assms(3) show "same_node (Suc l) (tbl i) (Tab e t')" by (simp add: same_node_def)
qed

lemma resolve_super_same:
  assumes ok: "tbl_ok (Suc l) tbl" "l \<le> 3" and sp: "e_sp (node_entry (tbl (ept_index (Suc l) gfn)))"
    and down: "\<And>e t t' r p r' p'. same_node (Suc l) (tbl (ept_index (Suc l) gfn)) (Tab e t) \<Longrightarrow>
      resolve_table env dflt l t gfn r p = (r', t', p') \<Longrightarrow> same_tbl (Suc l) tbl (tbl(ept_index (Suc l) gfn := Tab e t'))"
    and res: "resolve_table env dflt (Suc l) tbl gfn rc pool = (rc', tbl', pool')"
  shows "same_tbl (Suc l) tbl tbl'"
proof -
  let ?i = "ept_index (Suc l) gfn" let ?e = "node_entry (tbl ?i)"
  have "node_ok (Suc l) (tbl ?i)" using ok ept_index_less[of "Suc l" gfn] by (simp add: tbl_ok_def)
  with sp have n: "tbl ?i = Ent ?e" "sup_ok (Suc l) ?e" by (auto split: ept_node.splits)
  show ?thesis
  proof (cases "resolve_superpage env (Suc l) gfn ?e")
    case (Inl e')
    with resolve_superpage_ok[OF n(2), of env gfn] have f: "sup_ok (Suc l) e'" "e_mfn e' = e_mfn ?e"
      "e_access e' = e_access ?e" by auto
    have "same_node (Suc l) (tbl ?i) (Ent e')" using same_node_sup[OF n(2) f] n(1) by auto
    with same_tbl_upd[OF ok(1)] res sp Inl ok(1) show ?thesis
      by (auto simp: Let_def is_epte_superpage_def same_tbl_refl split: if_splits)
  next
    case (Inr e')
    with resolve_superpage_ok[OF n(2), of env gfn] have f: "sup_ok (Suc l) e'" "e_mfn e' = e_mfn ?e"
      "e_access e' = e_access ?e" by auto
    have e': "sup_ok (Suc l) e'" "same_node (Suc l) (tbl ?i) (Ent e')"
      using same_node_sup[OF n(2) f] f(1) n(1) by auto
    obtain rv node p where s: "ept_split_super_page env dflt (Suc l) l e' pool = (rv, node, p)"
      by (cases "ept_split_super_page env dflt (Suc l) l e' pool") auto
    show ?thesis
    proof (cases "rv \<and> e_emt ?e = 7")
      case yes: True
      with s split_super_page_ok[OF e'(1), of l env dflt pool node p] ok(2) have sl: "splits_like l e' node" by simp
      then obtain ne t where node: "node = Tab ne t" unfolding splits_like_def by blast
      have "same_node (Suc l) (tbl ?i) (Tab ne t)"
        using same_node_split[OF e'(1) sl] e'(2) node by (simp add: same_node_def)
      with down res sp Inr s yes node show ?thesis
        by (auto simp: Let_def is_epte_superpage_def simp del: ept_split_super_page.simps split: prod.splits)
    next
      case False
      with ok(1) res sp Inr s show ?thesis
        by (auto simp: Let_def is_epte_superpage_def same_tbl_refl simp del: ept_split_super_page.simps split: if_splits)
    qed
  qed
qed

lemma resolve_table_same:
  assumes "tbl_ok l tbl" "l \<le> 3" "resolve_table env dflt l tbl gfn rc pool = (rc', tbl', pool')"
  shows "same_tbl l tbl tbl'"
  using assms
proof (induction l arbitrary: tbl rc pool rc' tbl' pool')
  case 0
  have "same_node 0 (tbl j) (map_entry (resolve_leaf env g) (tbl j))" if "j < 512" for g j
  proof -
    have "node_ok 0 (tbl j)" using 0(1) that by (simp add: tbl_ok_def)
    then show ?thesis by (cases "tbl j") (auto intro: resolve_leaf_same)
  qed
  with 0 show ?case
    by (auto split: if_splits simp: same_tbl_refl tbl_ok_def intro!: same_tblI same_node_refl)
next
  case (Suc l)
  let ?i = "ept_index (Suc l) gfn" let ?e = "node_entry (tbl ?i)"
  have i: "?i < 512" by (rule ept_index_less)
  with Suc.prems(1) have ok: "node_ok (Suc l) (tbl ?i)" by (simp add: tbl_ok_def)
  have down: "same_tbl (Suc l) tbl (tbl(?i := Tab e t'))"
    if "same_node (Suc l) (tbl ?i) (Tab e t)" "resolve_table env dflt l t gfn r p = (r', t', p')" for e t t' r p r' p'
    using that Suc.IH[OF _ _ that(2)] Suc.prems(2) descend_same[OF Suc.prems(1) i that(1)]
    by (simp add: same_node_def tbl_ok_def)
  show ?case
  proof (cases "e_sp ?e")
    case True
    show ?thesis by (rule resolve_super_same[OF Suc.prems(1) _ True down Suc.prems(3)]) (use Suc.prems(2) in simp_all)
  next
    case False
    show ?thesis
    proof (cases "tbl ?i")
      case (Ent e)
      with False Suc.prems(1,3) show ?thesis by (simp add: Let_def is_epte_superpage_def same_tbl_refl)
    next
      case (Tab e t)
      with ok have e: "is_epte_present e" "\<not> e_sp e" "tbl_ok l t" by (auto simp: tbl_ok_def)
      have inv: "same_node (Suc l) (tbl ?i) (Tab (e\<lparr>e_emt := 0, e_recalc := False\<rparr>) (ept_invalidate_emt_subtree env t (e_recalc e) l))"
        unfolding Tab using e invalidate_subtree_same[OF e(3)]
        by (intro same_node_Tab) (auto simp: is_epte_present_def)
      have self: "same_node (Suc l) (tbl ?i) (Tab e t)" using ok Tab by (simp add: same_node_def)
      show ?thesis
        using Suc.prems(1,3) False Tab down[OF inv] down[OF self]
        by (auto simp: Let_def is_epte_superpage_def same_tbl_refl split: if_splits prod.splits)
    qed
  qed
qed

subsection \<open>A 4K update\<close>

text \<open>
  \<open>updated\<close>: the outcome of the walk of \<^verbatim>\<open>ept_set_entry\<close> for frame number \<open>rem\<close>. Every other frame number
  keeps its translation; if the walk reached the 4K entry, it was the one that translated \<open>rem\<close>
  and the new translation is that of the updated entry, otherwise nothing changed.
\<close>

definition updated ::
  "nat \<Rightarrow> (bool \<Rightarrow> ept_node \<Rightarrow> int \<times> ept_node) \<Rightarrow> u64 \<Rightarrow> ept_table
    \<Rightarrow> int \<times> ept_table \<times> ptp_pool \<times> (bool \<times> ept_node) option \<Rightarrow> bool" where
  "updated l upd rem tbl res \<longleftrightarrow> (case res of (rc, tbl', pool', reached) \<Rightarrow>
     tbl_ok l tbl' \<and> (\<forall>r. unat r < 2 ^ (Suc l * 9) \<longrightarrow> r \<noteq> rem \<longrightarrow> tbl_view l tbl' r = tbl_view l tbl r)
     \<and> (case reached of
          None \<Rightarrow> rc = - ENOMEM \<and> tbl_view l tbl' rem = tbl_view l tbl rem
        | Some (s, node) \<Rightarrow> node_ok 0 node \<and> leaf_view 0 (node_entry node) 0 = tbl_view l tbl rem
            \<and> rc = fst (upd s node) \<and> tbl_view l tbl' rem = leaf_view 0 (node_entry (snd (upd s node))) 0))"

lemma updated_none: "tbl_ok l tbl \<Longrightarrow> updated l upd rem tbl (- ENOMEM, tbl, pool, None)"
  by (simp add: updated_def)

lemma updated_descend:
  assumes tbl: "tbl_ok (Suc l) tbl"
    and same: "same_node (Suc l) (tbl (unat (drop_bit (Suc l * 9) rem))) (Tab e t)"
    and rem: "unat rem < 2 ^ (Suc (Suc l) * 9)"
    and down: "updated l upd (take_bit (Suc l * 9) rem) t (rc, t', pool, reached)"
  shows "updated (Suc l) upd rem tbl (rc, tbl(unat (drop_bit (Suc l * 9) rem) := Tab e t'), pool, reached)"
proof -
  let ?i = "unat (drop_bit (Suc l * 9) rem)" and ?r = "\<lambda>r. take_bit (Suc l * 9) r :: u64"
  let ?tbl = "tbl(?i := Tab e t')"
  from same have e: "is_epte_present e" "\<not> e_sp e" and t: "tbl_ok l t" by (auto simp: same_node_def tbl_ok_def)
  have in_t: "tbl_view (Suc l) tbl r = tbl_view l t (?r r)"
    if "unat r < 2 ^ (Suc (Suc l) * 9)" "unat (drop_bit (Suc l * 9) r) = ?i" for r
  proof -
    have "tbl_view (Suc l) tbl r = node_view (Suc l) (tbl ?i) r" by (simp only: tbl_view_node that(2))
    also have "\<dots> = node_view (Suc l) (Tab e t) r" using same that(1) by (simp add: same_node_def)
    also have "\<dots> = tbl_view l t (?r r)" using e by (simp add: node_view_def is_epte_superpage_def)
    finally show ?thesis .
  qed
  have in_t': "tbl_view (Suc l) ?tbl r = tbl_view l t' (?r r)" if "unat (drop_bit (Suc l * 9) r) = ?i" for r
    using that e by (simp add: is_epte_superpage_def)
  have "tbl_ok (Suc l) ?tbl" using tbl down e by (auto simp: tbl_ok_def updated_def)
  moreover have "tbl_view (Suc l) ?tbl r = tbl_view (Suc l) tbl r"
    if r: "unat r < 2 ^ (Suc (Suc l) * 9)" "r \<noteq> rem" for r
  proof (cases "unat (drop_bit (Suc l * 9) r) = ?i")
    case True
    then have "drop_bit (Suc l * 9) r = drop_bit (Suc l * 9) rem" by (simp only: word_unat_eq_iff)
    with r(2) same_index_rem have "?r r \<noteq> ?r rem" by blast
    with down have "tbl_view l t' (?r r) = tbl_view l t (?r r)" by (simp add: updated_def take_less)
    with in_t[OF r(1) True] in_t'[OF True] show ?thesis by simp
  next
    case False
    then show ?thesis by (simp add: tbl_view_node)
  qed
  moreover note in_t[OF rem refl] in_t'[OF refl, of]
  ultimately show ?thesis using down unfolding updated_def by auto
qed

lemma walk_rw_updated:
  assumes "tbl_ok l tbl" "l \<le> 3" "unat rem < 2 ^ (Suc l * 9)"
    and upd: "\<And>s node. node_ok 0 node \<Longrightarrow> node_ok 0 (snd (upd s node))"
  shows "updated l upd rem tbl (ept_walk_rw env dflt 0 upd l split tbl rem pool)"
  using assms(1-3)
proof (induction l arbitrary: split tbl rem pool)
  case 0
  let ?i = "unat rem"
  have i: "?i < 512" using 0 by simp
  then have ok: "node_ok 0 (tbl ?i)" using 0 by (auto simp: tbl_ok_def)
  have "tbl_ok 0 (tbl(?i := snd (upd split (tbl ?i))))"
    using 0(1) upd[OF ok, of split] by (simp add: tbl_ok_def)
  then show ?case using ok
    by (auto simp: updated_def split_beta Let_def leaf_view_def word_unat_eq_iff)
next
  case (Suc l)
  let ?i = "unat (drop_bit (Suc l * 9) rem)" let ?e = "node_entry (tbl ?i)"
  have i: "?i < 512" by (rule index_less[OF Suc.prems(3)])
  with Suc.prems(1) have ok: "node_ok (Suc l) (tbl ?i)" by (simp add: tbl_ok_def)
  have down: "updated (Suc l) upd rem tbl
      (let (rc, t, pool, old) = ept_walk_rw env dflt 0 upd l s t (take_bit (Suc l * 9) rem) p
       in (rc, tbl(?i := Tab e t), pool, old))" if "same_node (Suc l) (tbl ?i) (Tab e t)" for s e t p
  proof -
    have "tbl_ok l t" using that by (simp add: same_node_def tbl_ok_def)
    from Suc.IH[where split = s and pool = p, OF this _ take_less[of "Suc l * 9" rem]] Suc.prems(2)
      updated_descend[OF Suc.prems(1) that Suc.prems(3)]
    show ?thesis by (cases "ept_walk_rw env dflt 0 upd l s t (take_bit (Suc l * 9) rem) p") auto
  qed
  consider (absent) "\<not> is_epte_present ?e" "\<not> p2m_is_pod (e_p2mt ?e)" "tbl ?i = Ent ?e"
    | (super) "is_epte_present ?e" "sup_ok (Suc l) ?e" "tbl ?i = Ent ?e"
    | (dir) e t where "is_epte_present e" "\<not> e_sp e" "tbl ?i = Tab e t"
    using ok by (cases "tbl ?i") (auto simp: sup_ok_def)
  then show ?case
  proof cases
    case absent
    then have "same_node (Suc l) (tbl ?i) (Tab ne ept_empty_table)"
      if "ept_set_middle_entry env dflt pool = Some (ne, x, p)" for ne x p
      using set_middle_entry_ok[OF that] empty_table_ok[of l] empty_table_view[of l]
      by (auto simp: same_node_def node_view_def tbl_ok_def is_epte_superpage_def)
    with absent down updated_none[OF Suc.prems(1)] show ?thesis
      by (cases "ept_set_middle_entry env dflt pool") (auto simp: Let_def dest!: set_middle_entry_ok)
  next
    case super
    obtain rv node p where s: "ept_split_super_page env dflt (Suc l) 0 ?e pool = (rv, node, p)"
      by (cases "ept_split_super_page env dflt (Suc l) 0 ?e pool") auto
    have sp: "e_sp ?e" "\<not> p2m_is_pod (e_p2mt ?e)" using super(2) sup_ok_valid[OF super(2)] by (auto simp: sup_ok_def)
    show ?thesis
    proof (cases rv)
      case True
      with s split_super_page_ok[OF super(2), of 0 env dflt pool node p] Suc.prems(2)
      have sl: "splits_like l ?e node" by simp
      then obtain ne t where node: "node = Tab ne t" unfolding splits_like_def by blast
      with same_node_split[OF super(2) sl] super(3) have "same_node (Suc l) (tbl ?i) (Tab ne t)" by simp
      with down super sp s node True show ?thesis
        by (simp add: Let_def is_epte_superpage_def del: ept_split_super_page.simps)
    next
      case False
      with super sp s updated_none[OF Suc.prems(1)] show ?thesis
        by (simp add: Let_def is_epte_superpage_def del: ept_split_super_page.simps)
    qed
  next
    case (dir e t)
    with same_node_refl[OF ok] down[of e t split pool] show ?thesis
      by (simp add: Let_def is_epte_superpage_def)
  qed
qed

lemma ept_walk_ro_ok:
  assumes "tbl_ok l tbl" "unat rem < 2 ^ (Suc l * 9)"
  shows "case ept_walk_ro l tbl rem rc of
      Inl (t, i) \<Rightarrow> t = p2m_mmio_dm
    | Inr (e, i, r, _) \<Rightarrow> i = 0 \<and> ent_ok e \<or> sup_ok i e \<and> unat (take_bit (i * 9) r) < 2 ^ (i * 9)"
  using assms
proof (induction l arbitrary: tbl rem rc)
  case 0
  then have "node_ok 0 (tbl (unat rem))" by (simp add: tbl_ok_def)
  then show ?case by (auto split: ept_node.splits)
next
  case (Suc l)
  let ?i = "unat (drop_bit (Suc l * 9) rem)"
  have "node_ok (Suc l) (tbl ?i)" using Suc.prems index_less[OF Suc.prems(2)] by (simp add: tbl_ok_def)
  with Suc.IH[OF _ take_less[of "Suc l * 9" rem]] take_less[of "Suc l * 9" rem] show ?case
    by (cases "tbl ?i") (auto simp: Let_def is_epte_superpage_def tbl_ok_def sup_ok_def)
qed

subsection \<open>The contract\<close>

text \<open>
  A p2m the contract holds for: a well-formed table within the 36-bit frame numbers, in an
  environment where \<^verbatim>\<open>INVALID_MFN\<close> is not valid and the IOMMU and altp2m updates return 0 or an error.
\<close>

definition ept_env_ok :: "ept_env \<Rightarrow> bool" where
  "ept_env_ok env \<longleftrightarrow> \<not> ev_mfn_valid env INVALID_MFN \<and> (\<forall>g m n. ev_iommu env g m n \<le> 0)
     \<and> (\<forall>g m n t a. ev_altp2m env g m n t a \<le> 0)"

definition ept_ok :: "ept_env \<Rightarrow> ept_p2m \<Rightarrow> bool" where
  "ept_ok env p \<longleftrightarrow> ept_env_ok env \<and> tbl_ok EPT_WL (ept_root (table p)) \<and> unat (max_mapped_pfn p) < 2 ^ 36"

lemma get_gfn_ok:
  assumes "ept_ok env p" "gfn \<le> max_mapped_pfn p"
    and "p2m_get_gfn_type_access (ept_ops env) p gfn = (mfn, t, a, order)"
  shows "mfn = INVALID_MFN \<and> t \<in> {p2m_mmio_dm, p2m_ram_broken}
    \<or> unat mfn < 2 ^ 40 \<and> t \<noteq> p2m_invalid \<and> \<not> p2m_is_pod t \<and> \<not> p2m_is_broken t"
proof -
  have g: "unat gfn < 2 ^ (Suc 3 * 9)" using assms(1,2) by (simp add: ept_ok_def word_le_nat_alt)
  have "tbl_ok EPT_WL (ept_root (table p))" using assms(1) by (simp add: ept_ok_def)
  note w = ept_walk_ro_ok[OF this g, of False]
  show ?thesis
  proof (cases "ept_walk_ro EPT_WL (ept_root (table p)) gfn False")
    case (Inl x)
    with w assms(2,3) show ?thesis
      by (auto simp: p2m_get_gfn_type_access_def ept_ops_def ept_get_entry_def p2m_is_broken_def
          split: prod.splits if_splits)
  next
    case (Inr x)
    obtain e i r rc where x: "x = (e, i, r, rc)" by (cases x) auto
    have bound: "unat (e_mfn e + take_bit (i * 9) r) < 2 ^ 40" if "i = 0 \<and> ent_ok e \<or> sup_ok i e \<and> unat (take_bit (i * 9) r) < 2 ^ (i * 9)"
      using that unat_add_small[of "e_mfn e" "take_bit (i * 9) r"] by (auto simp: ent_ok_def sup_ok_def)
    have type: "t' \<noteq> p2m_invalid \<and> \<not> p2m_is_pod t'" if "is_epte_valid e" "\<not> p2m_is_pod (e_p2mt e)"
      "t' = p2m_recalc_type env b (e_p2mt e) gfn" for t' b
      using that recalc_type_cases[of env b "e_p2mt e" gfn] by (auto simp: is_epte_valid_def p2m_is_pod_def)
    show ?thesis
      using w Inr x assms(2,3) bound type sup_ok_valid[of i e]
      by (auto simp: p2m_get_gfn_type_access_def ept_ops_def ept_get_entry_def p2m_is_broken_def p2m_view_def
          ent_ok_def split: if_splits)
  qed
qed

text \<open>The entry the update writes.\<close>

lemma ept_update_ok:
  assumes "a \<noteq> p2m_access_n" "\<not> p2m_is_pod t" "node_ok 0 node"
  shows "node_ok 0 (snd (ept_update env 0 gfn mfn t a sve s node))"
proof -
  have "ent_ok (ept_new_entry env 0 gfn mfn t a sve e)" for e
    using assms(1,2) take_less[of 40 mfn]
    by (auto simp: ept_new_entry_def ent_ok_def mfn_field_def epte_zero_def p2m_is_pod_def is_epte_valid_def
        split_beta Let_def) (auto simp: x_only_def epte_zero_def)
  with assms(3) show ?thesis
    by (cases node) (auto simp: ept_update_def atomic_write_ept_entry_def Let_def)
qed

lemma ept_update_view:
  assumes "a \<noteq> p2m_access_n" "\<not> p2m_is_pod t" "t \<noteq> p2m_invalid" "unat mfn < 2 ^ 40 \<and> \<not> p2m_is_broken t \<or> mfn = INVALID_MFN \<and> t \<noteq> p2m_mmio_direct"
    and "\<not> ev_mfn_valid env INVALID_MFN" "ept_update env 0 gfn mfn t a sve s node = (rc, node')"
  shows "rc \<noteq> 0 \<and> node' = node
    \<or> rc = 0 \<and> leaf_view 0 (node_entry node') 0 = (if ev_mfn_valid env mfn \<or> p2m_allows_invalid_mfn t then (mfn, a) else (INVALID_MFN, p2m_access_n))"
proof -
  let ?n = "ept_new_entry env 0 gfn mfn t a sve (if s then epte_zero else node_entry node)"
  have "leaf_view 0 ?n 0 = (if ev_mfn_valid env mfn \<or> p2m_allows_invalid_mfn t then (mfn, a) else (INVALID_MFN, p2m_access_n))"
  proof (cases "ev_mfn_valid env mfn \<or> p2m_allows_invalid_mfn t")
    case True
    with assms have m: "unat mfn < 2 ^ 40" "\<not> p2m_is_broken t" by (auto simp: p2m_allows_invalid_mfn_def p2m_is_pod_def)
    then have "e_mfn ?n = mfn" "e_access ?n = a" "e_p2mt ?n = t"
      using True by (auto simp: ept_new_entry_def split_beta Let_def mfn_field_id)
    with True m(2) assms(1-3) valid_if_access[of ?n] show ?thesis by (simp add: leaf_view_def)
  next
    case False
    then show ?thesis by (auto simp: ept_new_entry_def split_beta Let_def leaf_view_def is_epte_valid_def epte_zero_def)
  qed
  with assms(6) show ?thesis
    by (auto simp: ept_update_def atomic_write_ept_entry_def Let_def split: if_splits)
qed

lemma gfn_in_range: "ept_ok env p \<Longrightarrow> gfn \<le> max_mapped_pfn p \<Longrightarrow> unat gfn < 2 ^ (Suc 3 * 9)"
  by (simp add: ept_ok_def word_le_nat_alt)

lemma resolve_misconfig_same:
  assumes "ept_ok env p" "resolve_misconfig env p gfn = (rc, q)"
  shows "ept_ok env q" "max_mapped_pfn q = max_mapped_pfn p" "p2m_view (ept_ops env) q = p2m_view (ept_ops env) p"
proof -
  obtain tbl pool where r: "resolve_table env (default_access p) 3 (ept_root (table p)) gfn 0 (ept_pool (table p)) = (rc, tbl, pool)"
    and q: "q = p\<lparr>table := \<lparr>ept_root = tbl, ept_pool = pool\<rparr>\<rparr>"
    using assms(2) by (auto simp: resolve_misconfig_def split: prod.splits)
  have same: "same_tbl 3 (ept_root (table p)) tbl"
    using resolve_table_same[OF _ _ r] assms(1) by (simp add: ept_ok_def)
  then show ok: "ept_ok env q" using assms(1) by (simp add: ept_ok_def same_tbl_def q)
  show mx: "max_mapped_pfn q = max_mapped_pfn p" by (simp add: q)
  have "p2m_view (ept_ops env) q g = p2m_view (ept_ops env) p g" for g
  proof (cases "g \<le> max_mapped_pfn p")
    case True
    from same gfn_in_range[OF assms(1) True] have "tbl_view 3 tbl g = tbl_view 3 (ept_root (table p)) g"
      unfolding same_tbl_def by blast
    then show ?thesis by (simp add: ept_view q)
  qed (simp add: ept_view q not_le)
  then show "p2m_view (ept_ops env) q = p2m_view (ept_ops env) p" by blast
qed

lemma drop_36: "unat (gfn :: u64) < 2 ^ (Suc 3 * 9) \<Longrightarrow> drop_bit 36 gfn = 0"
  by (simp add: word_unat_eq_iff unat_drop)

lemma ept_set_entry_4k:
  assumes "ept_ok env p" "gfn \<le> max_mapped_pfn p" "resolve_misconfig env p gfn = (ret, p1)"
    and "ept_walk_rw env (default_access p1) 0 (ept_update env 0 gfn mfn t a sve) 3 False
      (ept_root (table p1)) gfn (ept_pool (table p1)) = (rc, tbl, pool, reached)"
    and "set_entry (ept_ops env) p gfn mfn PAGE_ORDER_4K t a sve = (r, q)"
  shows "ret < 0 \<and> r = ret \<and> q = p1
    \<or> r \<le> 0 \<and> (r = 0 \<longrightarrow> rc = 0) \<and> max_mapped_pfn q = max_mapped_pfn p \<and> ept_root (table q) = tbl
      \<or> 0 < rc"
proof -
  have mx: "max_mapped_pfn p1 = max_mapped_pfn p" by (rule resolve_misconfig_same(2)[OF assms(1,3)])
  have io: "ev_iommu env g m n \<le> 0" "ev_altp2m env g m n t a \<le> 0" for g m n t a
    using assms(1) by (auto simp: ept_ok_def ept_env_ok_def)
  have d: "drop_bit 36 gfn = 0" using drop_36 gfn_in_range[OF assms(1,2)] by blast
  show ?thesis
    using assms(2,5) io unfolding ept_ops_def p2m_ops.simps ept_set_entry_def
    by (simp add: assms(3,4) d mx Let_def split: if_splits) (auto split: if_splits)
qed

lemma ept_update_rc: "fst (ept_update env 0 gfn mfn t a sve s node) \<le> 0"
  by (auto simp: ept_update_def atomic_write_ept_entry_def p2m_entry_modify_def Let_def)

lemma ept_walked:
  assumes ok: "ept_ok env p" and gfn: "gfn \<le> max_mapped_pfn p"
    and u: "updated 3 upd gfn (ept_root (table p)) (rc, tbl, pool, reached)"
    and q: "max_mapped_pfn q = max_mapped_pfn p" "ept_root (table q) = tbl"
  shows "ept_ok env q" and "g \<noteq> gfn \<Longrightarrow> p2m_view (ept_ops env) q g = p2m_view (ept_ops env) p g"
    and "case reached of
        None \<Rightarrow> rc = - ENOMEM \<and> p2m_view (ept_ops env) q gfn = p2m_view (ept_ops env) p gfn
      | Some (s, node) \<Rightarrow> leaf_view 0 (node_entry node) 0 = p2m_view (ept_ops env) p gfn \<and> rc = fst (upd s node)
          \<and> p2m_view (ept_ops env) q gfn = leaf_view 0 (node_entry (snd (upd s node))) 0"
proof -
  have view: "p2m_view (ept_ops env) q g = tbl_view 3 tbl g"
    "p2m_view (ept_ops env) p g = tbl_view 3 (ept_root (table p)) g" if "g \<le> max_mapped_pfn p" for g
    using that q by (auto simp: ept_view not_less)
  show "ept_ok env q" using ok u q by (simp add: ept_ok_def updated_def)
  show "p2m_view (ept_ops env) q g = p2m_view (ept_ops env) p g" if "g \<noteq> gfn"
  proof (cases "g \<le> max_mapped_pfn p")
    case True
    with u gfn_in_range[OF ok True] that have "tbl_view 3 tbl g = tbl_view 3 (ept_root (table p)) g"
      unfolding updated_def by blast
    with view[OF True] show ?thesis by simp
  next
    case False
    then show ?thesis using q(1) by (simp add: ept_view not_le)
  qed
  show "case reached of
        None \<Rightarrow> rc = - ENOMEM \<and> p2m_view (ept_ops env) q gfn = p2m_view (ept_ops env) p gfn
      | Some (s, node) \<Rightarrow> leaf_view 0 (node_entry node) 0 = p2m_view (ept_ops env) p gfn \<and> rc = fst (upd s node)
          \<and> p2m_view (ept_ops env) q gfn = leaf_view 0 (node_entry (snd (upd s node))) 0"
    using u view[OF gfn] by (auto simp: updated_def split: option.splits)
qed

text \<open>
  A 4K update with any frame and type the tables can hold: other frame numbers keep their translation; the
  entry keeps its value, or is what \<^const>\<open>ept_update\<close> writes.
\<close>

lemma ept_set_frame:
  assumes ok: "ept_ok env p" and gfn: "gfn \<le> max_mapped_pfn p" and a: "a \<noteq> p2m_access_n" and t: "\<not> p2m_is_pod t"
    and set: "set_entry (ept_ops env) p gfn mfn PAGE_ORDER_4K t a (- 1) = (r, q)"
  shows "ept_ok env q \<and> r \<le> 0 \<and> max_mapped_pfn q = max_mapped_pfn p
    \<and> (\<forall>g. g \<noteq> gfn \<longrightarrow> p2m_view (ept_ops env) q g = p2m_view (ept_ops env) p g)
    \<and> (p2m_view (ept_ops env) q gfn = p2m_view (ept_ops env) p gfn \<and> r \<noteq> 0
       \<or> (\<exists>s node rc node'. ept_update env 0 gfn mfn t a (- 1) s node = (rc, node') \<and> (r = 0 \<longrightarrow> rc = 0)
            \<and> leaf_view 0 (node_entry node) 0 = p2m_view (ept_ops env) p gfn
            \<and> p2m_view (ept_ops env) q gfn = leaf_view 0 (node_entry node') 0))"
proof -
  let ?upd = "ept_update env 0 gfn mfn t a (- 1)" and ?v = "p2m_view (ept_ops env)"
  obtain ret p1 where res: "resolve_misconfig env p gfn = (ret, p1)" by fastforce
  note same = resolve_misconfig_same[OF ok res]
  obtain rc tbl pool reached where walk: "ept_walk_rw env (default_access p1) 0 ?upd 3 False
      (ept_root (table p1)) gfn (ept_pool (table p1)) = (rc, tbl, pool, reached)"
    by (metis prod_cases4)
  have ok1: "tbl_ok 3 (ept_root (table p1))" using same(1) by (simp add: ept_ok_def)
  have u: "updated 3 ?upd gfn (ept_root (table p1)) (rc, tbl, pool, reached)"
    unfolding walk[symmetric]
    by (rule walk_rw_updated[OF ok1 _ gfn_in_range[OF ok gfn]])
      (auto intro: ept_update_ok[OF a t] simp del: node_ok.simps)
  then have "\<not> 0 < rc" using ept_update_rc[of env gfn mfn t a "- 1"]
    by (auto simp: updated_def not_less split: option.splits)
  with ept_set_entry_4k[OF ok gfn res walk set]
  consider (early) "ret < 0" "r = ret" "q = p1"
    | (walked) "r \<le> 0" "r = 0 \<longrightarrow> rc = 0" "max_mapped_pfn q = max_mapped_pfn p1" "ept_root (table q) = tbl"
    unfolding same(2) by blast
  then show ?thesis
  proof cases
    case early
    with same show ?thesis by simp
  next
    case walked
    note w = ept_walked[OF same(1) gfn[folded same(2)] u walked(3,4), unfolded same(3)]
    show ?thesis
    proof (cases reached)
      case None
      with w walked same(2) show ?thesis by auto
    next
      case (Some x)
      obtain s node where x: "x = (s, node)" by fastforce
      obtain rc' node' where "?upd s node = (rc', node')" by fastforce
      with w Some x walked same(2) show ?thesis by (intro conjI disjI2) auto
    qed
  qed
qed

lemma ept_set_any:
  assumes ok: "ept_ok env p" and gfn: "gfn \<le> max_mapped_pfn p" and a: "a \<noteq> p2m_access_n"
    and t: "\<not> p2m_is_pod t" "t \<noteq> p2m_invalid" "unat mfn < 2 ^ 40 \<and> \<not> p2m_is_broken t \<or> mfn = INVALID_MFN \<and> t \<noteq> p2m_mmio_direct"
    and set: "set_entry (ept_ops env) p gfn mfn PAGE_ORDER_4K t a (- 1) = (r, q)"
  shows "ept_ok env q \<and> r \<le> 0 \<and> max_mapped_pfn q = max_mapped_pfn p
    \<and> (\<forall>g. g \<noteq> gfn \<longrightarrow> p2m_view (ept_ops env) q g = p2m_view (ept_ops env) p g)
    \<and> p2m_view (ept_ops env) q gfn \<in> insert (p2m_view (ept_ops env) p gfn) (retagged mfn a)
    \<and> (r = 0 \<longrightarrow> p2m_view (ept_ops env) q gfn \<in> retagged mfn a)
    \<and> (r = 0 \<and> ev_mfn_valid env mfn \<longrightarrow> p2m_view (ept_ops env) q gfn = (mfn, a))"
proof -
  have inv: "\<not> ev_mfn_valid env INVALID_MFN" using ok by (simp add: ept_ok_def ept_env_ok_def)
  note f = ept_set_frame[OF ok gfn a t(1) set]
  from f consider "p2m_view (ept_ops env) q gfn = p2m_view (ept_ops env) p gfn" "r \<noteq> 0"
    | s node rc node' where "ept_update env 0 gfn mfn t a (- 1) s node = (rc, node')" "r = 0 \<longrightarrow> rc = 0"
      "leaf_view 0 (node_entry node) 0 = p2m_view (ept_ops env) p gfn"
      "p2m_view (ept_ops env) q gfn = leaf_view 0 (node_entry node') 0" by blast
  then show ?thesis
  proof cases
    case 1
    with f show ?thesis by simp
  next
    case 2
    from ept_update_view[OF a t inv 2(1)] 2(2-4) f show ?thesis by (auto simp: retagged_def)
  qed
qed

lemma ept_set_contract:
  assumes ok: "ept_ok env p" and gfn: "gfn \<le> max_mapped_pfn p" and a: "a \<noteq> p2m_access_n"
    and get: "p2m_get_gfn_type_access (ept_ops env) p gfn = (mfn, t, a0, order)"
    and set: "set_entry (ept_ops env) p gfn mfn PAGE_ORDER_4K t a (- 1) = (r, q)"
  shows "ept_ok env q \<and> r \<le> 0 \<and> max_mapped_pfn q = max_mapped_pfn p
    \<and> (\<forall>g. g \<noteq> gfn \<longrightarrow> p2m_view (ept_ops env) q g = p2m_view (ept_ops env) p g)
    \<and> p2m_view (ept_ops env) q gfn \<in> insert (p2m_view (ept_ops env) p gfn) (retagged mfn a)
    \<and> (r = 0 \<longrightarrow> p2m_view (ept_ops env) q gfn \<in> retagged mfn a)
    \<and> (r = 0 \<and> ev_mfn_valid env mfn \<longrightarrow> p2m_view (ept_ops env) q gfn = (mfn, a))"
  using get_gfn_ok[OF ok gfn get] by (intro ept_set_any[OF ok gfn a _ _ _ set]) (auto simp: p2m_is_pod_def)

interpretation ept: p2m_table "ept_ops env" "ept_ok env" "ev_mfn_valid env"
proof
  show "ept_ok env p \<Longrightarrow> \<not> ev_mfn_valid env INVALID_MFN" for p by (simp add: ept_ok_def ept_env_ok_def)
  show "set_entry (ept_ops env) p gfn mfn order t a sve = (- EINVAL, p)"
    if "ept_ok env p" "2 ^ 45 \<le> gfn" for p gfn mfn order t a sve
  proof -
    have "2 ^ 45 \<le> unat gfn" using that(2) by (simp add: word_le_nat_alt)
    then have "drop_bit 36 gfn \<noteq> 0" by (simp add: word_unat_eq_iff unat_drop)
    then show ?thesis by (simp add: ept_ops_def ept_set_entry_def Let_def)
  qed
qed (rule ept_set_contract)

subsection \<open>What the processor enforces\<close>

text \<open>
  The processor grants an access only if every entry on the walk grants it. \<open>hw_rights\<close> is the read,
  write and execute permission it computes for a frame number.
\<close>

primrec hw_rights :: "nat \<Rightarrow> ept_table \<Rightarrow> u64 \<Rightarrow> bool \<times> bool \<times> bool" where
  "hw_rights 0 tbl rem = (let e = node_entry (tbl (unat rem)) in (e_r e, e_w e, e_x e))"
| "hw_rights (Suc l) tbl rem =
     (let node = tbl (unat (drop_bit (Suc l * EPT_TABLE_ORDER) rem));
          e = node_entry node
      in if \<not> is_epte_present e then (False, False, False)
         else if is_epte_superpage e then (e_r e, e_w e, e_x e)
         else case node_table node of
           Some t \<Rightarrow> (let (r, w, x) = hw_rights l t (take_bit (Suc l * EPT_TABLE_ORDER) rem)
                      in (e_r e \<and> r, e_w e \<and> w, e_x e \<and> x))
         | None \<Rightarrow> (False, False, False))"

lemma hw_x_only:
  assumes "tbl_ok l tbl" "unat rem < 2 ^ (Suc l * 9)" "snd (tbl_view l tbl rem) = p2m_access_x"
  shows "\<not> fst (hw_rights l tbl rem) \<and> \<not> fst (snd (hw_rights l tbl rem))"
  using assms
proof (induction l arbitrary: tbl rem)
  case 0
  then have "node_ok 0 (tbl (unat rem))" by (simp add: tbl_ok_def)
  with 0(3) show ?case
    by (auto simp: leaf_view_def ent_ok_def x_only_def Let_def split: ept_node.splits if_splits)
next
  case (Suc l)
  let ?i = "unat (drop_bit (Suc l * 9) rem)"
  have "node_ok (Suc l) (tbl ?i)" using Suc.prems index_less[OF Suc.prems(2)] by (simp add: tbl_ok_def)
  with Suc.IH[OF _ take_less[of "Suc l * 9" rem]] Suc.prems(3) show ?case
    by (cases "tbl ?i")
      (auto simp: Let_def split_beta is_epte_superpage_def tbl_ok_def sup_ok_def leaf_view_def
        readable_access_def split: if_splits)
qed

lemma hw_x_only_view:
  assumes "ept_ok env p" "p2m_view (ept_ops env) p gfn = (m, p2m_access_x)"
  shows "\<not> fst (hw_rights EPT_WL (ept_root (table p)) gfn) \<and> \<not> fst (snd (hw_rights EPT_WL (ept_root (table p)) gfn))"
proof -
  have g: "gfn \<le> max_mapped_pfn p" using assms(2) by (auto simp: ept_view not_le split: if_splits)
  then have "snd (tbl_view 3 (ept_root (table p)) gfn) = p2m_access_x"
    using assms(2) by (auto simp: ept_view split: if_splits)
  with hw_x_only[OF _ gfn_in_range[OF assms(1) g]] assms(1) show ?thesis by (simp add: ept_ok_def)
qed

end
