(* ===== verification/Xen_Sample.thy ===== *)
theory Xen_Sample
  imports Xom_Seal Ept_Proofs
begin

text \<open>
  A small concrete machine on which the theorems about the hypervisor are instantiated: a guest with
  eight 4K pages, frame numbers 0 to 7, of which 2 and 3 are execute-only. Page 3 is divided into
  subpages with subpage 0 locked, page 2 is a register-clear page.
\<close>

definition sample_env :: ept_env where
  "sample_env = \<lparr>ev_mfn_valid = (\<lambda>m. m < 0x1000), ev_emt = (\<lambda>_ _ _ _. (6, False)), ev_ept_ad = True,
     ev_exec_sp = True, ev_pml = False, ev_ioreq_wp = False, ev_ioreq_server = False, ev_snp = False,
     ev_mmio_ro = (\<lambda>_. False), ev_logdirty = (\<lambda>_ _. 0), ev_get_owner = (\<lambda>_. True),
     ev_iommu = (\<lambda>_ _ _. 0), ev_altp2m = (\<lambda>_ _ _ _ _. 0)\<rparr>"

definition sample_leaf :: "u64 \<Rightarrow> p2m_access_t \<Rightarrow> ept_node" where
  "sample_leaf mfn a = Ent (ept_p2m_type_to_flags sample_env
     (epte_zero\<lparr>e_emt := 6, e_mfn := mfn, e_access := a, e_sve := True\<rparr>))"

definition sample_dir :: ept_entry_t where
  "sample_dir = epte_zero\<lparr>e_r := True, e_w := True, e_x := True, e_sve := True\<rparr>"

definition sample_table :: ept_table where
  "sample_table = (\<lambda>i. if i < 8
     then sample_leaf (0x100 + of_nat i) (if i = 2 \<or> i = 3 then p2m_access_x else p2m_access_rwx)
     else ept_empty_table i)"

definition sample_root :: ept_table where
  "sample_root = ept_empty_table(0 := Tab sample_dir
     (ept_empty_table(0 := Tab sample_dir (ept_empty_table(0 := Tab sample_dir sample_table)))))"

definition sample_p2m :: ept_p2m where
  "sample_p2m = \<lparr>table = \<lparr>ept_root = sample_root, ept_pool = []\<rparr>, max_mapped_pfn = 7,
     default_access = p2m_access_rwx, access_required = False\<rparr>"

text \<open>Page 1 (frame 0x101) holds a command that writes one subpage, number 5; the rest is zero.\<close>

definition sample_mem :: "u64 \<Rightarrow> nat \<Rightarrow> u8" where
  "sample_mem = (\<lambda>m off. if m = 0x101 \<and> off = 0 then 1 else if m = 0x101 \<and> off = 1 then 5 else 0)"

definition sample_dom :: "ept_data xom_domain" where
  "sample_dom = \<lparr>hostp2m = Some sample_p2m, guest_mem = sample_mem,
     xom_subpages = RbNode RB_BLACK RbNull 3 1 RbNull,
     xom_reg_clear_pages = RbNode RB_BLACK RbNull 2 1 RbNull, xheap = 4, tlb_flushes = 0,
     is_hvm_domain = True, hap_enabled = True\<rparr>"

lemmas sample_defs = sample_env_def sample_leaf_def sample_dir_def sample_table_def sample_root_def
  sample_p2m_def sample_mem_def sample_dom_def

lemmas ept_eval = ept_ops_def ept_set_entry_def ept_get_entry_def resolve_misconfig_def ept_index_def
  is_epte_superpage_def is_epte_present_def is_epte_valid_def epte_zero_def p2m_is_pod_def
  p2m_is_broken_def p2m_recalc_type_def ept_update_def ept_new_entry_def atomic_write_ept_entry_def
  p2m_entry_modify_def ept_p2m_type_to_flags_def ept_access_perms_def ept_type_perms_def mfn_field_def
  need_modify_vtd_table_def p2m_get_iommu_flags_def ept_free_entry_def p2m_allows_invalid_mfn_def
  numeral_3_eq_3 Let_def ept_empty_table_def p2m_get_gfn_type_access_def

lemma sample_table_ok: "tbl_ok 0 sample_table"
proof -
  have "node_ok 0 (sample_table i)" if "i < 512" for i
  proof (cases "i < 8")
    case True
    then have "unat (0x100 + of_nat i :: u64) < 2 ^ 40" by (simp add: unat_word_ariths unat_of_nat)
    with True show ?thesis
      by (auto simp: sample_table_def sample_leaf_def ent_ok_def epte_zero_def p2m_is_pod_def)
  next
    case False
    then show ?thesis using empty_table_ok[of 0] that by (simp add: sample_table_def tbl_ok_def)
  qed
  then show ?thesis by (simp add: tbl_ok_def)
qed

lemma sample_dir_ok: "is_epte_present sample_dir \<and> \<not> e_sp sample_dir"
  by (simp add: sample_dir_def is_epte_present_def epte_zero_def)

lemma dir_table_ok: "tbl_ok l t \<Longrightarrow> tbl_ok (Suc l) (ept_empty_table(0 := Tab sample_dir t))"
  using sample_dir_ok empty_table_ok[of "Suc l"] by (auto simp: tbl_ok_def)

lemma sample_env_ok: "ept_env_ok sample_env"
  by (simp add: ept_env_ok_def sample_env_def)

lemma sample_ok: "ept_ok sample_env sample_p2m"
  using dir_table_ok[OF dir_table_ok[OF dir_table_ok[OF sample_table_ok]]] sample_env_ok
  by (simp add: ept_ok_def sample_p2m_def sample_root_def numeral_3_eq_3)

lemma small_gfn: "(g :: u64) \<le> 7 \<Longrightarrow> g = 0 \<or> g = 1 \<or> g = 2 \<or> g = 3 \<or> g = 4 \<or> g = 5 \<or> g = 6 \<or> g = 7"
  by (auto simp: word_le_nat_alt word_unat_eq_iff)

lemma sample_view:
  "p2m_view (ept_ops sample_env) sample_p2m g =
   (if g \<le> 7 then (0x100 + g, if g = 2 \<or> g = 3 then p2m_access_x else p2m_access_rwx)
    else (INVALID_MFN, p2m_access_n))"
proof (cases "g \<le> 7")
  case True
  from small_gfn[OF True] show ?thesis
    by (elim disjE) (simp_all add: p2m_view_def ept_eval sample_defs, simp flip: numeral_3_eq_3)
next
  case False
  then show ?thesis by (simp add: ept_view sample_p2m_def not_le)
qed

lemma sample_2: "p2m_view (ept_ops sample_env) sample_p2m 2 = (0x102, p2m_access_x)"
  by (simp add: sample_view)

end
