(* ===== verification/Xen_Seal.thy ===== *)
theory Xen_Seal
  imports Seal_Proofs Ept_Proofs Xen_Sample
begin

text \<open>
  The hypervisor as a whole: the sealing operations of \<^verbatim>\<open>xom_seal.c\<close> running on the extended page
  tables of \<^verbatim>\<open>p2m-ept.c\<close>. The contract of the p2m is discharged by the EPT model, and the main
  theorems of the hypervisor side are stated on the composition.
\<close>

text \<open>
  The environment of a domain with EPT: \<open>env\<close> for the page tables, \<open>ref\<close> and \<open>wref\<close> say for which frames a
  page reference and a writable type reference can be taken.
\<close>

definition xen_env :: "ept_env \<Rightarrow> (u64 \<Rightarrow> bool) \<Rightarrow> (u64 \<Rightarrow> bool) \<Rightarrow> ept_data xom_env" where
  "xen_env env ref wref =
     \<lparr>p2m_fns = ept_ops env, mfn_valid = ev_mfn_valid env, get_page = ref, get_page_type = wref\<rparr>"

lemma xen_env_sel [simp]:
  "p2m_fns (xen_env env ref wref) = ept_ops env" "mfn_valid (xen_env env ref wref) = ev_mfn_valid env"
  by (simp_all add: xen_env_def)

interpretation xen: seal "xen_env env ref wref" "ept_ok env"
  unfolding seal_def xen_env_sel by (rule ept.p2m_table_axioms)

abbreviation xom_ok :: "ept_env \<Rightarrow> ept_data xom_domain \<Rightarrow> bool" where
  "xom_ok env \<equiv> dom_ok (ept_ok env)"

abbreviation ept_view_of :: "ept_env \<Rightarrow> ept_p2m \<Rightarrow> u64 \<Rightarrow> u64 \<times> p2m_access_t" where
  "ept_view_of env \<equiv> p2m_view (ept_ops env)"


text \<open>The sample machine, on which every reference can be taken.\<close>

abbreviation sample_xen :: "ept_data xom_env" where
  "sample_xen \<equiv> xen_env sample_env (\<lambda>_. True) (\<lambda>_. True)"

lemmas sample_op_eval = xen_env_def sample_defs set_access_single_def p2m_set_mem_access_single_def
  get_page_from_gfn_def p2m_get_page_from_gfn_def p2m_is_ram_def ept_eval

text \<open>The same domain with another content of the execute-only page 2.\<close>

definition sample_dom2 :: "ept_data xom_domain" where
  "sample_dom2 = sample_dom\<lparr>guest_mem := sample_mem(0x102 := (\<lambda>_. 0xc3))\<rparr>"

lemma sample_dom_ok: "xom_ok sample_env sample_dom"
  using sample_ok by (simp add: dom_ok_def sample_dom_def page_inv_def rb_valid_def page_keys_def)

lemma sample_forget [simp]:
  "forget_page (RbNode RB_BLACK RbNull 3 v RbNull) h 2 = Some (RbNode RB_BLACK RbNull 3 v RbNull, h)"
  "forget_page (RbNode RB_BLACK RbNull 2 v RbNull) h 2 = Some (RbNull, Suc h)"
  by (simp_all add: forget_page_def get_page_info_entry_def rm_page_info_entry_def rb_erase.simps)

lemma sample_dom_p2m: "hostp2m sample_dom = Some sample_p2m"
  by (simp add: sample_dom_def)

subsection \<open>Sealed contents are not observable\<close>

text \<open>
  C1: non-interference. Two domains that differ at most in the contents of frames that are only mapped
  execute-only give, for every array of operations, every preemption behaviour and every success or
  failure of the reference counting, the same return code and the same number of completed operations,
  and end in two domains that again differ at most in this way. The dispatcher never faults. The side
  condition is that no subpage write takes its command from an execute-only page.
\<close>

theorem handle_xom_noninterference:
  assumes "xom_ok env d1" "low_equiv (ept_ops env) d1 d2"
    and "reads_visible (xen_env env ref wref) uops d1"
  shows "\<exists>rc n e1 e2. handle_xom_seal (xen_env env ref wref) preempt uops d1 = Some (rc, e1, n)
    \<and> handle_xom_seal (xen_env env ref wref) preempt uops d2 = Some (rc, e2, n)
    \<and> low_equiv (ept_ops env) e1 e2"
proof -
  from assms(2) have "is_hvm_domain d2 = is_hvm_domain d1" "hap_enabled d2 = hap_enabled d1"
    by (cases d1; cases d2; simp add: low_equiv_def)+
  moreover from xen.handle_xom_loop_spec[OF assms(1)] obtain rc e1 n where
    1: "handle_xom_loop (xen_env env ref wref) preempt 0 uops d1 = Some (rc, e1, n)" by blast
  moreover have low: "low_equiv (p2m_fns (xen_env env ref wref)) d1 d2" using assms(2) by simp
  from xen.handle_xom_loop_low[OF assms(1) low assms(3) 1] obtain e2 where
    "handle_xom_loop (xen_env env ref wref) preempt 0 uops d2 = Some (rc, e2, n)"
    "low_equiv (ept_ops env) e1 e2" by auto
  ultimately show ?thesis using assms(2) by (simp add: handle_xom_seal_def)
qed

theorem handle_xom_noninterference_witness:
  "guest_mem sample_dom 0x102 0 \<noteq> guest_mem sample_dom2 0x102 0 \<and>
    (\<exists>rc n e1 e2. handle_xom_seal sample_xen (\<lambda>_. False) [Some \<lparr>op_cmd = 24, op_mfn = 3, op_arg2 = 1\<rparr>] sample_dom = Some (rc, e1, n)
      \<and> handle_xom_seal sample_xen (\<lambda>_. False) [Some \<lparr>op_cmd = 24, op_mfn = 3, op_arg2 = 1\<rparr>] sample_dom2 = Some (rc, e2, n)
      \<and> low_equiv (ept_ops sample_env) e1 e2)"
proof -
  have "low_equiv (ept_ops sample_env) sample_dom sample_dom2"
    by (auto simp: low_equiv_def same_low_def sample_dom2_def sample_view sample_dom_def split: if_splits dest: small_gfn)
  moreover have "reads_visible sample_xen [Some \<lparr>op_cmd = 24, op_mfn = 3, op_arg2 = 1\<rparr>] sample_dom"
    by (simp add: src_visible_def sample_dom_p2m sample_view op_src_mfn_def split: option.split)
  ultimately show ?thesis
    using handle_xom_noninterference[OF sample_dom_ok] by (simp add: sample_dom2_def sample_defs)
qed

lemma clear_xom_seal_effect:
  assumes "xom_ok env d" "hostp2m d = Some p"
  shows "\<exists>ret e q. clear_xom_seal (xen_env env ref wref) d gfn nr = Some (ret, e) \<and> hostp2m e = Some q
    \<and> (\<forall>g. snd (ept_view_of env p g) = p2m_access_x \<longrightarrow> snd (ept_view_of env q g) \<noteq> p2m_access_x \<longrightarrow>
         g \<in> gfns gfn (unat nr) \<and> wiped (guest_mem e) (fst (ept_view_of env p g))
         \<and> page_alpha (xom_subpages e) g = None \<and> page_alpha (xom_reg_clear_pages e) g = None)
    \<and> (\<forall>g. g \<notin> gfns gfn (unat nr) \<longrightarrow> ept_view_of env q g = ept_view_of env p g)
    \<and> (\<forall>m. guest_mem e m \<noteq> guest_mem d m \<longrightarrow>
         wiped (guest_mem e) m \<and> (\<exists>g \<in> gfns gfn (unat nr). ept_view_of env p g = (m, p2m_access_x)))"
proof -
  from xen.clear_xom_seal_spec[OF assms, of ref wref gfn nr] obtain ret e q f where
    e: "clear_xom_seal (xen_env env ref wref) d gfn nr = Some (ret, e)" "hostp2m e = Some q"
    "e = f\<lparr>hostp2m := Some q, tlb_flushes := tlb_flushes e\<rparr>"
    and u: "unsealed (ept_ops env) (gfns gfn (unat nr)) p d q f" by auto
  from e(3) have "guest_mem e = guest_mem f" "xom_subpages e = xom_subpages f"
    "xom_reg_clear_pages e = xom_reg_clear_pages f" by (cases e; cases f; simp)+
  with e(1,2) u show ?thesis
    unfolding unsealed_def retag_def by metis
qed


lemma sample_unseal:
  "map_option (\<lambda>(r, e). (r, map_option (\<lambda>q. snd (ept_view_of sample_env q 2)) (hostp2m e)))
     (clear_xom_seal sample_xen sample_dom 2 1) = Some (0, Some p2m_access_rwx)"
  by (simp add: clear_xom_seal_def p2m_tlb_flush_def sample_op_eval p2m_view_def)


lemma set_xom_seal_effect:
  assumes "xom_ok env d" "hostp2m d = Some p"
    and "set_xom_seal (xen_env env ref wref) d gfn nr = (ret, e)"
  shows "\<exists>q. e = d\<lparr>hostp2m := Some q, tlb_flushes := tlb_flushes e\<rparr>
    \<and> (\<forall>g. g \<notin> gfns gfn (unat nr) \<longrightarrow> ept_view_of env q g = ept_view_of env p g)
    \<and> (ret = 0 \<longrightarrow> nr \<noteq> 0 \<and> (\<forall>g \<in> gfns gfn (unat nr). \<forall>m a. ept_view_of env p g = (m, a) \<longrightarrow>
         ev_mfn_valid env m \<longrightarrow> ept_view_of env q g = (m, p2m_access_x)
           \<and> (\<exists>x. hw_rights EPT_WL (ept_root (table q)) g = (False, False, x))))"
proof -
  from xen.set_xom_seal_spec[OF assms(1,2,3)] obtain q where
    q: "e = d\<lparr>hostp2m := Some q, tlb_flushes := tlb_flushes e\<rparr>" "xom_ok env e"
    "retag (ept_ops env) p2m_access_x (gfns gfn (unat nr)) p q"
    and z: "ret = 0 \<Longrightarrow> nr \<noteq> 0 \<and> (\<forall>g \<in> gfns gfn (unat nr).
       ept_view_of env q g \<in> sealed_as (xen_env env ref wref) (ept_view_of env p g) p2m_access_x)"
    by auto
  have "hostp2m e = Some q" by (subst q(1)) simp
  with q(2) have ok: "ept_ok env q" by (simp add: dom_ok_def)
  have "\<exists>x. hw_rights EPT_WL (ept_root (table q)) g = (False, False, x)"
    if "ept_view_of env q g = (m, p2m_access_x)" for g m
    using hw_x_only_view[OF ok that] by (cases "hw_rights EPT_WL (ept_root (table q)) g") auto
  moreover have "ept_view_of env q g = (m, p2m_access_x)"
    if "ret = 0" "g \<in> gfns gfn (unat nr)" "ept_view_of env p g = (m, a)" "ev_mfn_valid env m" for g m a
    using z[OF that(1)] that(2-4) by (fastforce simp: sealed_as_def)
  ultimately show ?thesis using q(1,3) z by (intro exI[of _ q]) (auto simp: retag_def)
qed

text \<open>
  C11: sealing. On success every page of the (non-empty) range that had a valid frame keeps that frame and is
  execute-only; the processor then grants neither reads nor writes on it. Pages outside the range keep frame
  and rights, on failure as well, and of the rest of the domain only the count of TLB flushes may change.
\<close>

theorem set_xom_seal_seals:
  assumes "xom_ok env d" "hostp2m d = Some p"
    and "set_xom_seal (xen_env env ref wref) d gfn nr = (ret, e)"
  shows "\<exists>q. e = d\<lparr>hostp2m := Some q, tlb_flushes := tlb_flushes e\<rparr>
    \<and> (\<forall>g. g \<notin> gfns gfn (unat nr) \<longrightarrow> ept_view_of env q g = ept_view_of env p g)
    \<and> (ret = 0 \<longrightarrow> nr \<noteq> 0 \<and> (\<forall>g \<in> gfns gfn (unat nr). \<forall>m a. ept_view_of env p g = (m, a) \<longrightarrow>
         ev_mfn_valid env m \<longrightarrow> ept_view_of env q g = (m, p2m_access_x)
           \<and> (\<exists>x. hw_rights EPT_WL (ept_root (table q)) g = (False, False, x))))"
  using assms by (rule set_xom_seal_effect)

lemma sample_seal: "fst (set_xom_seal sample_xen sample_dom 5 1) = 0"
  by (simp add: set_xom_seal_def sample_op_eval)

theorem set_xom_seal_seals_witness:
  "\<exists>e q. set_xom_seal sample_xen sample_dom 5 1 = (0, e) \<and> hostp2m e = Some q
    \<and> ept_view_of sample_env q 5 = (0x105, p2m_access_x)
    \<and> (\<exists>x. hw_rights EPT_WL (ept_root (table q)) 5 = (False, False, x))"
proof -
  obtain e where e: "set_xom_seal sample_xen sample_dom 5 1 = (0, e)"
    using sample_seal by (metis prod.collapse)
  have v: "ept_view_of sample_env sample_p2m 5 = (0x105, p2m_access_rwx)" by (simp add: sample_view)
  have m: "ev_mfn_valid sample_env 0x105" by (simp add: sample_env_def)
  have g: "5 \<in> gfns 5 (unat (1 :: u32))" by simp
  obtain q where q: "e = sample_dom\<lparr>hostp2m := Some q, tlb_flushes := tlb_flushes e\<rparr>"
    "ept_view_of sample_env q 5 = (0x105, p2m_access_x)
      \<and> (\<exists>x. hw_rights EPT_WL (ept_root (table q)) 5 = (False, False, x))"
    using set_xom_seal_seals[OF sample_dom_ok sample_dom_p2m e] g v m by blast
  have "hostp2m e = Some q" by (subst q(1)) simp
  with q e show ?thesis by blast
qed

subsection \<open>Write-once subpages\<close>



text \<open>
  C16: the effect of a subpage write. It fails and changes nothing, or the destination page had a subpage entry,
  none of the addressed subpages was locked, and then: exactly the addressed subpages become locked, bytes
  outside them keep their value, an addressed subpage holds the data of the command (when it is addressed
  once), and no other frame changes.
\<close>

theorem write_into_subpage_effect:
  assumes "xom_ok env d" "hostp2m d = Some p"
  shows "\<exists>ret e. write_into_subpage (xen_env env ref wref) d gfn_dest gfn_src = Some (ret, e) \<and> ret \<le> 0
    \<and> (ret \<noteq> 0 \<longrightarrow> e = d)
    \<and> (ret = 0 \<longrightarrow> (\<exists>ls ls' src dest wis. page_alpha (xom_subpages d) gfn_dest = Some ls
         \<and> page_alpha (xom_subpages e) = (page_alpha (xom_subpages d))(gfn_dest \<mapsto> ls')
         \<and> get_page_from_gfn (xen_env env ref wref) p gfn_src = Some src
         \<and> get_page_from_gfn (xen_env env ref wref) p gfn_dest = Some dest
         \<and> wis = command_of (guest_mem d src) \<and> length wis = unat (guest_mem d src 0)
         \<and> subpages_written wis (guest_mem d dest) ls (guest_mem e dest) ls'
         \<and> (\<forall>m. m \<noteq> dest \<longrightarrow> guest_mem e m = guest_mem d m)))"
proof -
  have "page_inv (xom_subpages d)" using assms(1) by (simp add: dom_ok_def)
  from write_into_subpage_spec[OF this assms(2), of "xen_env env ref wref" gfn_dest gfn_src] obtain ret e where
    w: "write_into_subpage (xen_env env ref wref) d gfn_dest gfn_src = Some (ret, e)" "ret \<le> 0"
    and e: "if ret \<noteq> 0 then e = d else \<exists>ls src dest sub. page_alpha (xom_subpages d) gfn_dest = Some ls
      \<and> get_page_from_gfn (xen_env env ref wref) p gfn_src = Some src
      \<and> get_page_from_gfn (xen_env env ref wref) p gfn_dest = Some dest
      \<and> unat (guest_mem d src 0) \<le> MAX_SUBPAGES_PER_CMD \<and> valid_targets ls (command_of (guest_mem d src))
      \<and> page_inv sub \<and> page_count sub = page_count (xom_subpages d) \<and> page_alpha sub = (page_alpha (xom_subpages d))
          (gfn_dest \<mapsto> snd (write_subpages (command_of (guest_mem d src)) (guest_mem d dest) ls))
      \<and> e = d\<lparr>guest_mem := (guest_mem d)
             (dest := fst (write_subpages (command_of (guest_mem d src)) (guest_mem d dest) ls)),
          xom_subpages := sub\<rparr>"
    by blast
  show ?thesis
  proof (cases "ret = 0")
    case True
    with e obtain ls src dest sub where *: "page_alpha (xom_subpages d) gfn_dest = Some ls"
      "get_page_from_gfn (xen_env env ref wref) p gfn_src = Some src"
      "get_page_from_gfn (xen_env env ref wref) p gfn_dest = Some dest"
      "unat (guest_mem d src 0) \<le> MAX_SUBPAGES_PER_CMD" "valid_targets ls (command_of (guest_mem d src))"
      "page_alpha sub = (page_alpha (xom_subpages d))
        (gfn_dest \<mapsto> snd (write_subpages (command_of (guest_mem d src)) (guest_mem d dest) ls))"
      "e = d\<lparr>guest_mem := (guest_mem d)
           (dest := fst (write_subpages (command_of (guest_mem d src)) (guest_mem d dest) ls)),
        xom_subpages := sub\<rparr>" by auto
    have "length (command_of (guest_mem d src)) = unat (guest_mem d src 0)"
      using *(4) by (simp add: command_of_def read_write_command_def)
    moreover have "xom_subpages e = sub" "guest_mem e = (guest_mem d)
        (dest := fst (write_subpages (command_of (guest_mem d src)) (guest_mem d dest) ls))"
      by (subst *(7), simp)+
    ultimately show ?thesis using w True *(1-3,6) write_subpages_written[OF *(5), of "guest_mem d dest"]
      by (intro exI[of _ ret] exI[of _ e]) fastforce
  qed (use w e in auto)
qed

theorem write_into_subpage_effect_witness:
  "\<exists>ret e. write_into_subpage sample_xen sample_dom 3 1 = Some (ret, e) \<and> (ret \<noteq> 0 \<longrightarrow> e = sample_dom)"
  using write_into_subpage_effect[OF sample_dom_ok sample_dom_p2m, of "\<lambda>_. True" "\<lambda>_. True" 3 1] by blast

subsection \<open>Invariants of the hypercall\<close>

text \<open>
  C17: the hypercall is total and keeps its invariant. From a domain with well-formed page tables and page-info
  trees, every array of operations returns (no NULL pointer is dereferenced), leaves page tables and
  trees well-formed, and loses or gains no page-info allocation.
\<close>

theorem handle_xom_seal_invariant:
  assumes "xom_ok env d"
  shows "\<exists>rc e n. handle_xom_seal (xen_env env ref wref) preempt uops d = Some (rc, e, n) \<and> xom_ok env e
    \<and> xom_budget e = xom_budget d"
  using xen.handle_xom_loop_spec[OF assms] assms by (simp add: handle_xom_seal_def)

theorem handle_xom_seal_invariant_witness:
  "\<exists>rc e n. handle_xom_seal sample_xen (\<lambda>i. i = 1)
       [Some \<lparr>op_cmd = 21, op_mfn = 4, op_arg2 = 2\<rparr>, Some \<lparr>op_cmd = 22, op_mfn = 2, op_arg2 = 1\<rparr>] sample_dom = Some (rc, e, n)
    \<and> xom_ok sample_env e \<and> xom_budget e = 6"
proof -
  have "xom_budget sample_dom = 6" by (simp add: xom_budget_def sample_dom_def page_count_def)
  with handle_xom_seal_invariant[OF sample_dom_ok] show ?thesis by metis
qed

text \<open>
  C18: every page with a register-clear entry has one of the two defined types and is execute-only (or no longer
  mapped); every run of the hypercall keeps this.
\<close>

theorem reg_clear_pages_sealed:
  assumes "xom_ok env d" "reg_clear_sealed (ept_ops env) d"
    and "handle_xom_seal (xen_env env ref wref) preempt uops d = Some (rc, e, n)"
  shows "reg_clear_sealed (ept_ops env) e"
proof (cases "is_hvm_domain d \<and> hap_enabled d")
  case True
  let ?P = "\<lambda>e. xom_ok env e \<and> reg_clear_sealed (ept_ops env) e"
  have step: "?P e'" if "?P d'" "Some op \<in> set uops" "xom_op (xen_env env ref wref) d' op = Some (r, e')" for d' op r e'
    using that xen.xom_op_spec[of env d' ref wref op] xen.xom_op_reg_clear[of env d' ref wref op r e'] by auto
  from True assms(3) have run: "handle_xom_loop (xen_env env ref wref) preempt 0 uops d = Some (rc, e, n)"
    by (simp add: handle_xom_seal_def)
  have "?P d" using assms(1,2) by blast
  from handle_xom_loop_invariant[where P = ?P, OF step this run] show ?thesis by auto
next
  case False
  with assms(2,3) show ?thesis by (auto simp: handle_xom_seal_def)
qed

theorem reg_clear_pages_sealed_witness:
  "\<exists>rc e n. handle_xom_seal sample_xen (\<lambda>_. False) [Some \<lparr>op_cmd = 22, op_mfn = 2, op_arg2 = 1\<rparr>] sample_dom = Some (rc, e, n)
    \<and> reg_clear_sealed (ept_ops sample_env) e"
proof -
  obtain rc e n where e: "handle_xom_seal sample_xen (\<lambda>_. False) [Some \<lparr>op_cmd = 22, op_mfn = 2, op_arg2 = 1\<rparr>] sample_dom = Some (rc, e, n)"
    using xen.handle_xom_loop_spec[OF sample_dom_ok] unfolding handle_xom_seal_def by metis
  have "reg_clear_sealed (ept_ops sample_env) sample_dom"
    by (auto simp: reg_clear_sealed_def sample_dom_p2m sample_view page_alpha_def) (auto simp: sample_dom_def split: if_splits)
  from reg_clear_pages_sealed[OF sample_dom_ok this e] e show ?thesis by blast
qed

end
