(* ===== verification/Ept_Main.thy ===== *)
theory Ept_Main
  imports Xen_Sample
begin

text \<open>The main theorems on the extended page tables of \<^verbatim>\<open>p2m-ept.c\<close>, with the sample machine as their instance.\<close>

text \<open>
  C20: a 4K update of \<^verbatim>\<open>ept_set_entry\<close> that keeps frame and type of an entry and gives it the rights \<open>a\<close>
  leaves every other guest frame number's translation and rights as they are, whether or not it
  fails and whatever tables it creates or superpages it splits on the way. The entry itself has its old value
  or the new rights, and on success the new rights with the same frame if that frame is valid.
\<close>

theorem ept_set_entry_rights:
  assumes "ept_ok env p" "gfn \<le> max_mapped_pfn p" "a \<noteq> p2m_access_n"
    and "p2m_get_gfn_type_access (ept_ops env) p gfn = (mfn, t, a0, order)"
    and "ept_set_entry env p gfn mfn PAGE_ORDER_4K t a (- 1) = (r, q)"
  shows "ept_ok env q \<and> r \<le> 0 \<and> max_mapped_pfn q = max_mapped_pfn p
    \<and> (\<forall>g. g \<noteq> gfn \<longrightarrow> p2m_view (ept_ops env) q g = p2m_view (ept_ops env) p g)
    \<and> p2m_view (ept_ops env) q gfn \<in> insert (p2m_view (ept_ops env) p gfn) (retagged mfn a)
    \<and> (r = 0 \<and> ev_mfn_valid env mfn \<longrightarrow> p2m_view (ept_ops env) q gfn = (mfn, a))"
  using ept_set_contract[OF assms(1-4)] assms(5) by (auto simp: ept_ops_def)

theorem ept_set_entry_rights_witness:
  "\<exists>q. ept_set_entry sample_env sample_p2m 5 0x105 PAGE_ORDER_4K p2m_ram_rw p2m_access_x (- 1) = (0, q)
    \<and> ept_ok sample_env q \<and> p2m_view (ept_ops sample_env) q 5 = (0x105, p2m_access_x)
    \<and> p2m_view (ept_ops sample_env) q 4 = (0x104, p2m_access_rwx)"
proof -
  have "p2m_get_gfn_type_access (ept_ops sample_env) sample_p2m 5 = (0x105, p2m_ram_rw, p2m_access_rwx, 0)"
    by (simp add: ept_eval sample_defs)
  moreover have "fst (ept_set_entry sample_env sample_p2m 5 0x105 PAGE_ORDER_4K p2m_ram_rw p2m_access_x (- 1)) = 0"
    by (simp add: ept_eval sample_defs)
  then obtain q where q: "ept_set_entry sample_env sample_p2m 5 0x105 PAGE_ORDER_4K p2m_ram_rw p2m_access_x (- 1) = (0, q)"
    by (metis prod.collapse)
  moreover have "ev_mfn_valid sample_env 0x105" by (simp add: sample_env_def)
  moreover have "5 \<le> max_mapped_pfn sample_p2m" by (simp add: sample_p2m_def)
  ultimately show ?thesis
    using ept_set_entry_rights[OF sample_ok, of 5 p2m_access_x "0x105" p2m_ram_rw p2m_access_rwx 0 0 q]
    by (simp add: sample_view)
qed

text \<open>
  C21: splitting a superpage of level \<open>l + 1\<close> (2M, 1G or 512G) down to a lower level keeps every
  translation: the table that replaces the entry is well-formed and maps each offset to the same frame with the
  same rights.
\<close>

theorem ept_split_super_page_same:
  assumes "sup_ok (Suc l) e" "l \<le> 3" "target \<le> l"
    and "ept_split_super_page env dflt (Suc l) target e pool = (True, node, pool')"
  shows "\<exists>ne t. node = Tab ne t \<and> is_epte_present ne \<and> \<not> is_epte_superpage ne \<and> tbl_ok l t
    \<and> (\<forall>r. unat r < 2 ^ (Suc l * 9) \<longrightarrow> tbl_view l t r = (e_mfn e + r, e_access e))"
  using split_super_page_ok[OF assms] by (simp add: splits_like_def is_epte_superpage_def)

theorem ept_split_super_page_same_witness:
  "\<exists>node ne t. ept_split_super_page sample_env p2m_access_rwx 1 0
       (epte_zero\<lparr>e_r := True, e_w := True, e_x := True, e_sp := True, e_mfn := 0x200, e_access := p2m_access_rwx\<rparr>) [7]
     = (True, node, []) \<and> node = Tab ne t \<and> tbl_view 0 t 3 = (0x203, p2m_access_rwx)"
proof -
  let ?e = "epte_zero\<lparr>e_r := True, e_w := True, e_x := True, e_sp := True, e_mfn := 0x200, e_access := p2m_access_rwx\<rparr>"
  have "sup_ok (Suc 0) ?e"
    by (simp add: sup_ok_def epte_zero_def is_epte_present_def readable_type_def readable_access_def)
  moreover obtain node where n: "ept_split_super_page sample_env p2m_access_rwx (Suc 0) 0 ?e [7] = (True, node, [])"
    by simp
  ultimately obtain ne t where "node = Tab ne t"
    "\<forall>r. unat r < 2 ^ (Suc 0 * 9) \<longrightarrow> tbl_view 0 t r = (e_mfn ?e + r, e_access ?e)"
    using ept_split_super_page_same[of 0 ?e 0] by blast
  moreover have "unat (3 :: u64) < 2 ^ (Suc 0 * 9)" "e_mfn ?e + 3 = 0x203" "e_access ?e = p2m_access_rwx" by simp_all
  ultimately show ?thesis using n unfolding One_nat_def by metis
qed

text \<open>
  C22: resolving deferred memory-type and log-dirty changes for a guest frame number
  (\<^verbatim>\<open>resolve_misconfig\<close>, which may rewrite a whole table, push a change one level down or split superpages)
  changes no translation and no access right of any guest frame number, and keeps the tables well-formed.
\<close>

theorem resolve_misconfig_transparent:
  assumes "ept_ok env p" "resolve_misconfig env p gfn = (rc, q)"
  shows "ept_ok env q \<and> max_mapped_pfn q = max_mapped_pfn p \<and> p2m_view (ept_ops env) q = p2m_view (ept_ops env) p"
  using resolve_misconfig_same[OF assms] by blast

theorem resolve_misconfig_transparent_witness:
  "ept_ok sample_env (snd (resolve_misconfig sample_env sample_p2m 2))
    \<and> p2m_view (ept_ops sample_env) (snd (resolve_misconfig sample_env sample_p2m 2)) 2 = (0x102, p2m_access_x)"
  using resolve_misconfig_transparent[OF sample_ok, of 2] by (metis (no_types, lifting) prod.collapse sample_2)

end
