(* ===== verification/Hvm_Fault.thy ===== *)
theory Hvm_Fault
  imports Xom_Seal Ept_Proofs
begin

text \<open>
  What happens when a guest touches an execute-only page: the EPT violation handler of
  \<^verbatim>\<open>hvm/vmx/vmx.c\<close>, the nested page fault handler of \<^verbatim>\<open>hvm/hvm.c\<close>, and the register clearing of
  \<^verbatim>\<open>vmx.c\<close> on the way back into a guest that was interrupted on a register-clear page.

  The environment record holds the answers of the rest of the hypervisor: nested virtualisation, the
  MMIO emulator, the vm-event ring and the monitor, CPU features. The state has the host p2m, the
  alternate view in use (if any), and the effects: injected exceptions, pages marked dirty, events sent.
  The build modelled has no memory paging and no memory sharing.
\<close>

subsection \<open>Environment and state\<close>

datatype nestedhvm_rv =
    NESTEDHVM_PAGEFAULT_DONE | NESTEDHVM_PAGEFAULT_RETRY | NESTEDHVM_PAGEFAULT_L1_ERROR
  | NESTEDHVM_PAGEFAULT_INJECT | NESTEDHVM_PAGEFAULT_MMIO | NESTEDHVM_PAGEFAULT_L0_ERROR

record 'e fault_env =
  fe_ops :: "'e p2m_ops"
  fe_1gb :: bool
  fe_2mb :: bool
  fe_nested_hap :: bool
  fe_guestmode :: bool
  fe_nested :: "u64 \<Rightarrow> npfec \<Rightarrow> nestedhvm_rv \<times> u64"
  fe_mmio_internal :: "u64 \<Rightarrow> bool"
  fe_handle_mmio :: bool
  fe_mmio_translation :: "u64 \<Rightarrow> u64 \<Rightarrow> npfec \<Rightarrow> bool"
  fe_virt_exceptions :: bool
  fe_sve :: bool
  fe_emulate_ve :: bool
  fe_ring :: bool
  fe_nopf :: bool
  fe_alloc :: bool
  fe_monitor :: "bool \<Rightarrow> mem_event \<Rightarrow> int"
  fe_hwdom :: bool
  fe_emulate_mmio :: "u64 \<Rightarrow> u64 \<Rightarrow> bool"

record 'e fault_state =
  f_host :: "'e p2m_domain"
  f_alt :: "'e p2m_domain option"
  f_exceptions :: "nat list"
  f_dirty :: "u64 list"
  f_events :: "(bool \<times> mem_event) list"
  f_crashed :: bool
  f_vmexit_pending :: bool

abbreviation (input) X86_EXC_GP :: nat where "X86_EXC_GP \<equiv> 13"

definition hvm_inject_gp :: "'e fault_state \<Rightarrow> 'e fault_state" where
  "hvm_inject_gp st = st\<lparr>f_exceptions := X86_EXC_GP # f_exceptions st\<rparr>"

text \<open>The variable \<^verbatim>\<open>p2m\<close>: the alternate view if one is active, the host p2m otherwise.\<close>

definition f_active :: "'e fault_state \<Rightarrow> 'e p2m_domain" where
  "f_active st = (case f_alt st of None \<Rightarrow> f_host st | Some ap \<Rightarrow> ap)"

definition f_set_active :: "'e fault_state \<Rightarrow> 'e p2m_domain \<Rightarrow> 'e fault_state" where
  "f_set_active st p = (case f_alt st of None \<Rightarrow> st\<lparr>f_host := p\<rparr> | Some ap \<Rightarrow> st\<lparr>f_alt := Some p\<rparr>)"

subsection \<open>The nested page fault handler\<close>

definition fault_violation :: "p2m_access_t \<Rightarrow> npfec \<Rightarrow> bool" where
  "fault_violation p2ma npf =
     (case p2ma of
        p2m_access_r \<Rightarrow> write_access npf \<or> insn_fetch npf
      | p2m_access_w \<Rightarrow> read_access npf \<or> insn_fetch npf
      | p2m_access_x \<Rightarrow> read_access npf \<or> write_access npf
      | p2m_access_rx \<Rightarrow> write_access npf
      | p2m_access_rx2rw \<Rightarrow> write_access npf
      | p2m_access_wx \<Rightarrow> read_access npf
      | p2m_access_rw \<Rightarrow> insn_fetch npf
      | p2m_access_rwx \<Rightarrow> False
      | _ \<Rightarrow> read_access npf \<or> write_access npf \<or> insn_fetch npf)"

definition p2m_is_discard_write :: "p2m_type_t \<Rightarrow> bool" where
  "p2m_is_discard_write t \<longleftrightarrow> t \<in> {p2m_ram_ro, p2m_grant_map_ro}"

text \<open>The label \<^verbatim>\<open>out\<close>: a request that was built is sent to the monitor.\<close>

definition fault_out ::
  "'e fault_env \<Rightarrow> int \<Rightarrow> bool \<Rightarrow> mem_event option \<Rightarrow> 'e fault_state \<Rightarrow> int \<times> 'e fault_state" where
  "fault_out fe rc sync req st =
     (case req of
        None \<Rightarrow> (rc, st)
      | Some e \<Rightarrow> (if fe_monitor fe sync e < 0 then 0 else rc, st\<lparr>f_events := (sync, e) # f_events st\<rparr>))"

text \<open>
  From the test for emulated MMIO to the end: \<open>fall_through\<close> is what is returned when nothing applies.
\<close>

definition fault_rest ::
  "'e fault_env \<Rightarrow> u64 \<Rightarrow> u64 \<Rightarrow> npfec \<Rightarrow> u64 \<Rightarrow> u64 \<Rightarrow> p2m_type_t \<Rightarrow> int \<Rightarrow> 'e fault_state \<Rightarrow> int \<times> 'e fault_state" where
  "fault_rest fe gpa gla npf gfn mfn p2mt fall_through st =
     (if p2mt = p2m_mmio_dm \<or> (write_access npf \<and> (p2m_is_discard_write p2mt \<or> p2mt = p2m_ioreq_server))
      then (1, if fe_mmio_translation fe gla (drop_bit PAGE_SHIFT gpa) npf then st else hvm_inject_gp st)
      else if p2m_is_ram p2mt
      then (1, if write_access npf
               then let (_, h) = p2m_change_type_one (fe_ops fe) (fe_1gb fe) (fe_2mb fe) (f_host st) gfn
                                   p2m_ram_logdirty p2m_ram_rw
                    in st\<lparr>f_host := h, f_dirty := gfn # f_dirty st\<rparr>
               else st)
      else if p2mt = p2m_mmio_direct \<and> fe_hwdom fe \<and> write_access npf \<and> npf_present npf \<and> fe_emulate_mmio fe mfn gla
      then (1, st)
      else (fall_through, st))"

text \<open>The branch \<^verbatim>\<open>if ( violation )\<close>, and what follows it.\<close>

definition fault_violated ::
  "'e fault_env \<Rightarrow> u64 \<Rightarrow> u64 \<Rightarrow> npfec \<Rightarrow> u64 \<Rightarrow> u64 \<Rightarrow> p2m_type_t \<Rightarrow> p2m_access_t \<Rightarrow> 'e fault_state \<Rightarrow> int \<times> 'e fault_state" where
  "fault_violated fe gpa gla npf gfn mfn p2mt p2ma st =
     (if p2ma = p2m_access_x then (1, hvm_inject_gp st)
      else let emulated = (f_alt st \<noteq> None \<and> \<not> fe_virt_exceptions fe);
               p2mt = (if emulated then fst (snd (get_entry (fe_ops fe) (f_active st) gfn)) else p2mt)
      in if emulated \<and> \<not> fe_sve fe \<and> fe_emulate_ve fe then (1, st)
      else let r = p2m_mem_access_check (fe_ops fe) (fe_ring fe) True (fe_nopf fe) (fe_alloc fe)
                     (f_active st) gpa gla npf;
               st = (f_set_active st (ac_p2m r))\<lparr>f_crashed := f_crashed st \<or> ac_crashed r\<rparr>
      in if ac_ret r then fault_out fe 1 True (ac_req r) st
         else let (rc, st) = fault_rest fe gpa gla npf gfn mfn p2mt 1 st
              in fault_out fe rc False (ac_req r) st)"

text \<open>From the look-up in the p2m on.\<close>

definition fault_lookup ::
  "'e fault_env \<Rightarrow> u64 \<Rightarrow> u64 \<Rightarrow> npfec \<Rightarrow> 'e fault_state \<Rightarrow> int \<times> 'e fault_state" where
  "fault_lookup fe gpa gla npf st =
     (let gfn = drop_bit PAGE_SHIFT gpa;
          (mfn, p2mt, p2ma, page_order) = p2m_get_gfn_type_access (fe_ops fe) (f_host st) gfn;
          (copied, mfn, p2mt, p2ma, page_order, st) =
            (case f_alt st of
               None \<Rightarrow> (False, mfn, p2mt, p2ma, page_order, st)
             | Some ap \<Rightarrow>
                 let (copied, crashed, mfn, p2mt, p2ma, page_order, ap) =
                   p2m_altp2m_get_or_propagate (fe_ops fe) (fe_1gb fe) (fe_2mb fe) ap gfn mfn p2mt p2ma page_order
                 in (copied, mfn, p2mt, p2ma, page_order,
                     st\<lparr>f_alt := Some ap, f_crashed := f_crashed st \<or> crashed\<rparr>))
      in if copied then (1, st)
         else if mfn = INVALID_MFN then fault_rest fe gpa gla npf gfn mfn p2mt 0 st
         else let violation = fault_violation p2ma npf
         in if page_order > 0 \<and> insn_fetch npf \<and> npf_present npf \<and> \<not> violation
            then let (res, p) = p2m_set_entry (fe_ops fe) (fe_1gb fe) (fe_2mb fe) (f_active st) gfn mfn
                                  PAGE_ORDER_4K p2mt p2ma
                 in (if res = 0 then 1 else 0, f_set_active st p)
         else if violation then fault_violated fe gpa gla npf gfn mfn p2mt p2ma st
         else fault_rest fe gpa gla npf gfn mfn p2mt 0 st)"

definition hvm_hap_nested_page_fault ::
  "'e fault_env \<Rightarrow> 'e fault_state \<Rightarrow> u64 \<Rightarrow> u64 \<Rightarrow> npfec \<Rightarrow> int \<times> 'e fault_state" where
  "hvm_hap_nested_page_fault fe st gpa gla npf =
     (let host = (\<lambda>gpa.
            if \<not> fe_guestmode fe \<and> fe_mmio_internal fe gpa
            then (1, if fe_mmio_translation fe gla (drop_bit PAGE_SHIFT gpa) npf then st else hvm_inject_gp st)
            else fault_lookup fe gpa gla npf st)
      in if \<not> fe_nested_hap fe then host gpa
         else case fe_nested fe gpa npf of
           (NESTEDHVM_PAGEFAULT_DONE, _) \<Rightarrow> (1, st)
         | (NESTEDHVM_PAGEFAULT_RETRY, _) \<Rightarrow> (1, st)
         | (NESTEDHVM_PAGEFAULT_L1_ERROR, _) \<Rightarrow> (0, st)
         | (NESTEDHVM_PAGEFAULT_INJECT, _) \<Rightarrow> (- 1, st)
         | (NESTEDHVM_PAGEFAULT_MMIO, _) \<Rightarrow> (1, if fe_handle_mmio fe then st else hvm_inject_gp st)
         | (NESTEDHVM_PAGEFAULT_L0_ERROR, gpa) \<Rightarrow> host gpa)"

subsection \<open>The EPT violation handler\<close>

text \<open>The exit qualification (\<^verbatim>\<open>ept_qual_t\<close>).\<close>

record ept_qual =
  q_read :: bool
  q_write :: bool
  q_fetch :: bool
  q_eff_read :: bool
  q_eff_write :: bool
  q_eff_exec :: bool
  q_gla_valid :: bool
  q_gla_fault :: bool

definition npfec_of :: "ept_qual \<Rightarrow> npfec" where
  "npfec_of q =
     \<lparr>read_access = q_read q \<or> q_write q, write_access = q_write q, insn_fetch = q_fetch q,
      gla_valid = q_gla_valid q, npf_present = q_eff_read q \<or> q_eff_write q \<or> q_eff_exec q,
      npf_kind = (if q_gla_valid q then if q_gla_fault q then npfec_kind_with_gla else npfec_kind_in_gpt
                  else npfec_kind_unknown)\<rparr>"

text \<open>\<open>lin\<close> is the content of \<^verbatim>\<open>GUEST_LINEAR_ADDRESS\<close>.\<close>

definition ept_handle_violation ::
  "'e fault_env \<Rightarrow> 'e fault_state \<Rightarrow> u64 \<Rightarrow> ept_qual \<Rightarrow> u64 \<Rightarrow> 'e fault_state" where
  "ept_handle_violation fe st lin q gpa =
     (let gla = (if q_gla_valid q then lin else - 1);
          (ret, st) = hvm_hap_nested_page_fault fe st gpa gla (npfec_of q)
      in if ret = 1 then st
         else if ret = - 1 then st\<lparr>f_vmexit_pending := True\<rparr>
         else st\<lparr>f_crashed := True\<rparr>)"

subsection \<open>Register clearing\<close>

record cpu_user_regs =
  r15 :: u64
  r14 :: u64
  r13 :: u64
  r12 :: u64
  rbp :: u64
  rbx :: u64
  r11 :: u64
  r10 :: u64
  r9 :: u64
  r8 :: u64
  rax :: u64
  rcx :: u64
  rdx :: u64
  rsi :: u64
  rdi :: u64
  error_code :: u32
  entry_vector :: u32
  rip :: u64
  cs :: u16
  saved_upcall_mask :: u8
  rflags :: u64
  rsp :: u64
  ss :: u16
  es :: u16
  ds :: u16
  fs :: u16
  gs :: u16

text \<open>\<^verbatim>\<open>memset(regs, 0, sizeof( *regs))\<close>.\<close>

definition regs_zero :: cpu_user_regs where
  "regs_zero = \<lparr>r15 = 0, r14 = 0, r13 = 0, r12 = 0, rbp = 0, rbx = 0, r11 = 0, r10 = 0, r9 = 0, r8 = 0,
     rax = 0, rcx = 0, rdx = 0, rsi = 0, rdi = 0, error_code = 0, entry_vector = 0, rip = 0, cs = 0,
     saved_upcall_mask = 0, rflags = 0, rsp = 0, ss = 0, es = 0, ds = 0, fs = 0, gs = 0\<rparr>"

text \<open>
  The vector registers are cleared by assembly routines that are not part of the sources; \<open>clear_avx512\<close>,
  \<open>clear_avx\<close> and \<open>clear_sse\<close> stand for them, the CPU features choose between them.
\<close>

record 'v vec_unit =
  has_avx512f :: bool
  has_avx :: bool
  has_sse3 :: bool
  clear_avx512 :: "'v \<Rightarrow> 'v"
  clear_avx :: "'v \<Rightarrow> 'v"
  clear_sse :: "'v \<Rightarrow> 'v"

definition clear_vector_regs :: "'v vec_unit \<Rightarrow> 'v \<Rightarrow> 'v" where
  "clear_vector_regs vu v =
     (if has_avx512f vu then clear_avx512 vu v
      else if has_avx vu then clear_avx vu v
      else if has_sse3 vu then clear_sse vu v
      else v)"

text \<open>
  \<open>cpl\<close> is the privilege level of the interrupted guest code; the other arguments are those of
  \<^const>\<open>get_reg_clear_type\<close>.
\<close>

definition handle_register_clear ::
  "'v vec_unit \<Rightarrow> 'e xom_domain \<Rightarrow> bool \<Rightarrow> u64 \<Rightarrow> (u64 \<Rightarrow> u64) \<Rightarrow> u8 \<Rightarrow> cpu_user_regs \<Rightarrow> 'v \<Rightarrow> cpu_user_regs \<times> 'v" where
  "handle_register_clear vu d init cs_base gva_to_gfn cpl regs v =
     (if cpl AND 2 = 0 then (regs, v)
      else let reg_clear_type = get_reg_clear_type d init cs_base gva_to_gfn (Some (rip regs))
      in if reg_clear_type = of_nat REG_CLEAR_TYPE_NONE then (regs, v)
      else let v = clear_vector_regs vu v
      in if reg_clear_type = of_nat REG_CLEAR_TYPE_VECTOR
         then (regs\<lparr>r14 := 0xbabababababababa, r15 := 0xbabababababababa\<rparr>, v)
         else (regs_zero\<lparr>rsp := rsp regs, rbp := rbp regs, r15 := 0xdadadadadadadada\<rparr>, v))"

end
