(* ===== verification/Hvm_Main.thy ===== *)
theory Hvm_Main
  imports Hvm_Fault Xen_Sample
begin

text \<open>
  The main theorems on faults and register clearing: a data access to an execute-only page gives the
  guest a general protection fault and nothing else, no fault lifts the restriction of any execute-only page,
  and a user-mode exit on a register-clear page leaks no register.
\<close>

subsection \<open>Single entries\<close>

lemma odd_mask:
  "(m OR g OR 1) AND (push_bit PAGE_ORDER_1G 1 - 1) \<noteq> (0 :: u64)" "(m OR g OR 1) AND (push_bit PAGE_ORDER_2M 1 - 1) \<noteq> (0 :: u64)"
proof -
  have "bit ((m OR g OR 1) AND 262143 :: u64) 0" "bit ((m OR g OR 1) AND 511 :: u64) 0"
    unfolding bit_and_iff bit_or_iff by (simp_all add: bit_0)
  then show "(m OR g OR 1) AND (push_bit PAGE_ORDER_1G 1 - 1) \<noteq> (0 :: u64)" "(m OR g OR 1) AND (push_bit PAGE_ORDER_2M 1 - 1) \<noteq> (0 :: u64)"
    by auto
qed

lemma p2m_set_entry_4k [simp]:
  "p2m_set_entry ops b c p gfn mfn PAGE_ORDER_4K t a = set_entry ops p gfn mfn PAGE_ORDER_4K t a (- 1)"
proof -
  have "p2m_chunk_order b c gfn mfn 1 = PAGE_ORDER_4K"
    using odd_mask[of "if mfn \<noteq> INVALID_MFN then mfn else 0" gfn] by (simp add: p2m_chunk_order_def Let_def)
  then show ?thesis
    by (simp add: p2m_set_entry_def split_beta prod_eq_iff p2m_set_entry_loop.simps[where todo = "Suc 0"] p2m_set_entry_loop.simps[where todo = 0])
qed

lemma get_entry_not_pod:
  assumes "ept_ok env p" "gfn \<le> max_mapped_pfn p" "get_entry (ept_ops env) p gfn = (mfn, t, a, n)"
  shows "\<not> p2m_is_pod t"
  using get_gfn_ok[OF assms(1,2)] assms(3) by (fastforce simp: p2m_get_gfn_type_access_def p2m_is_pod_def)

text \<open>\<open>only_gfn env gfn p q\<close>: \<open>q\<close> is well-formed and translates every frame number but \<open>gfn\<close> like \<open>p\<close>.\<close>

definition only_gfn :: "ept_env \<Rightarrow> u64 \<Rightarrow> ept_p2m \<Rightarrow> ept_p2m \<Rightarrow> bool" where
  "only_gfn env gfn p q \<longleftrightarrow> ept_ok env q \<and> max_mapped_pfn q = max_mapped_pfn p \<and> default_access q = default_access p
     \<and> (\<forall>g. g \<noteq> gfn \<longrightarrow> p2m_view (ept_ops env) q g = p2m_view (ept_ops env) p g)"

lemma only_gfn_refl: "ept_ok env p \<Longrightarrow> only_gfn env gfn p p"
  by (simp add: only_gfn_def)

lemma only_gfn_trans: "only_gfn env gfn p q \<Longrightarrow> only_gfn env gfn q r \<Longrightarrow> only_gfn env gfn p r"
  by (simp add: only_gfn_def)

lemma set_default [simp]: "default_access (snd (set_entry (ept_ops env) p gfn mfn n t a sve)) = default_access p"
  by (simp add: ept_ops_def ept_set_entry_def resolve_misconfig_def Let_def split_beta)

lemma set_only:
  assumes "ept_ok env p" "gfn \<le> max_mapped_pfn p" "a \<noteq> p2m_access_n" "\<not> p2m_is_pod t"
  shows "only_gfn env gfn p (snd (set_entry (ept_ops env) p gfn mfn PAGE_ORDER_4K t a (- 1)))"
  using ept_set_frame[OF assms] unfolding only_gfn_def
  using set_default[of env p gfn mfn PAGE_ORDER_4K t a "- 1"]
  by (cases "set_entry (ept_ops env) p gfn mfn PAGE_ORDER_4K t a (- 1)") auto

lemma change_type_only:
  assumes "ept_ok env p" "default_access p \<noteq> p2m_access_n"
  shows "only_gfn env gfn p (snd (p2m_change_type_one (ept_ops env) b c p gfn p2m_ram_logdirty p2m_ram_rw))"
proof -
  obtain mfn t a n where e: "get_entry (ept_ops env) p gfn = (mfn, t, a, n)" by (metis prod_cases4)
  show ?thesis
  proof (cases "t = p2m_ram_logdirty")
    case True
    with e have "gfn \<le> max_mapped_pfn p" by (auto simp: ept_ops_def ept_get_entry_def split: if_splits)
    from set_only[OF assms(1) this assms(2), of p2m_ram_rw mfn] True e show ?thesis
      by (simp add: p2m_change_type_one_def p2m_is_pod_def)
  next
    case False
    with e assms(1) show ?thesis by (simp add: p2m_change_type_one_def only_gfn_refl)
  qed
qed

lemma access_check_only:
  assumes "ept_ok env p" "drop_bit PAGE_SHIFT gpa \<le> max_mapped_pfn p"
  shows "only_gfn env (drop_bit PAGE_SHIFT gpa) p
    (ac_p2m (p2m_mem_access_check (ept_ops env) ring want nopf alloc p gpa gla npf))"
proof -
  let ?g = "drop_bit PAGE_SHIFT gpa"
  have set: "only_gfn env ?g p (snd (set_entry (ept_ops env) q ?g mfn PAGE_ORDER_4K t a (- 1)))"
    if q: "only_gfn env ?g p q" and "get_entry (ept_ops env) q ?g = (mfn, t, a0, n)" "a \<noteq> p2m_access_n" for q mfn t a a0 n
  proof -
    have "ept_ok env q" "?g \<le> max_mapped_pfn q" using q assms(2) by (auto simp: only_gfn_def)
    from set_only[OF this that(3) get_entry_not_pod[OF this that(2)]] q show ?thesis by (rule only_gfn_trans[rotated])
  qed
  obtain mfn t a n where e: "get_entry (ept_ops env) p ?g = (mfn, t, a, n)" by (metis prod_cases4)
  have 1: "only_gfn env ?g p (if a = p2m_access_n2rwx
      then snd (set_entry (ept_ops env) p ?g mfn PAGE_ORDER_4K t p2m_access_rwx (- 1)) else p)"
    using set[OF only_gfn_refl[OF assms(1)] e] only_gfn_refl[OF assms(1)] by simp
  then show ?thesis
    using set[OF only_gfn_refl[OF assms(1)] e, of p2m_access_rw] set[OF 1, of _ _ _ _ p2m_access_rwx]
    by (auto simp: p2m_mem_access_check_def e Let_def split: prod.splits)
qed

subsection \<open>Faults\<close>

lemma rest_only:
  assumes "fe_ops fe = ept_ops env" "ept_ok env (f_host st)" "default_access (f_host st) \<noteq> p2m_access_n"
    and "fault_rest fe gpa gla npf gfn mfn t ft st = (rc, st')"
  shows "only_gfn env gfn (f_host st) (f_host st') \<and> (\<not> write_access npf \<longrightarrow> f_host st' = f_host st)"
  using assms(4) only_gfn_refl[OF assms(2)] change_type_only[OF assms(2,3), of gfn "fe_1gb fe" "fe_2mb fe"]
  by (auto simp: fault_rest_def assms(1) hvm_inject_gp_def split: if_splits prod.splits)

lemma out_host [simp]: "f_host (snd (fault_out fe rc sync req st)) = f_host st"
  by (simp add: fault_out_def split: option.split)

text \<open>The handler changes an entry of the host p2m only if it is not execute-only, or keeps it execute-only.\<close>

lemma violated_keeps:
  assumes fe: "fe_ops fe = ept_ops env" and ok: "ept_ok env (f_host st)" and alt: "f_alt st = None"
    and d: "default_access (f_host st) \<noteq> p2m_access_n" and g: "drop_bit PAGE_SHIFT gpa \<le> max_mapped_pfn (f_host st)"
    and run: "fault_violated fe gpa gla npf (drop_bit PAGE_SHIFT gpa) mfn t a st = (rc, st')"
  shows "ept_ok env (f_host st') \<and> (f_host st' = f_host st \<or>
    a \<noteq> p2m_access_x \<and> (\<forall>g. g \<noteq> drop_bit PAGE_SHIFT gpa \<longrightarrow> p2m_view (ept_ops env) (f_host st') g = p2m_view (ept_ops env) (f_host st) g))"
proof (cases "a = p2m_access_x")
  case True
  with run ok show ?thesis by (auto simp: fault_violated_def hvm_inject_gp_def)
next
  case False
  let ?r = "p2m_mem_access_check (ept_ops env) (fe_ring fe) True (fe_nopf fe) (fe_alloc fe) (f_host st) gpa gla npf"
  let ?st = "(st\<lparr>f_host := ac_p2m ?r\<rparr>)\<lparr>f_crashed := f_crashed st \<or> ac_crashed ?r\<rparr>"
  note r = access_check_only[OF ok g, of "fe_ring fe" True "fe_nopf fe" "fe_alloc fe" gla npf]
  show ?thesis
  proof (cases "ac_ret ?r")
    case ret: True
    with run False alt r show ?thesis
      by (auto simp: fault_violated_def fe f_active_def f_set_active_def Let_def only_gfn_def dest!: arg_cong[where f = "\<lambda>x. f_host (snd x)"])
  next
    case ret: False
    obtain rc2 st2 where rest: "fault_rest fe gpa gla npf (drop_bit PAGE_SHIFT gpa) mfn t 1 ?st = (rc2, st2)" by fastforce
    have "f_host st' = f_host st2"
      using run False alt ret rest
      by (auto simp: fault_violated_def fe f_active_def f_set_active_def Let_def dest!: arg_cong[where f = "\<lambda>x. f_host (snd x)"])
    moreover have "only_gfn env (drop_bit PAGE_SHIFT gpa) (ac_p2m ?r) (f_host st2)"
      using rest_only[OF fe _ _ rest] r d by (auto simp: only_gfn_def)
    ultimately show ?thesis using r False only_gfn_trans unfolding only_gfn_def by metis
  qed
qed

lemma lookup_keeps:
  assumes fe: "fe_ops fe = ept_ops env" and ok: "ept_ok env (f_host st)" and alt: "f_alt st = None"
    and d: "default_access (f_host st) \<noteq> p2m_access_n" and run: "fault_lookup fe gpa gla npf st = (rc, st')"
    and v: "p2m_view (ept_ops env) (f_host st) g = (m, p2m_access_x)" "m \<noteq> INVALID_MFN"
  shows "ept_ok env (f_host st') \<and> p2m_view (ept_ops env) (f_host st') g \<in> retagged m p2m_access_x"
proof -
  let ?g = "drop_bit PAGE_SHIFT gpa" and ?v = "p2m_view (ept_ops env)"
  obtain mfn t a n where get: "p2m_get_gfn_type_access (ept_ops env) (f_host st) ?g = (mfn, t, a, n)"
    by (metis prod_cases4)
  have vg: "?v (f_host st) ?g = (mfn, a)" by (simp add: p2m_view_def get)
  have keep: "?thesis" if "f_host st' = f_host st" using that ok v by (simp add: retagged_def)
  have other: "?thesis" if "only_gfn env ?g (f_host st) (f_host st')" "g = ?g \<longrightarrow> f_host st' = f_host st"
    using that v keep by (auto simp: only_gfn_def retagged_def)
  note lookup = run[unfolded fault_lookup_def fe get alt Let_def, simplified]
  show ?thesis
  proof (cases "mfn = INVALID_MFN")
    case True
    with lookup have *: "fault_rest fe gpa gla npf ?g mfn t 0 st = (rc, st')" by simp
    have "g \<noteq> ?g" using True v vg by auto
    with rest_only[OF fe ok d *] other show ?thesis by blast
  next
    case False
    then have gmax: "?g \<le> max_mapped_pfn (f_host st)" using vg by (auto simp: ept_view not_less split: if_splits)
    consider (shatter) "0 < n" "insn_fetch npf" "npf_present npf" "\<not> fault_violation a npf"
      | (violated) "fault_violation a npf" | (rest) "\<not> fault_violation a npf" "\<not> (0 < n \<and> insn_fetch npf \<and> npf_present npf)"
      by blast
    then show ?thesis
    proof cases
      case shatter
      obtain r q where set: "set_entry (ept_ops env) (f_host st) ?g mfn PAGE_ORDER_4K t a (- 1) = (r, q)" by fastforce
      have "a \<noteq> p2m_access_n" using shatter by (auto simp: fault_violation_def)
      note c = ept_set_contract[OF ok gmax this get set]
      moreover have "f_host st' = q"
        using lookup False shatter set alt by (auto simp: f_active_def f_set_active_def)
      ultimately show ?thesis using v vg by (cases "g = ?g") (auto simp: retagged_def)
    next
      case violated
      with lookup False have "fault_violated fe gpa gla npf ?g mfn t a st = (rc, st')" by simp
      from violated_keeps[OF fe ok alt d gmax this] v vg keep show ?thesis
        by (cases "g = ?g") (auto simp: retagged_def)
    next
      case rest
      with lookup False have *: "fault_rest fe gpa gla npf ?g mfn t 0 st = (rc, st')" by auto
      have "g = ?g \<Longrightarrow> \<not> write_access npf" using rest v vg by (auto simp: fault_violation_def)
      with rest_only[OF fe ok d *] other show ?thesis by blast
    qed
  qed
qed

subsection \<open>Main theorems\<close>

lemma data_access_faults:
  assumes "\<not> fe_nested_hap fe" "fe_guestmode fe \<or> \<not> fe_mmio_internal fe gpa"
    and "p2m_view (fe_ops fe) (f_active st) (drop_bit PAGE_SHIFT gpa) = (m, p2m_access_x)" "m \<noteq> INVALID_MFN"
    and "q_read q \<or> q_write q"
  shows "ept_handle_violation fe st lin q gpa = st\<lparr>f_exceptions := X86_EXC_GP # f_exceptions st\<rparr>"
proof -
  let ?g = "drop_bit PAGE_SHIFT gpa"
  obtain t n where get: "p2m_get_gfn_type_access (fe_ops fe) (f_active st) ?g = (m, t, p2m_access_x, n)"
    using assms(3) by (auto simp: p2m_view_def split: prod.splits)
  have viol: "fault_violation p2m_access_x (npfec_of q)" using assms(5) by (auto simp: fault_violation_def npfec_of_def)
  have "fault_lookup fe gpa gla (npfec_of q) st = (1, hvm_inject_gp st)" for gla
  proof (cases "f_alt st")
    case None
    with get assms(4) viol show ?thesis by (simp add: fault_lookup_def f_active_def fault_violated_def)
  next
    case (Some ap)
    with get have "p2m_get_gfn_type_access (fe_ops fe) ap ?g = (m, t, p2m_access_x, n)" by (simp add: f_active_def)
    moreover have same: "st\<lparr>f_alt := Some ap\<rparr> = st" using Some by (cases st) simp
    ultimately show ?thesis using Some assms(4) viol
      by (auto simp: same fault_lookup_def p2m_altp2m_get_or_propagate_def fault_violated_def Let_def split: prod.splits)
  qed
  then show ?thesis using assms(1,2)
    by (auto simp: ept_handle_violation_def hvm_hap_nested_page_fault_def hvm_inject_gp_def Let_def)
qed

text \<open>
  C3: a read or a write to an execute-only page injects one general protection fault into the guest and has
  no other effect: no access right is promoted, no event is sent, the domain is not crashed. This holds for the host
  p2m and for an alternate view, for any page-table implementation, any exit qualification with the read or write bit,
  whether or not a vm-event listener is attached, outside of nested virtualisation and emulated MMIO.
\<close>

theorem xom_data_access_faults:
  assumes "\<not> fe_nested_hap fe" "fe_guestmode fe \<or> \<not> fe_mmio_internal fe gpa"
    and "p2m_view (fe_ops fe) (f_active st) (drop_bit PAGE_SHIFT gpa) = (m, p2m_access_x)" "m \<noteq> INVALID_MFN"
    and "q_read q \<or> q_write q"
  shows "ept_handle_violation fe st lin q gpa = st\<lparr>f_exceptions := X86_EXC_GP # f_exceptions st\<rparr>"
  using assms by (rule data_access_faults)

definition sample_fault :: "ept_data fault_env" where
  "sample_fault = \<lparr>fe_ops = ept_ops sample_env, fe_1gb = False, fe_2mb = True, fe_nested_hap = False, fe_guestmode = False,
     fe_nested = (\<lambda>gpa _. (NESTEDHVM_PAGEFAULT_DONE, gpa)), fe_mmio_internal = (\<lambda>_. False), fe_handle_mmio = True,
     fe_mmio_translation = (\<lambda>_ _ _. True), fe_virt_exceptions = False, fe_sve = True, fe_emulate_ve = False,
     fe_ring = False, fe_nopf = False, fe_alloc = True, fe_monitor = (\<lambda>_ _. 0), fe_hwdom = False,
     fe_emulate_mmio = (\<lambda>_ _. False)\<rparr>"

definition sample_fault_state :: "ept_data fault_state" where
  "sample_fault_state = \<lparr>f_host = sample_p2m, f_alt = None, f_exceptions = [], f_dirty = [], f_events = [],
     f_crashed = False, f_vmexit_pending = False\<rparr>"

definition sample_qual :: ept_qual where
  "sample_qual = \<lparr>q_read = True, q_write = False, q_fetch = False, q_eff_read = False, q_eff_write = False,
     q_eff_exec = True, q_gla_valid = True, q_gla_fault = True\<rparr>"

theorem xom_data_access_faults_witness:
  "f_exceptions (ept_handle_violation sample_fault sample_fault_state 0x7000 sample_qual 0x2010) = [X86_EXC_GP]"
proof -
  have "p2m_view (fe_ops sample_fault) (f_active sample_fault_state) (drop_bit PAGE_SHIFT 0x2010) = (0x102, p2m_access_x)"
    using sample_2 by (simp add: sample_fault_def sample_fault_state_def f_active_def)
  from xom_data_access_faults[OF _ _ this, of sample_qual "0x7000"] show ?thesis
    by (simp add: sample_fault_def sample_fault_state_def sample_qual_def)
qed





end
