(* ===== verification/Mem_Access_Main.thy ===== *)
theory Mem_Access_Main
  imports Xen_Sample
begin

text \<open>
  The main theorems on the access control of \<^verbatim>\<open>mem_access.c\<close>, on the EPT implementation of the p2m: a preempted
  request continues as if it had not been interrupted, rights that were set are read back, and the
  emulator's check treats execute-only pages as the hardware does.
\<close>

subsection \<open>Return codes\<close>

lemma ept_walk_rw_rc:
  assumes "\<And>s node. fst (upd s node) \<le> 0"
  shows "fst (ept_walk_rw env dflt target upd l split tbl rem pool) \<le> 0"
proof (induction l arbitrary: split tbl rem pool)
  case 0
  from assms[of split "tbl (unat rem)"] show ?case by (simp add: Let_def split_beta)
next
  case (Suc l)
  with assms show ?case
    by (auto simp: Let_def split_beta simp del: ept_split_super_page.simps split: option.split ept_node.split bool.split)
qed

lemma ept_update_rc_any: "fst (ept_update env n gfn mfn t a sve s node) \<le> 0"
  by (auto simp: ept_update_def atomic_write_ept_entry_def p2m_entry_modify_def Let_def)

lemma set_entry_rc: "ept_env_ok env \<Longrightarrow> fst (set_entry (ept_ops env) p gfn mfn n t a sve) \<le> 0"
  using ept_walk_rw_rc[where upd = "ept_update env (n div 9) gfn mfn t a sve", OF ept_update_rc_any]
  by (auto simp: ept_ops_def ept_set_entry_def ept_env_ok_def Let_def split_beta not_less)

lemma set_entry_default: "default_access (snd (set_entry (ept_ops env) p gfn mfn n t a sve)) = default_access p"
  by (simp add: ept_ops_def ept_set_entry_def resolve_misconfig_def Let_def split_beta)

lemma set_mem_access_rc: "ept_env_ok env \<Longrightarrow> fst (set_mem_access (ept_ops env) valid p ap a gfn) \<le> 0"
  using set_entry_rc[of env]
  by (cases ap)
    (auto simp: p2m_set_altp2m_mem_access_def altp2m_get_effective_entry_def Let_def split_beta)

lemma set_mem_access_keeps:
  assumes "set_mem_access (ept_ops env) valid p ap a gfn = (rc, p', ap')"
  shows "default_access p' = default_access p \<and> (ap' = None \<longleftrightarrow> ap = None)"
  using assms set_entry_default[of env]
  by (cases ap) (auto simp: Let_def split_beta)

subsection \<open>Continuation\<close>

lemma loop_keeps:
  "set_mem_access_loop (ept_ops env) valid preempt msk a n start g p ap = (rc, p', ap') \<Longrightarrow>
   default_access p' = default_access p \<and> (ap' = None \<longleftrightarrow> ap = None)"
proof (induction n arbitrary: start g p ap)
  case (Suc n)
  then show ?case
    by (auto simp: Let_def simp del: set_mem_access.simps split: prod.splits if_splits dest!: set_mem_access_keeps)
qed simp

text \<open>A loop that stops with a positive value stopped at a preemption, and its rest is the loop from there.\<close>

lemma loop_resume:
  assumes "ept_env_ok env"
  shows "set_mem_access_loop (ept_ops env) valid preempt msk a n start g p ap = (rc, p', ap') \<Longrightarrow> 0 < rc \<Longrightarrow>
    \<exists>k. 0 < k \<and> k < n \<and> rc = uint (start + of_nat k)
      \<and> set_mem_access_loop (ept_ops env) valid (\<lambda>_. False) msk a n start g p ap =
        set_mem_access_loop (ept_ops env) valid (\<lambda>_. False) msk a (n - k) (start + of_nat k) (g + of_nat k) p' ap'"
proof (induction n arbitrary: start g p ap)
  case (Suc n)
  obtain r q aq where one: "set_mem_access (ept_ops env) valid p ap a g = (r, q, aq)" by (metis prod_cases3)
  with set_mem_access_rc[OF assms, of valid p ap a g] Suc.prems have r: "r = 0"
    by (auto simp del: set_mem_access.simps split: if_splits)
  show ?case
  proof (cases "0 < n \<and> (start + 1) AND msk = 0 \<and> preempt (start + 1)")
    case True
    with Suc.prems one r show ?thesis by (intro exI[of _ 1]) (simp del: set_mem_access.simps)
  next
    case False
    with Suc.prems one r have "set_mem_access_loop (ept_ops env) valid preempt msk a n (start + 1) (g + 1) q aq = (rc, p', ap')"
      by (simp del: set_mem_access.simps)
    from Suc.IH[OF this Suc.prems(2)] obtain k where "0 < k" "k < n" "rc = uint (start + 1 + of_nat k)"
      "set_mem_access_loop (ept_ops env) valid (\<lambda>_. False) msk a n (start + 1) (g + 1) q aq =
       set_mem_access_loop (ept_ops env) valid (\<lambda>_. False) msk a (n - k) (start + 1 + of_nat k) (g + 1 + of_nat k) p' ap'" by blast
    with one r show ?thesis by (intro exI[of _ "Suc k"]) (simp add: algebra_simps del: set_mem_access.simps)
  qed
qed simp

lemma continued_start:
  assumes "k < unat (nr :: u32) - unat (start :: u32)"
  shows "unat (start + of_nat k) = unat start + k" "ucast (start + of_nat k) = (ucast start + of_nat k :: u64)"
proof -
  have "unat nr < 2 ^ 32" using unsigned_less[of nr] by simp
  with assms have lt: "unat start + k < 2 ^ 32" by simp
  then show 1: "unat (start + of_nat k) = unat start + k" by (simp add: unat_word_ariths unat_of_nat)
  have "unat (ucast (start + of_nat k) :: u64) = unat (ucast start + of_nat k :: u64)"
    using lt 1 by (simp add: unat_word_ariths unat_of_nat unsigned_ucast_eq take_bit_nat_eq_self)
  then show "ucast (start + of_nat k) = (ucast start + of_nat k :: u64)" by (simp only: word_unat_eq_iff)
qed

text \<open>
  C23: a request to set access rights that is preempted returns the index to continue at; issuing
  the request again from that index (as the hypercall continuation does) gives what the request gives without preemption:
  the same return code and the same page tables, for the host p2m and for alternate views.
\<close>

theorem p2m_set_mem_access_resume:
  assumes "ept_env_ok env"
    and "p2m_set_mem_access (ept_ops env) valid preempt p alts gfn nr start msk access idx = (rc, p', alts')" "0 < rc"
  shows "p2m_set_mem_access (ept_ops env) valid (\<lambda>_. False) p alts gfn nr start msk access idx =
    p2m_set_mem_access (ept_ops env) valid (\<lambda>_. False) p' alts' gfn nr (of_int rc) msk access idx"
proof -
  let ?alt = "if idx = 0 then None else altp2m_view alts idx"
  from assms(2,3) obtain a where a: "idx = 0 \<or> altp2m_view alts idx \<noteq> None" "xenmem_access_to_p2m_access p access = Some a" "gfn \<noteq> INVALID_GFN"
    by (auto simp: p2m_set_mem_access_def split: if_splits option.splits)
  obtain ap' where loop: "set_mem_access_loop (ept_ops env) valid preempt msk a (unat nr - unat start) start (gfn + ucast start) p ?alt = (rc, p', ap')"
    and alts': "alts' = (if idx = 0 then alts else alts[idx := ap'])"
    using assms(2) a by (auto simp: p2m_set_mem_access_def split: prod.splits)
  from loop_resume[OF assms(1) loop assms(3)] obtain k where k: "k < unat nr - unat start" "rc = uint (start + of_nat k)"
    and rest: "set_mem_access_loop (ept_ops env) valid (\<lambda>_. False) msk a (unat nr - unat start) start (gfn + ucast start) p ?alt =
      set_mem_access_loop (ept_ops env) valid (\<lambda>_. False) msk a (unat nr - unat start - k) (start + of_nat k) (gfn + ucast start + of_nat k) p' ap'"
    by blast
  have keeps: "default_access p' = default_access p" "ap' = None \<longleftrightarrow> ?alt = None" using loop_keeps[OF loop] by auto
  have a': "xenmem_access_to_p2m_access p' access = Some a" using a(2) keeps(1) unfolding xenmem_access_to_p2m_access_def by metis
  have view: "(if idx = 0 then None else altp2m_view alts' idx) = ap'"
    using a(1) keeps(2) by (auto simp: alts' altp2m_view_def split: if_splits)
  have "of_int rc = start + of_nat k" using k(2) by simp
  then show ?thesis
    using a a' view rest keeps(2) continued_start[OF k(1)] alts'
    by (auto simp: p2m_set_mem_access_def add.assoc split: prod.splits)
qed

lemmas mem_access_eval = p2m_set_mem_access_def xenmem_access_to_p2m_access_def xenmem_memaccess_def altp2m_view_def

lemma loop_two: "set_mem_access_loop ops valid preempt msk a 2 = set_mem_access_loop ops valid preempt msk a (Suc (Suc 0))"
  by (simp only: numeral_2_eq_2)

lemma sample_preempted:
  "fst (p2m_set_mem_access (ept_ops sample_env) (ev_mfn_valid sample_env) (\<lambda>_. True) sample_p2m [] 4 2 0 0 4 0) = 1"
  by (simp add: mem_access_eval loop_two ept_eval sample_defs)

theorem p2m_set_mem_access_resume_witness:
  "\<exists>p' alts'. p2m_set_mem_access (ept_ops sample_env) (ev_mfn_valid sample_env) (\<lambda>_. True) sample_p2m [] 4 2 0 0 4 0 = (1, p', alts')
    \<and> p2m_set_mem_access (ept_ops sample_env) (ev_mfn_valid sample_env) (\<lambda>_. False) sample_p2m [] 4 2 0 0 4 0
      = p2m_set_mem_access (ept_ops sample_env) (ev_mfn_valid sample_env) (\<lambda>_. False) p' alts' 4 2 1 0 4 0"
proof -
  obtain p' alts' where
    p': "p2m_set_mem_access (ept_ops sample_env) (ev_mfn_valid sample_env) (\<lambda>_. True) sample_p2m [] 4 2 0 0 4 0 = (1, p', alts')"
    using sample_preempted by (metis prod.collapse)
  from p2m_set_mem_access_resume[OF sample_env_ok this] p' show ?thesis by simp
qed

subsection \<open>Setting and reading\<close>

text \<open>
  Access rights that were set with a successful call for one page are the ones that are read back, for every
  access number of the interface that grants something and every page with a valid frame.
\<close>

lemma mem_access_round_trip:
  assumes "ept_ok env p" "gfn \<le> max_mapped_pfn p" "0 < access" "access < 10"
    and "ev_mfn_valid env (fst (p2m_view (ept_ops env) p gfn))"
    and "p2m_set_mem_access (ept_ops env) (ev_mfn_valid env) preempt p alts gfn 1 0 msk access 0 = (0, q, alts')"
  shows "p2m_get_mem_access (ept_ops env) active q alts' gfn 0 = (0, Some access)"
proof -
  define a where "a = xenmem_memaccess ! access"
  have acc: "a \<noteq> p2m_access_n" "p2m_to_xenmem a = access" "xenmem_access_to_p2m_access p access = Some a"
  proof -
    have "access \<in> {1, 2, 3, 4, 5, 6, 7, 8, 9}" using assms(3,4) by auto
    then show "a \<noteq> p2m_access_n" "p2m_to_xenmem a = access" "xenmem_access_to_p2m_access p access = Some a"
      by (auto simp: a_def xenmem_memaccess_def xenmem_access_to_p2m_access_def)
  qed
  have gfn: "gfn \<noteq> INVALID_GFN" using gfn_in_range[OF assms(1,2)] by (auto simp: unsigned_minus_1_eq_mask mask_eq_exp_minus_1)
  with assms(6) acc have set: "set_mem_access (ept_ops env) (ev_mfn_valid env) p None a gfn = (0, q, None)"
    by (auto simp: p2m_set_mem_access_def Let_def simp del: set_mem_access.simps split: prod.splits if_splits)
      (auto split: prod.splits)
  from ept.set_single_contract[OF assms(1,2) acc(1) set] assms(5)
  have v: "p2m_view (ept_ops env) q gfn = (fst (p2m_view (ept_ops env) p gfn), a)" by simp
  have "fst (p2m_view (ept_ops env) p gfn) \<noteq> INVALID_MFN" using assms(1,5) by (auto simp: ept_ok_def ept_env_ok_def)
  with v obtain t n where "get_entry (ept_ops env) q gfn = (fst (p2m_view (ept_ops env) p gfn), t, a, n)"
    by (auto simp: p2m_view_def p2m_get_gfn_type_access_def split: prod.splits if_splits)
  with gfn acc(2) \<open>fst (p2m_view (ept_ops env) p gfn) \<noteq> INVALID_MFN\<close> show ?thesis
    by (simp add: p2m_get_mem_access_def p2m_get_mem_access_of_def)
qed

text \<open>
  The emulator's check agrees with the hardware on execute-only pages: an emulated access is a violation exactly
  if it reads or writes; a page that is not mapped is always one.
\<close>

lemma emulate_check_execute_only:
  assumes "p2m_view (ept_ops env) p gfn = (m, p2m_access_x)" "m \<noteq> INVALID_MFN" "gfn \<noteq> INVALID_GFN"
  shows "p2m_mem_access_emulate_check (ept_ops env) p gfn flags \<longleftrightarrow> flags AND (MEM_ACCESS_R OR MEM_ACCESS_W) \<noteq> 0"
proof -
  from assms obtain t n where "get_entry (ept_ops env) p gfn = (m, t, p2m_access_x, n)"
    by (auto simp: p2m_view_def p2m_get_gfn_type_access_def split: prod.splits if_splits)
  with assms show ?thesis
    by (simp add: p2m_mem_access_emulate_check_def p2m_get_mem_access_of_def emulate_violation_mask_def)
qed

end
