(* ===== verification/Modxom.thy ===== *)
theory Modxom
  imports Xom_Seal
begin

text \<open>
  The guest kernel module, \<^verbatim>\<open>modxom/modxom.c\<close>: the file \<^verbatim>\<open>/proc/xom\<close>, through which a process maps
  pages, has them locked by the hypervisor and frees them.

  The module's own data are its list of process entries, each with its list of mappings. Everything
  else (the guest kernel, the page tables, the memory and the hypervisor behind it) is a machine of type
  \<open>'h\<close>, reached through the functions of the record \<^verbatim>\<open>kernel\<close>. A handler that touches freed memory,
  dereferences NULL or leaves an array is \<^const>\<open>None\<close>. Handlers run under \<^verbatim>\<open>file_lock\<close>.
\<close>

subsection \<open>The kernel\<close>

text \<open>
  Kernel services the module calls. Allocations report whether they succeed; \<open>k_user_byte\<close> is the user memory of the
  calling process, \<^const>\<open>None\<close> where it cannot be read; \<open>k_find_vma\<close> gives start and end of an area.
\<close>

record 'h kernel =
  k_virt_to_phys :: "u64 \<Rightarrow> u64"
  k_mmuext_op :: "mmuext_op \<Rightarrow> int \<Rightarrow> u64 \<Rightarrow> u64 \<Rightarrow> 'h \<Rightarrow> int \<times> 'h"
  k_vm_munmap :: "u64 \<Rightarrow> u64 \<Rightarrow> 'h \<Rightarrow> int \<times> 'h"
  k_remap_pfn_range :: "u64 \<Rightarrow> u64 \<Rightarrow> u64 \<Rightarrow> 'h \<Rightarrow> int \<times> 'h"
  k_get_order :: "u64 \<Rightarrow> nat"
  k_get_free_pages :: "nat \<Rightarrow> 'h \<Rightarrow> u64 \<times> 'h"
  k_free_pages :: "u64 \<Rightarrow> nat \<Rightarrow> 'h \<Rightarrow> 'h"
  k_set_reserved :: "bool \<Rightarrow> u64 \<Rightarrow> 'h \<Rightarrow> 'h"
  k_store :: "u64 \<Rightarrow> u8 list \<Rightarrow> 'h \<Rightarrow> 'h"
  k_kmalloc :: "nat \<Rightarrow> bool"
  k_user_byte :: "u64 \<Rightarrow> u8 option"
  k_user_writable :: "u64 \<Rightarrow> nat \<Rightarrow> bool"
  k_find_vma :: "u64 \<Rightarrow> 'h \<Rightarrow> (u64 \<times> u64) option"
  k_pid :: int
  k_exiting :: bool
  k_xen_hvm :: bool

text \<open>
  The slab allocations of a handler, in the order of the code: the table of frame numbers, a mapping,
  a lock array, a process entry, and the buffers for a long command and for the text of a read. \<open>k_kmalloc\<close>
  takes the index of the allocation.
\<close>

abbreviation (input) ALLOC_GFNS :: nat where "ALLOC_GFNS \<equiv> 0"
abbreviation (input) ALLOC_MAPPING :: nat where "ALLOC_MAPPING \<equiv> 1"
abbreviation (input) ALLOC_LOCK_STATUS :: nat where "ALLOC_LOCK_STATUS \<equiv> 2"
abbreviation (input) ALLOC_ENTRY :: nat where "ALLOC_ENTRY \<equiv> 3"
abbreviation (input) ALLOC_CMD :: nat where "ALLOC_CMD \<equiv> 4"
abbreviation (input) ALLOC_STRING :: nat where "ALLOC_STRING \<equiv> 5"

definition copy_from_user :: "'h kernel \<Rightarrow> u64 \<Rightarrow> nat \<Rightarrow> u8 list option" where
  "copy_from_user k addr n = those (map (\<lambda>i. k_user_byte k (addr + of_nat i)) [0..<n])"

abbreviation (input) DOMID_SELF :: u64 where "DOMID_SELF \<equiv> 0x7FF0"

subsection \<open>Data of the module\<close>

record modxom_cmd =
  cmd :: u32
  cmd_num_pages :: u32
  base_addr :: u64

abbreviation (input) MODXOM_CMD_NOP :: u32 where "MODXOM_CMD_NOP \<equiv> 0"
abbreviation (input) MODXOM_CMD_FREE :: u32 where "MODXOM_CMD_FREE \<equiv> 1"
abbreviation (input) MODXOM_CMD_LOCK :: u32 where "MODXOM_CMD_LOCK \<equiv> 2"
abbreviation (input) MODXOM_CMD_INIT_SUBPAGES :: u32 where "MODXOM_CMD_INIT_SUBPAGES \<equiv> 3"
abbreviation (input) MODXOM_CMD_WRITE_SUBPAGES :: u32 where "MODXOM_CMD_WRITE_SUBPAGES \<equiv> 4"
abbreviation (input) MODXOM_CMD_MARK_REG_CLEAR :: u32 where "MODXOM_CMD_MARK_REG_CLEAR \<equiv> 6"

text \<open>\<^verbatim>\<open>lock_status\<close> is \<^const>\<open>None\<close> for a NULL pointer.\<close>

record xom_mapping =
  num_pages :: u32
  uaddr :: u64
  kaddr :: u64
  pfn :: u64
  lock_status :: "u8 list option"
  subpage_level :: bool

text \<open>An entry that was freed while it is still linked in the list keeps its place, with \<open>pe_freed\<close> set.\<close>

record xom_process_entry =
  pe_pid :: int
  pe_mappings :: "xom_mapping list"
  pe_freed :: bool

record 'h modxom =
  xom_entries :: "xom_process_entry list"
  src_operand_page :: u64
  mach :: 'h

record vm_area =
  vm_start :: u64
  vm_end :: u64

abbreviation (input) PAGE_SIZE_UL :: u64 where "PAGE_SIZE_UL \<equiv> 4096"

definition map_len :: "xom_mapping \<Rightarrow> u64" where
  "map_len mp = ucast (num_pages mp) * PAGE_SIZE_UL"

definition in_mapping :: "u64 \<Rightarrow> xom_mapping \<Rightarrow> bool" where
  "in_mapping a mp \<longleftrightarrow> \<not> (a < uaddr mp \<or> a \<ge> uaddr mp + map_len mp)"

subsection \<open>The lock array\<close>

definition set_lock_status :: "u8 list \<Rightarrow> nat \<Rightarrow> bool \<Rightarrow> u8 list option" where
  "set_lock_status ls index val =
     (if index div 8 < length ls
      then Some (ls[index div 8 := ls ! (index div 8) AND NOT (push_bit (index mod 8) 1)
                                    OR push_bit (index mod 8) (of_bool val)])
      else None)"

fun set_lock_range :: "u8 list \<Rightarrow> nat \<Rightarrow> nat \<Rightarrow> u8 list option" where
  "set_lock_range ls index 0 = Some ls"
| "set_lock_range ls index (Suc n) = do {
     ls \<leftarrow> set_lock_status ls index True;
     set_lock_range ls (Suc index) n
   }"

definition were_pages_locked :: "xom_mapping \<Rightarrow> bool option" where
  "were_pages_locked mp = do {
     ls \<leftarrow> lock_status mp;
     (let n = unat (num_pages mp) div 8 + 1
      in if n \<le> length ls then Some (fold (OR) (take n ls) 0 > 0) else None)
   }"

subsection \<open>Hypercalls\<close>

definition hypercall :: "'h kernel \<Rightarrow> mmuext_op \<Rightarrow> int \<Rightarrow> u64 \<Rightarrow> u64 \<Rightarrow> 'h \<Rightarrow> int \<times> 'h" where
  "hypercall k op nr_ents domid gfns h = k_mmuext_op k op nr_ents gfns domid h"

text \<open>
  The inner loop of \<^verbatim>\<open>xom_invoke_xen\<close>, which extends a run of physically contiguous pages. Its counters stay
  below the 32-bit page count of the mapping and are natural numbers.
\<close>

function group_pages :: "'h kernel \<Rightarrow> xom_mapping \<Rightarrow> nat \<Rightarrow> nat \<Rightarrow> u64 \<Rightarrow> nat \<times> u64" where
  "group_pages k mp pages_locked page_c cur_gfn =
     (let page_c = page_c + 1
      in if page_c + pages_locked \<ge> unat (num_pages mp) then (page_c, cur_gfn)
         else let last_gfn = cur_gfn;
                  cur_gfn = drop_bit PAGE_SHIFT
                    (k_virt_to_phys k (kaddr mp + of_nat (pages_locked + page_c) * PAGE_SIZE_UL))
              in if last_gfn = cur_gfn - 1 then group_pages k mp pages_locked page_c cur_gfn
                 else (page_c, cur_gfn))"
  by auto
termination
  by (relation "measure (\<lambda>(k, mp, pages_locked, page_c, g). unat (num_pages mp) - (page_c + pages_locked))") auto

declare group_pages.simps [simp del]

lemma group_pages_pos: "fst (group_pages k mp l c g) > c"
proof (induction k mp l c g rule: group_pages.induct)
  case (1 k mp l c g)
  show ?case by (subst group_pages.simps) (use 1 in \<open>auto simp: Let_def intro: Suc_lessD\<close>)
qed

text \<open>The outer loop: \<^verbatim>\<open>base_gfn\<close> equals \<^verbatim>\<open>cur_gfn\<close> whenever an iteration starts.\<close>

function invoke_loop ::
  "'h kernel \<Rightarrow> xom_mapping \<Rightarrow> nat \<Rightarrow> nat \<Rightarrow> u32 \<Rightarrow> nat \<Rightarrow> u64 \<Rightarrow> u8 list \<Rightarrow> 'h
    \<Rightarrow> (int \<times> u8 list \<times> 'h) option" where
  "invoke_loop k mp page_index n mmuext_cmd pages_locked base_gfn ls h =
     (if pages_locked < n
      then let (page_c, cur_gfn) = group_pages k mp pages_locked 0 base_gfn;
               op = \<lparr>op_cmd = mmuext_cmd, op_mfn = base_gfn, op_arg2 = of_nat page_c\<rparr>;
               (status, h) = hypercall k op 1 0 DOMID_SELF h
           in if status \<noteq> 0 then Some (- EINVAL, ls, h)
              else Option.bind (set_lock_range ls (page_index + pages_locked) page_c)
                     (\<lambda>ls. invoke_loop k mp page_index n mmuext_cmd (pages_locked + page_c) cur_gfn ls h)
      else Some (0, ls, h))"
  by auto
termination
proof (relation "measure (\<lambda>(k, mp, i, n, c, pages_locked, g, ls, h). n - pages_locked)", goal_cases)
  case (2 k mp page_index n mmuext_cmd pages_locked base_gfn ls h x page_c cur_gfn op y status h' ls')
  then show ?case using group_pages_pos[of 0 k mp pages_locked base_gfn] by (metis (no_types, lifting) Pair_inject
    add_less_cancel_left case_prodI diff_less_mono2 fst_conv in_measure less_add_same_cancel1 prod.case)
qed simp

declare invoke_loop.simps [simp del]

definition xom_invoke_xen ::
  "'h kernel \<Rightarrow> xom_mapping \<Rightarrow> u32 \<Rightarrow> u32 \<Rightarrow> u32 \<Rightarrow> 'h \<Rightarrow> (int \<times> xom_mapping \<times> 'h) option" where
  "xom_invoke_xen k mp page_index n mmuext_cmd h =
     (if n = 0 then Some (0, mp, h)
      else if page_index + n > num_pages mp then Some (- EINVAL, mp, h)
      else if \<not> k_kmalloc k ALLOC_GFNS then Some (- ENOMEM, mp, h)
      else do {
        ls \<leftarrow> lock_status mp;
        (status, ls, h) \<leftarrow> invoke_loop k mp (unat page_index) (unat n) mmuext_cmd 0 (pfn mp) ls h;
        Some (status, mp\<lparr>lock_status := Some ls\<rparr>, h)
      })"

subsection \<open>Releasing\<close>

definition reserve_pages :: "'h kernel \<Rightarrow> bool \<Rightarrow> u64 \<Rightarrow> nat \<Rightarrow> 'h \<Rightarrow> 'h" where
  "reserve_pages k b addr n h = fold (\<lambda>i. k_set_reserved k b (addr + of_nat i * PAGE_SIZE_UL)) [0..<n] h"

text \<open>The part of \<^verbatim>\<open>release_mapping\<close> after the pages are unlocked.\<close>

definition release_unlocked :: "'h kernel \<Rightarrow> xom_mapping \<Rightarrow> 'h \<Rightarrow> int \<times> xom_mapping \<times> 'h" where
  "release_unlocked k mp h =
     (let h = reserve_pages k False (kaddr mp) (unat (num_pages mp)) h;
          (status, h) = (if \<not> k_exiting k then k_vm_munmap k (uaddr mp) (map_len mp) h else (0, h))
      in if status \<noteq> 0 then (status, mp, h)
         else let h = (if kaddr mp \<noteq> 0 then k_free_pages k (kaddr mp) (k_get_order k (map_len mp)) h else h)
              in (0, mp\<lparr>lock_status := None\<rparr>, h))"

definition release_mapping ::
  "'h kernel \<Rightarrow> xom_mapping \<Rightarrow> 'h \<Rightarrow> (int \<times> xom_mapping \<times> 'h) option" where
  "release_mapping k mp h = do {
     locked \<leftarrow> were_pages_locked mp;
     (status, mp, h) \<leftarrow> (if locked then xom_invoke_xen k mp 0 (num_pages mp) MMUEXT_UNMARK_XOM h
                          else Some (0, mp, h));
     Some (if status \<noteq> 0 then (status, mp, h) else release_unlocked k mp h)
   }"

text \<open>
  The walk of \<^verbatim>\<open>get_process_entry\<close>: the entries before the one found, the entry, and those after it. The outer
  \<^const>\<open>None\<close> is the read of a freed entry, the inner one a process without an entry.
\<close>

fun get_process_entry ::
  "int \<Rightarrow> xom_process_entry list
    \<Rightarrow> (xom_process_entry list \<times> xom_process_entry \<times> xom_process_entry list) option option" where
  "get_process_entry pid [] = Some None"
| "get_process_entry pid (e # es) =
     (if pe_freed e then None
      else if pe_pid e = pid then Some (Some ([], e, es))
      else map_option (map_option (\<lambda>(bs, c, as). (e # bs, c, as))) (get_process_entry pid es))"

fun release_mappings :: "'h kernel \<Rightarrow> xom_mapping list \<Rightarrow> 'h \<Rightarrow> 'h option" where
  "release_mappings k [] h = Some h"
| "release_mappings k (mp # mps) h = do {
     (_, _, h) \<leftarrow> release_mapping k mp h;
     release_mappings k mps h
   }"

definition release_process :: "'h kernel \<Rightarrow> xom_process_entry option \<Rightarrow> 'h \<Rightarrow> (int \<times> 'h) option" where
  "release_process k curr_entry h =
     (case curr_entry of
        None \<Rightarrow> Some (- EINVAL, h)
      | Some e \<Rightarrow> if pe_freed e then None
                  else map_option (\<lambda>h. (0, h)) (release_mappings k (pe_mappings e) h))"

subsection \<open>Commands\<close>

text \<open>
  The search all commands share: the first mapping of the list with the property, between the mappings
  before and after it.
\<close>

fun find_mapping ::
  "(xom_mapping \<Rightarrow> bool) \<Rightarrow> xom_mapping list \<Rightarrow> (xom_mapping list \<times> xom_mapping \<times> xom_mapping list) option" where
  "find_mapping P [] = None"
| "find_mapping P (mp # mps) =
     (if P mp then Some ([], mp, mps)
      else map_option (\<lambda>(bs, c, as). (mp # bs, c, as)) (find_mapping P mps))"

text \<open>A command of the calling process: what it does with the list of mappings of the process.\<close>

definition with_process ::
  "'h kernel \<Rightarrow> (xom_mapping list \<Rightarrow> 'h \<Rightarrow> (int \<times> xom_mapping list \<times> 'h) option) \<Rightarrow> 'h modxom
    \<Rightarrow> (int \<times> 'h modxom) option" where
  "with_process k f st = do {
     found \<leftarrow> get_process_entry (k_pid k) (xom_entries st);
     (case found of
        None \<Rightarrow> Some (- EBADF, st)
      | Some (bs, e, as) \<Rightarrow> do {
          (ret, mps, h) \<leftarrow> f (pe_mappings e) (mach st);
          Some (ret, st\<lparr>xom_entries := bs @ e\<lparr>pe_mappings := mps\<rparr> # as, mach := h\<rparr>)
        })
   }"

definition xmem_free_mappings ::
  "'h kernel \<Rightarrow> modxom_cmd \<Rightarrow> xom_mapping list \<Rightarrow> 'h \<Rightarrow> (int \<times> xom_mapping list \<times> 'h) option" where
  "xmem_free_mappings k c mps h =
     (case find_mapping (\<lambda>mp. uaddr mp = base_addr c) mps of
        None \<Rightarrow> Some (- EINVAL, mps, h)
      | Some (bs, mp, as) \<Rightarrow>
          if num_pages mp \<noteq> cmd_num_pages c then Some (- EINVAL, mps, h)
          else do {
            (status, mp, h) \<leftarrow> release_mapping k mp h;
            Some (if status \<noteq> 0 then (status, bs @ mp # as, h) else (0, bs @ as, h))
          })"

definition xmem_free :: "'h kernel \<Rightarrow> modxom_cmd \<Rightarrow> 'h modxom \<Rightarrow> (int \<times> 'h modxom) option" where
  "xmem_free k c = with_process k (xmem_free_mappings k c)"

definition lock_mappings ::
  "'h kernel \<Rightarrow> modxom_cmd \<Rightarrow> xom_mapping list \<Rightarrow> 'h \<Rightarrow> (int \<times> xom_mapping list \<times> 'h) option" where
  "lock_mappings k c mps h =
     (case find_mapping (in_mapping (base_addr c)) mps of
        None \<Rightarrow> Some (- EINVAL, mps, h)
      | Some (bs, mp, as) \<Rightarrow>
          if subpage_level mp then Some (- EINVAL, mps, h)
          else if base_addr c + ucast (cmd_num_pages c) * PAGE_SIZE_UL > uaddr mp + map_len mp
          then Some (- EINVAL, mps, h)
          else let page_index = ucast ((base_addr c - uaddr mp) div PAGE_SIZE_UL)
               in do {
                 (status, mp, h) \<leftarrow> xom_invoke_xen k mp page_index (cmd_num_pages c) MMUEXT_MARK_XOM h;
                 Some (status, bs @ mp # as, h)
               })"

definition lock_pages :: "'h kernel \<Rightarrow> modxom_cmd \<Rightarrow> 'h modxom \<Rightarrow> (int \<times> 'h modxom) option" where
  "lock_pages k c = with_process k (lock_mappings k c)"

definition init_subpages_mappings ::
  "'h kernel \<Rightarrow> modxom_cmd \<Rightarrow> xom_mapping list \<Rightarrow> 'h \<Rightarrow> (int \<times> xom_mapping list \<times> 'h) option" where
  "init_subpages_mappings k c mps h =
     (case find_mapping (in_mapping (base_addr c)) mps of
        None \<Rightarrow> Some (- EINVAL, mps, h)
      | Some (bs, mp, as) \<Rightarrow>
          if subpage_level mp then Some (- EINVAL, mps, h)
          else if base_addr c \<noteq> uaddr mp then Some (- EINVAL, mps, h)
          else if cmd_num_pages c \<noteq> num_pages mp then Some (- EINVAL, mps, h)
          else do {
            (status, mp, h) \<leftarrow> xom_invoke_xen k mp 0 (num_pages mp) MMUEXT_CREATE_XOM_SPAGES h;
            Some (status, bs @ (if status \<ge> 0 then mp\<lparr>subpage_level := True\<rparr> else mp) # as, h)
          })"

definition xom_init_subpages :: "'h kernel \<Rightarrow> modxom_cmd \<Rightarrow> 'h modxom \<Rightarrow> (int \<times> 'h modxom) option" where
  "xom_init_subpages k c = with_process k (init_subpages_mappings k c)"

text \<open>The frame behind a user address of a mapping.\<close>

definition frame_of :: "'h kernel \<Rightarrow> xom_mapping \<Rightarrow> u64 \<Rightarrow> u64" where
  "frame_of k mp a = drop_bit PAGE_SHIFT (k_virt_to_phys k (kaddr mp + (a - uaddr mp)))"

definition subpage_write_mappings ::
  "'h kernel \<Rightarrow> u64 \<Rightarrow> modxom_cmd \<Rightarrow> xom_mapping list \<Rightarrow> 'h \<Rightarrow> (int \<times> xom_mapping list \<times> 'h) option" where
  "subpage_write_mappings k src_page c mps h =
     (case find_mapping (in_mapping (base_addr c)) mps of
        None \<Rightarrow> Some (- EINVAL, mps, h)
      | Some (bs, mp, as) \<Rightarrow>
          if \<not> subpage_level mp then Some (- EINVAL, mps, h)
          else let op = \<lparr>op_cmd = MMUEXT_WRITE_XOM_SPAGES, op_mfn = frame_of k mp (base_addr c),
                         op_arg2 = drop_bit PAGE_SHIFT (k_virt_to_phys k src_page)\<rparr>;
                   (status, h) = hypercall k op 1 0 DOMID_SELF h
               in Some (if status \<noteq> 0 then - EINVAL else 0, mps, h))"

definition xom_subpage_write_xen :: "'h kernel \<Rightarrow> modxom_cmd \<Rightarrow> 'h modxom \<Rightarrow> (int \<times> 'h modxom) option" where
  "xom_subpage_write_xen k c st = with_process k (subpage_write_mappings k (src_operand_page st) c) st"

definition forward_mappings ::
  "'h kernel \<Rightarrow> u64 \<Rightarrow> u32 \<Rightarrow> u32 \<Rightarrow> xom_mapping list \<Rightarrow> 'h \<Rightarrow> (int \<times> xom_mapping list \<times> 'h) option" where
  "forward_mappings k addr mmuext_cmd arg2 mps h =
     (case find_mapping (in_mapping addr) mps of
        None \<Rightarrow> Some (- EINVAL, mps, h)
      | Some (bs, mp, as) \<Rightarrow>
          let op = \<lparr>op_cmd = mmuext_cmd, op_mfn = frame_of k mp addr, op_arg2 = ucast arg2\<rparr>;
              (status, h) = hypercall k op 1 0 DOMID_SELF h
          in Some (if status \<noteq> 0 then - EINVAL else 0, mps, h))"

definition xom_forward_to_hypervisor ::
  "'h kernel \<Rightarrow> u64 \<Rightarrow> u32 \<Rightarrow> u32 \<Rightarrow> 'h modxom \<Rightarrow> (int \<times> 'h modxom) option" where
  "xom_forward_to_hypervisor k addr mmuext_cmd arg2 st =
     (if addr AND 0xFFF \<noteq> 0 then Some (- EINVAL, st)
      else with_process k (forward_mappings k addr mmuext_cmd arg2) st)"

subsection \<open>Mapping pages\<close>

text \<open>
  \<^verbatim>\<open>get_new_mapping\<close>: the new mapping, whether the function freed the entry of the process (its \<^verbatim>\<open>fail\<close>
  path does), and the machine. \<^verbatim>\<open>(1 << (MAX_ORDER - 1)) << PAGE_SHIFT\<close> is four megabytes.
\<close>

definition get_new_mapping ::
  "'h kernel \<Rightarrow> vm_area \<Rightarrow> 'h \<Rightarrow> xom_mapping option \<times> bool \<times> 'h" where
  "get_new_mapping k vma h =
     (let size = vm_end vma - vm_start vma
      in if size mod PAGE_SIZE_UL \<noteq> 0 \<or> vm_start vma mod PAGE_SIZE_UL \<noteq> 0 \<or> size = 0 then (None, False, h)
         else if size > 0x400000 then (None, False, h)
         else if \<not> k_kmalloc k ALLOC_MAPPING then (None, False, h)
         else if \<not> k_kmalloc k ALLOC_LOCK_STATUS then (None, True, h)
         else let n_lock_status = replicate (unat (size div PAGE_SIZE_UL) div 8 + 1) 0;
                  order = k_get_order k size;
                  (newmem, h) = k_get_free_pages k order h
              in if newmem = 0 then (None, True, h)
                 else if newmem = - 1 then (None, True, k_free_pages k newmem order h)
                 else let h = reserve_pages k True newmem (unat (size div PAGE_SIZE_UL)) h;
                          h = k_store k newmem (replicate (PAGE_SIZE * 2 ^ order) 0) h;
                          pfn_val = drop_bit PAGE_SHIFT (k_virt_to_phys k newmem);
                          (status, h) = k_remap_pfn_range k (vm_start vma) pfn_val size h
                      in if status < 0 then (None, True, k_free_pages k newmem order h)
                         else (Some \<lparr>num_pages = ucast (size div PAGE_SIZE_UL), uaddr = vm_start vma,
                                 kaddr = newmem, pfn = pfn_val, lock_status = Some n_lock_status,
                                 subpage_level = False\<rparr>, False, h))"

definition intersects :: "vm_area \<Rightarrow> xom_mapping \<Rightarrow> bool" where
  "intersects vma mp \<longleftrightarrow> \<not> (vm_end vma < uaddr mp \<or> vm_start vma \<ge> uaddr mp + map_len mp)"

definition manage_mapping_intersection ::
  "'h kernel \<Rightarrow> vm_area \<Rightarrow> xom_mapping list \<Rightarrow> 'h \<Rightarrow> (int \<times> xom_mapping list \<times> 'h) option" where
  "manage_mapping_intersection k vma mps h =
     (case find_mapping (intersects vma) mps of
        None \<Rightarrow> Some (0, mps, h)
      | Some (bs, mp, as) \<Rightarrow>
          if uaddr mp < vm_start vma \<or> uaddr mp + map_len mp > vm_end vma then Some (1, mps, h)
          else do {
            (status, mp, h) \<leftarrow> release_mapping k mp h;
            Some (if status \<noteq> 0 then (status, bs @ mp # as, h) else (0, bs @ as, h))
          })"

definition xom_mmap :: "'h kernel \<Rightarrow> vm_area \<Rightarrow> 'h modxom \<Rightarrow> (int \<times> 'h modxom) option" where
  "xom_mmap k vma st =
     (if \<not> k_xen_hvm k then Some (- ENODEV, st)
      else do {
        found \<leftarrow> get_process_entry (k_pid k) (xom_entries st);
        (case found of
           None \<Rightarrow> Some (- EBADF, st)
         | Some (bs, e, as) \<Rightarrow> do {
             (status, mps, h) \<leftarrow> manage_mapping_intersection k vma (pe_mappings e) (mach st);
             (if status < 0
              then Some (status, st\<lparr>xom_entries := bs @ e\<lparr>pe_mappings := mps\<rparr> # as, mach := h\<rparr>)
              else let (new_mapping, freed, h) = get_new_mapping k vma h
                   in case new_mapping of
                        None \<Rightarrow> Some (- EINVAL,
                          st\<lparr>xom_entries := bs @ e\<lparr>pe_mappings := mps, pe_freed := freed\<rparr> # as, mach := h\<rparr>)
                      | Some mp \<Rightarrow> Some (status,
                          st\<lparr>xom_entries := bs @ e\<lparr>pe_mappings := mp # mps\<rparr> # as, mach := h\<rparr>))
           })
      })"

subsection \<open>Opening and closing the file\<close>

definition xom_open :: "'h kernel \<Rightarrow> 'h modxom \<Rightarrow> (int \<times> 'h modxom) option" where
  "xom_open k st = do {
     found \<leftarrow> get_process_entry (k_pid k) (xom_entries st);
     (if found \<noteq> None then Some (- EEXIST, st)
      else if \<not> k_kmalloc k ALLOC_ENTRY then None
      else Some (0, st\<lparr>xom_entries :=
             \<lparr>pe_pid = k_pid k, pe_mappings = [], pe_freed = False\<rparr> # xom_entries st\<rparr>))
   }"

definition xom_release :: "'h kernel \<Rightarrow> 'h modxom \<Rightarrow> (int \<times> 'h modxom) option" where
  "xom_release k st = do {
     found \<leftarrow> get_process_entry (k_pid k) (xom_entries st);
     (case found of
        None \<Rightarrow> Some (0, st)
      | Some (bs, e, as) \<Rightarrow> do {
          (status, h) \<leftarrow> release_process k (Some e) (mach st);
          Some (status, st\<lparr>xom_entries := bs @ as, mach := h\<rparr>)
        })
   }"

fun exit_entries :: "'h kernel \<Rightarrow> xom_process_entry list \<Rightarrow> 'h \<Rightarrow> 'h option" where
  "exit_entries k [] h = Some h"
| "exit_entries k (e # es) h = do {
     (_, h) \<leftarrow> release_process k (Some e) h;
     exit_entries k es h
   }"

text \<open>
  Loading and unloading. The list keeps dangling entries after \<^verbatim>\<open>modxom_exit\<close>, but nobody reads it any more.
\<close>

definition modxom_init :: "'h kernel \<Rightarrow> 'h \<Rightarrow> int \<times> 'h modxom" where
  "modxom_init k h =
     (let (page, h) = k_get_free_pages k (k_get_order k PAGE_SIZE_UL) h
      in (0, \<lparr>xom_entries = [], src_operand_page = page, mach = h\<rparr>))"

definition modxom_exit :: "'h kernel \<Rightarrow> 'h modxom \<Rightarrow> 'h option" where
  "modxom_exit k st =
     map_option (k_free_pages k (src_operand_page st) (k_get_order k PAGE_SIZE_UL))
       (exit_entries k (xom_entries st) (mach st))"

subsection \<open>Writing: the command interface\<close>

definition read_cmd :: "u8 list \<Rightarrow> modxom_cmd" where
  "read_cmd bs = \<lparr>cmd = of_nat (le_val (take 4 bs)), cmd_num_pages = of_nat (le_val (take 4 (drop 4 bs))),
     base_addr = of_nat (le_val (take 8 (drop 8 bs)))\<rparr>"

abbreviation (input) SIZEOF_CMD :: nat where "SIZEOF_CMD \<equiv> 16"

text \<open>
  \<^verbatim>\<open>xom_write_into_subpages\<close>: the \<^verbatim>\<open>memcpy\<close> into the operand page, one page long, has no bound of its own,
  so a longer command writes beyond the page. The page is NULL if its allocation failed when the module was loaded.
\<close>

definition xom_write_into_subpages ::
  "'h kernel \<Rightarrow> u64 \<Rightarrow> nat \<Rightarrow> 'h modxom \<Rightarrow> (int \<times> 'h modxom) option" where
  "xom_write_into_subpages k user_mem len st =
     (if src_operand_page st AND 0xFFF \<noteq> 0 then Some (- EFAULT, st)
      else if len < SIZEOF_CMD + 1 then Some (- EINVAL, st)
      else if \<not> k_kmalloc k ALLOC_CMD then Some (- ENOMEM, st)
      else case copy_from_user k user_mem len of
        None \<Rightarrow> Some (- EFAULT, st)
      | Some bs \<Rightarrow>
          let c = read_cmd bs; n = unat (bs ! SIZEOF_CMD)
          in if cmd c \<noteq> MODXOM_CMD_WRITE_SUBPAGES then Some (- EINVAL, st)
             else if n = 0 then Some (- EINVAL, st)
             else if n > (len - SIZEOF_CMD - 1) div (1 + SUBPAGE_SIZE) then Some (- EINVAL, st)
             else if len - SIZEOF_CMD > PAGE_SIZE \<or> src_operand_page st = 0 then None
             else xom_subpage_write_xen k c
                    (st\<lparr>mach := k_store k (src_operand_page st) (drop SIZEOF_CMD bs) (mach st)\<rparr>))"

definition xom_write :: "'h kernel \<Rightarrow> u64 \<Rightarrow> nat \<Rightarrow> 'h modxom \<Rightarrow> (int \<times> 'h modxom) option" where
  "xom_write k user_mem len st =
     (if len < SIZEOF_CMD then Some (- EINVAL, st)
      else if len > SIZEOF_CMD then xom_write_into_subpages k user_mem len st
      else case copy_from_user k user_mem SIZEOF_CMD of
        None \<Rightarrow> Some (- EFAULT, st)
      | Some bs \<Rightarrow>
          let c = read_cmd bs
          in if cmd c = MODXOM_CMD_NOP then Some (int SIZEOF_CMD, st)
             else if cmd c = MODXOM_CMD_FREE then xmem_free k c st
             else if cmd c = MODXOM_CMD_LOCK then lock_pages k c st
             else if cmd c = MODXOM_CMD_INIT_SUBPAGES then xom_init_subpages k c st
             else if cmd c = MODXOM_CMD_MARK_REG_CLEAR
               then xom_forward_to_hypervisor k (base_addr c) MMUEXT_MARK_REG_CLEAR (cmd_num_pages c) st
             else Some (- EINVAL, st))"

subsection \<open>Reading: the list of mappings\<close>

definition hex_digit :: "nat \<Rightarrow> u8" where
  "hex_digit d = of_nat (if d < 10 then 48 + d else 87 + d)"

fun hex :: "nat \<Rightarrow> u8 list" where
  "hex n = (if n < 16 then [hex_digit n] else hex (n div 16) @ [hex_digit (n mod 16)])"

declare hex.simps [simp del]

text \<open>\<^verbatim>\<open>"%16lx, %16lx\n"\<close>.\<close>

definition pad16 :: "u64 \<Rightarrow> u8 list" where
  "pad16 w = (let h = hex (unat w) in replicate (16 - length h) 32 @ h)"

definition mapping_line :: "u64 \<Rightarrow> u64 \<Rightarrow> u8 list" where
  "mapping_line start len = pad16 start @ [44, 32] @ pad16 len @ [10]"

definition READ_HEADER_STRING :: "u8 list" where
  "READ_HEADER_STRING = map (\<lambda>c. of_nat (of_char c)) (''        Address:             Size:'' @ [CHR 0x0A])"

abbreviation (input) MAPPING_LINE_SIZE :: nat where "MAPPING_LINE_SIZE \<equiv> 41"

text \<open>The text buffer: a byte nothing was written to yet is \<^const>\<open>None\<close>. \<^verbatim>\<open>snprintf\<close> cuts the text and adds a NUL.\<close>

definition put_at :: "u8 option list \<Rightarrow> nat \<Rightarrow> u8 list \<Rightarrow> u8 option list" where
  "put_at buf i bs = take i buf @ map Some bs @ drop (i + length bs) buf"

fun read_lines :: "'h kernel \<Rightarrow> xom_mapping list \<Rightarrow> 'h \<Rightarrow> nat \<Rightarrow> u8 option list \<Rightarrow> u8 option list" where
  "read_lines k [] h index buf = buf"
| "read_lines k (mp # mps) h index buf =
     (if index < length buf
      then case k_find_vma k (uaddr mp) h of
             None \<Rightarrow> read_lines k mps h index buf
           | Some (start, stop) \<Rightarrow>
               let line = mapping_line start (stop - start)
               in read_lines k mps h (index + length line)
                    (put_at buf index (take (length buf - index - 1) line @ [0]))
      else buf)"

text \<open>The result of a read: the return value, the bytes copied to the user, and the new file offset.\<close>

definition xom_read ::
  "'h kernel \<Rightarrow> u64 \<Rightarrow> nat \<Rightarrow> nat \<Rightarrow> 'h modxom \<Rightarrow> (int \<times> u8 option list \<times> nat) option" where
  "xom_read k user_mem len offset st = do {
     found \<leftarrow> get_process_entry (k_pid k) (xom_entries st);
     (case found of
        None \<Rightarrow> Some (- EBADF, [], offset)
      | Some (_, e, _) \<Rightarrow>
          let len_required = length READ_HEADER_STRING + 1 + MAPPING_LINE_SIZE * length (pe_mappings e)
          in if offset \<ge> len_required then Some (0, [], offset)
             else if \<not> k_kmalloc k ALLOC_STRING then Some (- ENOMEM, [], offset)
             else let buf = put_at (replicate len_required None) 0 (READ_HEADER_STRING @ [0]);
                      buf = read_lines k (pe_mappings e) (mach st) (length READ_HEADER_STRING) buf;
                      clen = min (len_required - offset) len;
                      clen = (if k_user_writable k user_mem clen then clen else 0)
                  in Some (int clen, take clen (drop offset buf), offset + clen))
   }"

end
