(* ===== verification/Modxom_Main.thy ===== *)
theory Modxom_Main
  imports Modxom
begin

text \<open>
  The theorems on the kernel module: its invariant and memory safety, the isolation of processes, what a
  request to the hypervisor covers, the round trip of mapping and freeing, the text a read returns, and the
  dangling process entry after a failed mapping.
\<close>

subsection \<open>Calls\<close>

text \<open>The entry points of \<^verbatim>\<open>file_ops\<close> that change the state of the module.\<close>

datatype xom_call = Call_open | Call_release | Call_mmap vm_area | Call_write u64 nat

definition run_call :: "'h kernel \<Rightarrow> xom_call \<Rightarrow> 'h modxom \<Rightarrow> (int \<times> 'h modxom) option" where
  "run_call k call st =
     (case call of
        Call_open \<Rightarrow> xom_open k st
      | Call_release \<Rightarrow> xom_release k st
      | Call_mmap vma \<Rightarrow> xom_mmap k vma st
      | Call_write addr len \<Rightarrow> xom_write k addr len st)"

subsection \<open>The lists\<close>

lemma get_process_entry_Some:
  "get_process_entry pid es = Some (Some (bs, e, as)) \<Longrightarrow>
     es = bs @ e # as \<and> pe_pid e = pid \<and> \<not> pe_freed e \<and> (\<forall>x \<in> set bs. pe_pid x \<noteq> pid \<and> \<not> pe_freed x)"
  by (induction es arbitrary: bs) (auto split: if_splits)

lemma get_process_entry_ok:
  "\<forall>e \<in> set es. \<not> pe_freed e \<Longrightarrow> get_process_entry pid es \<noteq> None"
  by (induction es) auto

lemma get_process_entry_none:
  "get_process_entry pid es = Some None \<Longrightarrow> \<forall>e \<in> set es. pe_pid e \<noteq> pid"
  by (induction es) (auto split: if_splits)

lemma get_process_entry_missing:
  "\<forall>e \<in> set es. \<not> pe_freed e \<and> pe_pid e \<noteq> pid \<Longrightarrow> get_process_entry pid es = Some None"
  by (induction es) auto

lemma get_process_entry_append:
  "\<forall>x \<in> set bs. pe_pid x \<noteq> pid \<and> \<not> pe_freed x \<Longrightarrow> get_process_entry pid (bs @ es) =
     map_option (map_option (\<lambda>(cs, e, as). (bs @ cs, e, as))) (get_process_entry pid es)"
  by (induction bs) (auto simp: option.map_id0[unfolded id_def] option.map_comp comp_def case_prod_unfold intro!: option.map_cong)

lemma find_mapping_Some:
  "find_mapping P mps = Some (bs, mp, as) \<Longrightarrow> mps = bs @ mp # as \<and> P mp \<and> (\<forall>x \<in> set bs. \<not> P x)"
  by (induction mps arbitrary: bs) (auto split: if_splits)

lemma find_mapping_None: "find_mapping P mps = None \<longleftrightarrow> (\<forall>x \<in> set mps. \<not> P x)"
  by (induction mps) auto

lemma with_process_cases:
  assumes "with_process k f st = Some (ret, st')"
  obtains (no_entry) "get_process_entry (k_pid k) (xom_entries st) = Some None" "ret = - EBADF" "st' = st"
  | (entry) bs e as mps h where "get_process_entry (k_pid k) (xom_entries st) = Some (Some (bs, e, as))"
      "f (pe_mappings e) (mach st) = Some (ret, mps, h)"
      "st' = st\<lparr>xom_entries := bs @ e\<lparr>pe_mappings := mps\<rparr> # as, mach := h\<rparr>"
proof -
  from assms obtain found where found: "get_process_entry (k_pid k) (xom_entries st) = Some found"
    by (cases "get_process_entry (k_pid k) (xom_entries st)") (auto simp: with_process_def)
  show ?thesis
  proof (cases found)
    case None
    have "Some (- EBADF, st) = Some (ret, st')" using assms unfolding with_process_def found None by simp
    with found None show ?thesis by (intro no_entry) simp_all
  next
    case (Some t)
    obtain bs e as where t: "t = (bs, e, as)" by (cases t)
    have "do {(ret, mps, h) \<leftarrow> f (pe_mappings e) (mach st);
        Some (ret, st\<lparr>xom_entries := bs @ e\<lparr>pe_mappings := mps\<rparr> # as, mach := h\<rparr>)} = Some (ret, st')"
      using assms unfolding with_process_def found Some t by simp
    then obtain mps h where "f (pe_mappings e) (mach st) = Some (ret, mps, h)"
      "st' = st\<lparr>xom_entries := bs @ e\<lparr>pe_mappings := mps\<rparr> # as, mach := h\<rparr>"
      by (cases "f (pe_mappings e) (mach st)") auto
    with found Some t show ?thesis by (intro entry) simp_all
  qed
qed

subsection \<open>The lock array\<close>

lemma length_set_lock_status: "set_lock_status ls i v = Some ls' \<Longrightarrow> length ls' = length ls"
  by (auto simp: set_lock_status_def split: if_splits)

lemma set_lock_range_Some:
  "i + n \<le> 8 * length ls \<Longrightarrow> \<exists>ls'. set_lock_range ls i n = Some ls' \<and> length ls' = length ls"
proof (induction n arbitrary: ls i)
  case (Suc n)
  then have "i div 8 < length ls" by auto
  then obtain ls1 where ls1: "set_lock_status ls i True = Some ls1" by (simp add: set_lock_status_def)
  with Suc.prems Suc.IH[of "Suc i" ls1] length_set_lock_status[OF ls1] show ?case by auto
qed simp

lemma set_lock_range_None: "8 * length ls < i + n \<Longrightarrow> 0 < n \<Longrightarrow> set_lock_range ls i n = None"
proof (induction n arbitrary: ls i)
  case (Suc n)
  show ?case
  proof (cases "set_lock_status ls i True")
    case (Some ls')
    then have "i < 8 * length ls" by (auto simp: set_lock_status_def split: if_splits)
    with Suc Some length_set_lock_status[OF Some] show ?thesis by simp
  qed simp
qed simp

lemma length_set_lock_range: "set_lock_range ls i n = Some ls' \<Longrightarrow> length ls' = length ls"
  by (induction n arbitrary: ls i) (auto simp: bind_eq_Some_conv dest: length_set_lock_status)

lemma group_pages_le:
  "c + l < unat (num_pages mp) \<Longrightarrow> fst (group_pages k mp l c g) + l \<le> unat (num_pages mp)"
proof (induction k mp l c g rule: group_pages.induct)
  case (1 k mp l c g)
  show ?case by (subst group_pages.simps) (use 1 in \<open>auto simp: Let_def\<close>)
qed

lemma invoke_loop_safe:
  assumes "n \<le> unat (num_pages mp)" "i + unat (num_pages mp) \<le> 8 * length ls"
  shows "\<exists>status ls' h'. invoke_loop k mp i n c l g ls h = Some (status, ls', h') \<and> length ls' = length ls"
  using assms
proof (induction k mp i n c l g ls h rule: invoke_loop.induct)
  case (1 k mp i n c l g ls h)
  show ?case
  proof (cases "l < n")
    case True
    obtain page_c cur where gp: "group_pages k mp l 0 g = (page_c, cur)" by fastforce
    obtain status h' where hc: "hypercall k \<lparr>op_cmd = c, op_mfn = g, op_arg2 = of_nat page_c\<rparr> 1 0 DOMID_SELF h = (status, h')"
      by fastforce
    from group_pages_le[of 0 l mp k g] gp True "1.prems" have le: "page_c + l \<le> unat (num_pages mp)" by simp
    then obtain ls' where ls': "set_lock_range ls (i + l) page_c = Some ls'" "length ls' = length ls"
      using set_lock_range_Some[of "i + l" page_c ls] "1.prems" by auto
    show ?thesis
    proof (cases "status = 0")
      case True
      with "1.IH"[OF \<open>l < n\<close> gp[symmetric] refl refl hc[symmetric] refl, of ls'] ls' "1.prems" show ?thesis
        by (subst invoke_loop.simps) (simp add: gp hc \<open>l < n\<close>)
    qed (subst invoke_loop.simps, simp add: gp hc \<open>l < n\<close>)
  qed (subst invoke_loop.simps, simp)
qed

subsection \<open>The invariant\<close>

definition mapping_ok :: "xom_mapping \<Rightarrow> bool" where
  "mapping_ok mp \<longleftrightarrow> 0 < num_pages mp \<and> num_pages mp \<le> 1024
     \<and> (\<exists>ls. lock_status mp = Some ls \<and> length ls = unat (num_pages mp) div 8 + 1)"

definition entry_ok :: "xom_process_entry \<Rightarrow> bool" where
  "entry_ok e \<longleftrightarrow> \<not> pe_freed e \<and> (\<forall>mp \<in> set (pe_mappings e). mapping_ok mp)"

definition mod_ok :: "'h modxom \<Rightarrow> bool" where
  "mod_ok st \<longleftrightarrow> (\<forall>e \<in> set (xom_entries st). entry_ok e) \<and> distinct (map pe_pid (xom_entries st))"

lemma mapping_ok_array:
  "mapping_ok mp \<Longrightarrow> lock_status mp = Some ls \<Longrightarrow> unat (num_pages mp) \<le> 8 * length ls"
  by (auto simp: mapping_ok_def)

lemma mapping_ok_update:
  "mapping_ok mp \<Longrightarrow> lock_status mp = Some ls \<Longrightarrow> length ls' = length ls \<Longrightarrow> mapping_ok (mp\<lparr>lock_status := Some ls'\<rparr>)"
  by (auto simp: mapping_ok_def)

lemma mapping_ok_subpage [simp]: "mapping_ok (mp\<lparr>subpage_level := b\<rparr>) = mapping_ok mp"
  by (simp add: mapping_ok_def)

lemma xom_invoke_xen_safe:
  assumes "mapping_ok mp"
  shows "\<exists>status mp' h'. xom_invoke_xen k mp 0 n c h = Some (status, mp', h') \<and> mapping_ok mp'"
proof -
  from assms obtain ls where ls: "lock_status mp = Some ls" by (auto simp: mapping_ok_def)
  show ?thesis
  proof (cases "n \<le> num_pages mp")
    case True
    then have "unat n \<le> unat (num_pages mp)" by (simp add: word_le_nat_alt)
    from invoke_loop_safe[OF this, of 0 ls k c 0 "pfn mp" h] mapping_ok_array[OF assms ls] obtain status ls' h' where
      "invoke_loop k mp 0 (unat n) c 0 (pfn mp) ls h = Some (status, ls', h')" "length ls' = length ls" by auto
    with True ls mapping_ok_update[OF assms ls] assms show ?thesis by (auto simp: xom_invoke_xen_def not_less)
  qed (use assms in \<open>auto simp: xom_invoke_xen_def\<close>)
qed

lemma release_mapping_safe:
  assumes "mapping_ok mp"
  shows "\<exists>status mp' h'. release_mapping k mp h = Some (status, mp', h') \<and> (status \<noteq> 0 \<longrightarrow> mapping_ok mp')"
proof -
  from assms obtain b where b: "were_pages_locked mp = Some b" by (auto simp: mapping_ok_def were_pages_locked_def)
  from xom_invoke_xen_safe[OF assms, of k "num_pages mp" MMUEXT_UNMARK_XOM h] obtain status mp' h' where
    "xom_invoke_xen k mp 0 (num_pages mp) MMUEXT_UNMARK_XOM h = Some (status, mp', h')" "mapping_ok mp'" by blast
  with b assms show ?thesis
    by (auto simp: release_mapping_def release_unlocked_def Let_def split: prod.splits)
qed

lemma release_mappings_safe: "\<forall>mp \<in> set mps. mapping_ok mp \<Longrightarrow> \<exists>h'. release_mappings k mps h = Some h'"
proof (induction mps arbitrary: h)
  case (Cons mp mps)
  with release_mapping_safe[of mp k h] show ?case by auto
qed simp

subsection \<open>Commands on the mappings of a process\<close>

text \<open>
  The contract of a command: on well-formed mappings that satisfy its precondition it returns, and leaves
  well-formed mappings. Run for the calling process, such a command keeps the invariant of the module.
\<close>

locale mapping_command =
  fixes f :: "xom_mapping list \<Rightarrow> 'h \<Rightarrow> (int \<times> xom_mapping list \<times> 'h) option"
    and pre :: "xom_mapping list \<Rightarrow> bool"
  assumes safe: "\<forall>mp \<in> set mps. mapping_ok mp \<Longrightarrow> pre mps \<Longrightarrow>
    \<exists>ret mps' h'. f mps h = Some (ret, mps', h') \<and> (\<forall>mp \<in> set mps'. mapping_ok mp)"
begin

lemma run_safe:
  assumes "mod_ok st" "\<forall>e \<in> set (xom_entries st). pe_pid e = k_pid k \<longrightarrow> pre (pe_mappings e)"
  shows "\<exists>ret st'. with_process k f st = Some (ret, st') \<and> mod_ok st'"
proof -
  from assms(1) obtain found where found: "get_process_entry (k_pid k) (xom_entries st) = Some found"
    using get_process_entry_ok[of "xom_entries st" "k_pid k"] by (auto simp: mod_ok_def entry_ok_def)
  show ?thesis
  proof (cases found)
    case None
    with found assms(1) show ?thesis by (simp add: with_process_def)
  next
    case (Some t)
    obtain bs e as where t: "t = (bs, e, as)" by (cases t)
    note es = get_process_entry_Some[OF found[unfolded Some t]]
    with assms have "entry_ok e" "pre (pe_mappings e)" by (auto simp: mod_ok_def)
    with safe[of "pe_mappings e" "mach st"] obtain ret mps h where
      f: "f (pe_mappings e) (mach st) = Some (ret, mps, h)" "\<forall>mp \<in> set mps. mapping_ok mp"
      by (auto simp: entry_ok_def)
    have "with_process k f st = Some (ret, st\<lparr>xom_entries := bs @ e\<lparr>pe_mappings := mps\<rparr> # as, mach := h\<rparr>)"
      by (simp add: with_process_def found Some t f(1))
    moreover have "mod_ok (st\<lparr>xom_entries := bs @ e\<lparr>pe_mappings := mps\<rparr> # as, mach := h\<rparr>)"
      using assms(1) es f(2) by (auto simp: mod_ok_def entry_ok_def)
    ultimately show ?thesis by blast
  qed
qed

end

interpretation free_cmd: mapping_command "xmem_free_mappings k c" "\<lambda>_. True"
proof
  fix mps h
  assume ok: "\<forall>mp \<in> set mps. mapping_ok mp"
  show "\<exists>ret mps' h'. xmem_free_mappings k c mps h = Some (ret, mps', h') \<and> (\<forall>mp \<in> set mps'. mapping_ok mp)"
  proof (cases "find_mapping (\<lambda>mp. uaddr mp = base_addr c) mps")
    case (Some t)
    obtain bs mp as where t: "t = (bs, mp, as)" by (cases t)
    with find_mapping_Some[OF Some[unfolded t]] ok release_mapping_safe[of mp k h] Some show ?thesis
      by (auto simp: xmem_free_mappings_def)
  qed (use ok in \<open>simp add: xmem_free_mappings_def\<close>)
qed

text \<open>A lock request is safe if it starts where the mapping it falls into starts.\<close>

definition lock_aligned :: "modxom_cmd \<Rightarrow> xom_mapping list \<Rightarrow> bool" where
  "lock_aligned c mps \<longleftrightarrow> (\<forall>mp \<in> set mps. in_mapping (base_addr c) mp \<longrightarrow> base_addr c = uaddr mp)"

interpretation lock_cmd: mapping_command "lock_mappings k c" "lock_aligned c"
proof
  fix mps h
  assume ok: "\<forall>mp \<in> set mps. mapping_ok mp" and start: "lock_aligned c mps"
  show "\<exists>ret mps' h'. lock_mappings k c mps h = Some (ret, mps', h') \<and> (\<forall>mp \<in> set mps'. mapping_ok mp)"
  proof (cases "find_mapping (in_mapping (base_addr c)) mps")
    case (Some t)
    obtain bs mp as where t: "t = (bs, mp, as)" by (cases t)
    note mps = find_mapping_Some[OF Some[unfolded t]]
    with start have "base_addr c = uaddr mp" by (auto simp: lock_aligned_def)
    with mps ok xom_invoke_xen_safe[of mp k "cmd_num_pages c" MMUEXT_MARK_XOM h] Some t show ?thesis
      by (auto simp: lock_mappings_def Let_def)
  qed (use ok in \<open>simp add: lock_mappings_def\<close>)
qed

interpretation init_cmd: mapping_command "init_subpages_mappings k c" "\<lambda>_. True"
proof
  fix mps h
  assume ok: "\<forall>mp \<in> set mps. mapping_ok mp"
  show "\<exists>ret mps' h'. init_subpages_mappings k c mps h = Some (ret, mps', h') \<and> (\<forall>mp \<in> set mps'. mapping_ok mp)"
  proof (cases "find_mapping (in_mapping (base_addr c)) mps")
    case (Some t)
    obtain bs mp as where t: "t = (bs, mp, as)" by (cases t)
    with find_mapping_Some[OF Some[unfolded t]] ok
      xom_invoke_xen_safe[of mp k "num_pages mp" MMUEXT_CREATE_XOM_SPAGES h] Some show ?thesis
      by (auto simp: init_subpages_mappings_def)
  qed (use ok in \<open>simp add: init_subpages_mappings_def\<close>)
qed

interpretation write_cmd: mapping_command "subpage_write_mappings k src c" "\<lambda>_. True"
  by unfold_locales (auto simp: subpage_write_mappings_def Let_def split: option.splits prod.splits)

interpretation forward_cmd: mapping_command "forward_mappings k a c n" "\<lambda>_. True"
  by unfold_locales (auto simp: forward_mappings_def Let_def split: option.splits prod.splits)

interpretation intersect_cmd: mapping_command "manage_mapping_intersection k vma" "\<lambda>_. True"
proof
  fix mps h
  assume ok: "\<forall>mp \<in> set mps. mapping_ok mp"
  show "\<exists>ret mps' h'. manage_mapping_intersection k vma mps h = Some (ret, mps', h') \<and> (\<forall>mp \<in> set mps'. mapping_ok mp)"
  proof (cases "find_mapping (intersects vma) mps")
    case (Some t)
    obtain bs mp as where t: "t = (bs, mp, as)" by (cases t)
    with find_mapping_Some[OF Some[unfolded t]] ok release_mapping_safe[of mp k h] Some show ?thesis
      by (auto simp: manage_mapping_intersection_def)
  qed (use ok in \<open>simp add: manage_mapping_intersection_def\<close>)
qed

subsection \<open>Mapping\<close>

lemma page_count:
  fixes size :: u64
  assumes "size mod PAGE_SIZE_UL = 0" "size \<noteq> 0" "\<not> size > 0x400000"
  shows "unat (ucast (size div PAGE_SIZE_UL) :: u32) = unat (size div PAGE_SIZE_UL)"
    "0 < (ucast (size div PAGE_SIZE_UL) :: u32)" "(ucast (size div PAGE_SIZE_UL) :: u32) \<le> 1024"
    "ucast (ucast (size div PAGE_SIZE_UL) :: u32) * PAGE_SIZE_UL = size"
proof -
  let ?n = "size div PAGE_SIZE_UL"
  have "unat (size mod PAGE_SIZE_UL) = 0" using assms(1) by simp
  then have m: "unat size mod 4096 = 0" by (simp add: unat_mod_distrib)
  have d: "unat ?n = unat size div 4096" by (simp add: unat_div_distrib)
  have s: "unat size \<le> 0x400000" using assms(3) by (simp add: word_le_nat_alt not_less)
  have p: "0 < unat size" using assms(2) by (simp add: unat_gt_0)
  have n3: "unat ?n * 4096 = unat size" using m div_mult_mod_eq[of "unat size" 4096] unfolding d by linarith
  with s p have n: "unat ?n \<le> 1024" "0 < unat ?n" by linarith+
  show u: "unat (ucast ?n :: u32) = unat ?n" using n(1) by (simp add: unsigned_ucast_eq take_bit_nat_eq_self)
  show "0 < (ucast ?n :: u32)" using n(2) u by (simp add: word_less_nat_alt)
  show "(ucast ?n :: u32) \<le> 1024" using n(1) u by (simp add: word_le_nat_alt)
  have "unat (ucast (ucast ?n :: u32) :: u64) = unat ?n" using u n(1) by (simp add: unsigned_ucast_eq unsigned_take_bit_eq take_bit_nat_eq_self)
  then have "(ucast (ucast ?n :: u32) :: u64) = ?n" by (simp add: word_unat_eq_iff)
  moreover have "?n * 4096 = size" using arg_cong[OF n3, of "of_nat :: nat \<Rightarrow> u64"] by simp
  ultimately show "ucast (ucast ?n :: u32) * PAGE_SIZE_UL = size" by simp
qed

lemma get_new_mapping_ok:
  assumes "get_new_mapping k vma h = (Some mp, freed, h')"
  shows "mapping_ok mp \<and> \<not> freed \<and> uaddr mp = vm_start vma \<and> map_len mp = vm_end vma - vm_start vma
    \<and> num_pages mp = ucast ((vm_end vma - vm_start vma) div PAGE_SIZE_UL)
    \<and> kaddr mp = fst (k_get_free_pages k (k_get_order k (vm_end vma - vm_start vma)) h) \<and> kaddr mp \<noteq> 0
    \<and> lock_status mp = Some (replicate (unat (num_pages mp) div 8 + 1) 0) \<and> \<not> subpage_level mp"
proof -
  let ?s = "vm_end vma - vm_start vma"
  from assms have c: "?s mod PAGE_SIZE_UL = 0" "?s \<noteq> 0" "\<not> ?s > 0x400000"
    by (auto simp: get_new_mapping_def Let_def split: if_splits)
  from assms have "\<not> freed \<and> mp = \<lparr>num_pages = ucast (?s div PAGE_SIZE_UL), uaddr = vm_start vma,
       kaddr = fst (k_get_free_pages k (k_get_order k ?s) h), pfn = pfn mp,
       lock_status = Some (replicate (unat (?s div PAGE_SIZE_UL) div 8 + 1) 0), subpage_level = False\<rparr> \<and> kaddr mp \<noteq> 0"
    by (auto simp: get_new_mapping_def Let_def split: if_splits prod.splits)
  then have m: "\<not> freed" "num_pages mp = ucast (?s div PAGE_SIZE_UL)" "uaddr mp = vm_start vma" "kaddr mp \<noteq> 0"
    "kaddr mp = fst (k_get_free_pages k (k_get_order k ?s) h)" "\<not> subpage_level mp"
    "lock_status mp = Some (replicate (unat (?s div PAGE_SIZE_UL) div 8 + 1) 0)"
    by (metis xom_mapping.select_convs)+
  then show ?thesis using page_count[OF c] by (auto simp: mapping_ok_def map_len_def)
qed

text \<open>The allocations and the page-table update of \<^verbatim>\<open>get_new_mapping\<close> succeed.\<close>

definition alloc_ok :: "'h kernel \<Rightarrow> bool" where
  "alloc_ok k \<longleftrightarrow> k_kmalloc k ALLOC_LOCK_STATUS \<and> (\<forall>n h. fst (k_get_free_pages k n h) \<notin> {0, - 1})
     \<and> (\<forall>a p n h. fst (k_remap_pfn_range k a p n h) \<ge> 0)"

lemma get_new_mapping_alloc:
  assumes "alloc_ok k"
  shows "\<not> fst (snd (get_new_mapping k vma h))"
proof -
  from assms have "fst (k_get_free_pages k n x) \<noteq> 0" "fst (k_get_free_pages k n x) \<noteq> - 1"
    "\<not> fst (k_remap_pfn_range k a p m x) < 0" "k_kmalloc k ALLOC_LOCK_STATUS" for n a p m x
    by (simp_all add: alloc_ok_def not_less)
  then show ?thesis by (simp add: get_new_mapping_def Let_def case_prod_unfold)
qed

lemma xom_mmap_run:
  assumes "k_xen_hvm k" "get_process_entry (k_pid k) (xom_entries st) = Some (Some (bs, e, as))"
    and "manage_mapping_intersection k vma (pe_mappings e) (mach st) = Some (s, mps, h)"
    and "get_new_mapping k vma h = (new, freed, h')"
  shows "xom_mmap k vma st =
    (if s < 0 then Some (s, st\<lparr>xom_entries := bs @ e\<lparr>pe_mappings := mps\<rparr> # as, mach := h\<rparr>)
     else case new of
       None \<Rightarrow> Some (- EINVAL, st\<lparr>xom_entries := bs @ e\<lparr>pe_mappings := mps, pe_freed := freed\<rparr> # as, mach := h'\<rparr>)
     | Some mp \<Rightarrow> Some (s, st\<lparr>xom_entries := bs @ e\<lparr>pe_mappings := mp # mps\<rparr> # as, mach := h'\<rparr>))"
  using assms by (simp add: xom_mmap_def)

lemma xom_mmap_safe:
  assumes "mod_ok st" "alloc_ok k"
  shows "\<exists>ret st'. xom_mmap k vma st = Some (ret, st') \<and> mod_ok st'"
proof -
  from assms(1) obtain found where found: "get_process_entry (k_pid k) (xom_entries st) = Some found"
    using get_process_entry_ok[of "xom_entries st" "k_pid k"] by (auto simp: mod_ok_def entry_ok_def)
  show ?thesis
  proof (cases "k_xen_hvm k \<and> found \<noteq> None")
    case True
    then obtain bs e as where t: "found = Some (bs, e, as)" by (metis not_Some_eq surj_pair)
    note es = get_process_entry_Some[OF found[unfolded t]]
    with assms have "entry_ok e" by (auto simp: mod_ok_def)
    with intersect_cmd.safe[of "pe_mappings e" k vma "mach st"] obtain s mps h where
      f: "manage_mapping_intersection k vma (pe_mappings e) (mach st) = Some (s, mps, h)" "\<forall>mp \<in> set mps. mapping_ok mp"
      by (auto simp: entry_ok_def)
    have ok: "mod_ok (st\<lparr>xom_entries := bs @ e' # as, mach := h'\<rparr>)"
      if "\<not> pe_freed e'" "pe_pid e' = pe_pid e" "\<forall>mp \<in> set (pe_mappings e'). mapping_ok mp" for e' h'
      using assms(1) es that by (auto simp: mod_ok_def entry_ok_def)
    obtain new freed h' where g: "get_new_mapping k vma h = (new, freed, h')" by (metis surj_pair)
    with get_new_mapping_alloc[OF assms(2), of vma h] have "\<not> freed" by simp
    note run = xom_mmap_run[OF conjunct1[OF True] found[unfolded t] f(1) g]
    show ?thesis
    proof (cases new)
      case None
      with run ok[of "e\<lparr>pe_mappings := mps\<rparr>" h] ok[of "e\<lparr>pe_mappings := mps, pe_freed := freed\<rparr>" h'] es f(2) \<open>\<not> freed\<close>
      show ?thesis by (cases "s < 0") simp_all
    next
      case (Some mp)
      with g get_new_mapping_ok[of k vma h mp] have "mapping_ok mp" by simp
      with run Some ok[of "e\<lparr>pe_mappings := mps\<rparr>" h] ok[of "e\<lparr>pe_mappings := mp # mps\<rparr>" h'] es f(2)
      show ?thesis by (cases "s < 0") simp_all
    qed
  next
    case False
    then have "\<not> k_xen_hvm k \<or> found = None" by blast
    with found have "xom_mmap k vma st = Some (if k_xen_hvm k then - EBADF else - ENODEV, st)"
      by (elim disjE) (simp_all add: xom_mmap_def)
    with assms(1) show ?thesis by blast
  qed
qed

lemma xom_release_safe:
  assumes "mod_ok st"
  shows "\<exists>ret st'. xom_release k st = Some (ret, st') \<and> mod_ok st'"
proof -
  from assms obtain found where found: "get_process_entry (k_pid k) (xom_entries st) = Some found"
    using get_process_entry_ok[of "xom_entries st" "k_pid k"] by (auto simp: mod_ok_def entry_ok_def)
  show ?thesis
  proof (cases found)
    case (Some t)
    obtain bs e as where t: "t = (bs, e, as)" by (cases t)
    note es = get_process_entry_Some[OF found[unfolded Some t]]
    with assms have "entry_ok e" by (auto simp: mod_ok_def)
    with release_mappings_safe[of "pe_mappings e" k "mach st"] obtain h where
      "release_process k (Some e) (mach st) = Some (0, h)" by (auto simp: entry_ok_def release_process_def)
    moreover have "mod_ok (st\<lparr>xom_entries := bs @ as, mach := h\<rparr>)" using assms es by (auto simp: mod_ok_def)
    ultimately show ?thesis using found Some t by (simp add: xom_release_def)
  next
    case None
    with found have "xom_release k st = Some (0, st)" by (simp add: xom_release_def)
    with assms show ?thesis by blast
  qed
qed

lemma xom_open_safe:
  assumes "mod_ok st" "k_kmalloc k ALLOC_ENTRY"
  shows "\<exists>ret st'. xom_open k st = Some (ret, st') \<and> mod_ok st'"
proof -
  from assms(1) obtain found where found: "get_process_entry (k_pid k) (xom_entries st) = Some found"
    using get_process_entry_ok[of "xom_entries st" "k_pid k"] by (auto simp: mod_ok_def entry_ok_def)
  show ?thesis
  proof (cases found)
    case None
    let ?st = "st\<lparr>xom_entries := \<lparr>pe_pid = k_pid k, pe_mappings = [], pe_freed = False\<rparr> # xom_entries st\<rparr>"
    from found None assms(2) have "xom_open k st = Some (0, ?st)" by (simp add: xom_open_def)
    moreover have "mod_ok ?st" using assms(1) get_process_entry_none[OF found[unfolded None]]
      by (auto simp: mod_ok_def entry_ok_def)
    ultimately show ?thesis by blast
  next
    case (Some t)
    with found have "xom_open k st = Some (- EEXIST, st)" by (cases t) (simp add: xom_open_def)
    with assms(1) show ?thesis by blast
  qed
qed

subsection \<open>A sample kernel\<close>

text \<open>
  Pages come from a fixed address, physical addresses are kernel addresses, every hypercall succeeds and is
  recorded, and the user memory of the process holds one command at address 0x5000.
\<close>

definition sample_kernel :: "u8 list \<Rightarrow> mmuext_op list kernel" where
  "sample_kernel user = \<lparr>k_virt_to_phys = id, k_mmuext_op = (\<lambda>op _ _ _ h. (0, op # h)),
     k_vm_munmap = (\<lambda>_ _ h. (0, h)), k_remap_pfn_range = (\<lambda>_ _ _ h. (0, h)), k_get_order = (\<lambda>_. 1),
     k_get_free_pages = (\<lambda>_ h. (0x100000, h)), k_free_pages = (\<lambda>_ _ h. h), k_set_reserved = (\<lambda>_ _ h. h),
     k_store = (\<lambda>_ _ h. h), k_kmalloc = (\<lambda>_. True),
     k_user_byte = (\<lambda>a. if 0x5000 \<le> a \<and> unat (a - 0x5000) < length user then Some (user ! unat (a - 0x5000)) else None),
     k_user_writable = (\<lambda>_ _. True), k_find_vma = (\<lambda>a _. Some (a, a + 0x2000)), k_pid = 7, k_exiting = False,
     k_xen_hvm = True\<rparr>"

definition sample_lock :: "u8 list" where
  "sample_lock = [2, 0, 0, 0, 2, 0, 0, 0, 0, 0, 2, 0, 0, 0, 0, 0]"

definition sample_mapping :: xom_mapping where
  "sample_mapping = \<lparr>num_pages = 2, uaddr = 0x20000, kaddr = 0x100000, pfn = 0x100, lock_status = Some [0],
     subpage_level = False\<rparr>"

definition sample_mod :: "mmuext_op list modxom" where
  "sample_mod = \<lparr>xom_entries = [\<lparr>pe_pid = 3, pe_mappings = [], pe_freed = False\<rparr>,
       \<lparr>pe_pid = 7, pe_mappings = [sample_mapping], pe_freed = False\<rparr>],
     src_operand_page = 0x80000, mach = []\<rparr>"

lemma sample_mod_ok: "mod_ok sample_mod"
  by (simp add: mod_ok_def entry_ok_def mapping_ok_def sample_mod_def sample_mapping_def)

lemma sample_entry:
  "get_process_entry 7 (xom_entries sample_mod) =
     Some (Some ([\<lparr>pe_pid = 3, pe_mappings = [], pe_freed = False\<rparr>],
       \<lparr>pe_pid = 7, pe_mappings = [sample_mapping], pe_freed = False\<rparr>, []))"
  by (simp add: sample_mod_def)

lemma sample_lock_read:
  "copy_from_user (sample_kernel sample_lock) 0x5000 16 = Some sample_lock"
  "read_cmd sample_lock = \<lparr>cmd = 2, cmd_num_pages = 2, base_addr = 0x20000\<rparr>"
  by (simp_all add: copy_from_user_def sample_kernel_def sample_lock_def read_cmd_def upt_16)

subsection \<open>Main theorems\<close>

text \<open>
  The conditions under which a call is memory safe: the allocations of opening and mapping succeed, the
  operand page exists, a command fits into it together with its header, and a lock request starts at the start
  of its mapping.
\<close>

definition safe_call :: "'h kernel \<Rightarrow> xom_call \<Rightarrow> 'h modxom \<Rightarrow> bool" where
  "safe_call k call st \<longleftrightarrow>
     (case call of
        Call_open \<Rightarrow> k_kmalloc k ALLOC_ENTRY
      | Call_release \<Rightarrow> True
      | Call_mmap vma \<Rightarrow> alloc_ok k
      | Call_write addr len \<Rightarrow> len \<le> SIZEOF_CMD + PAGE_SIZE \<and> src_operand_page st \<noteq> 0
          \<and> (\<forall>bs e. copy_from_user k addr SIZEOF_CMD = Some bs \<longrightarrow> e \<in> set (xom_entries st) \<longrightarrow> pe_pid e = k_pid k
               \<longrightarrow> lock_aligned (read_cmd bs) (pe_mappings e)))"

lemma xom_write_into_subpages_safe:
  assumes "mod_ok st" "len \<le> SIZEOF_CMD + PAGE_SIZE" "src_operand_page st \<noteq> 0"
  shows "\<exists>ret st'. xom_write_into_subpages k addr len st = Some (ret, st') \<and> mod_ok st'"
proof -
  have ok: "mod_ok (st\<lparr>mach := h\<rparr>)" for h using assms(1) by (simp add: mod_ok_def)
  have "xom_write_into_subpages k addr len st \<in> {Some (- EFAULT, st), Some (- EINVAL, st), Some (- ENOMEM, st)}
    \<or> (\<exists>c h. xom_write_into_subpages k addr len st = xom_subpage_write_xen k c (st\<lparr>mach := h\<rparr>))"
    using assms(2,3) by (auto simp: xom_write_into_subpages_def Let_def split: option.split)
  moreover have "\<exists>ret st'. xom_subpage_write_xen k c (st\<lparr>mach := h\<rparr>) = Some (ret, st') \<and> mod_ok st'" for c h
    unfolding xom_subpage_write_xen_def by (rule write_cmd.run_safe[OF ok]) simp
  ultimately show ?thesis using assms(1) by fastforce
qed

lemma xom_write_safe:
  assumes "mod_ok st" "safe_call k (Call_write addr len) st"
  shows "\<exists>ret st'. xom_write k addr len st = Some (ret, st') \<and> mod_ok st'"
proof (cases "len > SIZEOF_CMD")
  case True
  with assms xom_write_into_subpages_safe[OF assms(1), of len k addr] show ?thesis
    by (simp add: xom_write_def safe_call_def)
next
  case False
  have "xom_write k addr len st \<in> {Some (- EFAULT, st), Some (- EINVAL, st), Some (int SIZEOF_CMD, st)}
    \<or> (\<exists>bs. copy_from_user k addr SIZEOF_CMD = Some bs \<and> xom_write k addr len st \<in>
         {xmem_free k (read_cmd bs) st, lock_pages k (read_cmd bs) st, xom_init_subpages k (read_cmd bs) st,
          xom_forward_to_hypervisor k (base_addr (read_cmd bs)) MMUEXT_MARK_REG_CLEAR (cmd_num_pages (read_cmd bs)) st})"
    using False by (auto simp: xom_write_def Let_def split: option.split)
  moreover have "\<exists>ret st'. xom_forward_to_hypervisor k a c n st = Some (ret, st') \<and> mod_ok st'" for a c n
    using forward_cmd.run_safe[OF assms(1), simplified] assms(1) unfolding xom_forward_to_hypervisor_def by (cases "a AND 0xFFF = 0") auto
  moreover have "\<exists>ret st'. lock_pages k (read_cmd bs) st = Some (ret, st') \<and> mod_ok st'"
    if "copy_from_user k addr SIZEOF_CMD = Some bs" for bs
    using lock_cmd.run_safe[OF assms(1), of k "read_cmd bs"] assms(2) that unfolding lock_pages_def safe_call_def by simp
  moreover have "\<exists>ret st'. xmem_free k c st = Some (ret, st') \<and> mod_ok st'"
    "\<exists>ret st'. xom_init_subpages k c st = Some (ret, st') \<and> mod_ok st'" for c
    unfolding xmem_free_def xom_init_subpages_def
    by (rule free_cmd.run_safe[OF assms(1)], simp) (rule init_cmd.run_safe[OF assms(1)], simp)
  ultimately show ?thesis using assms(1) by fastforce
qed

text \<open>
  C31: memory safety of the kernel module. In a well-formed state every call that meets \<^const>\<open>safe_call\<close> returns, without
  touching freed memory, following NULL or leaving a lock array, and the state is well formed again: no linked
  entry is freed, process ids are distinct, and every lock array has a bit for each page of its mapping.
\<close>

theorem modxom_memory_safe:
  assumes "mod_ok st" "safe_call k call st"
  shows "\<exists>ret st'. run_call k call st = Some (ret, st') \<and> mod_ok st'"
proof (cases call)
  case Call_open
  with assms xom_open_safe[of st k] show ?thesis by (simp add: run_call_def safe_call_def)
next
  case Call_release
  with assms xom_release_safe[of st k] show ?thesis by (simp add: run_call_def)
next
  case (Call_mmap vma)
  with assms xom_mmap_safe[of st k vma] show ?thesis by (simp add: run_call_def safe_call_def)
next
  case (Call_write addr len)
  with assms xom_write_safe[of st k addr len] show ?thesis by (simp add: run_call_def)
qed

theorem modxom_memory_safe_witness:
  "\<exists>ret st'. run_call (sample_kernel sample_lock) (Call_write 0x5000 16) sample_mod = Some (ret, st') \<and> mod_ok st'"
proof (rule modxom_memory_safe[OF sample_mod_ok])
  show "safe_call (sample_kernel sample_lock) (Call_write 0x5000 16) sample_mod"
    by (simp add: safe_call_def sample_lock_read)
       (simp add: sample_mod_def sample_mapping_def lock_aligned_def)
qed

text \<open>The entries of the other processes.\<close>

definition others :: "int \<Rightarrow> 'h modxom \<Rightarrow> xom_process_entry list" where
  "others pid st = filter (\<lambda>e. pe_pid e \<noteq> pid) (xom_entries st)"

lemma others_update:
  assumes "get_process_entry pid (xom_entries st) = Some (Some (bs, e, as))" "pe_pid e' = pid"
  shows "others pid (st\<lparr>xom_entries := bs @ e' # as, mach := h\<rparr>) = others pid st"
    "others pid (st\<lparr>xom_entries := bs @ as, mach := h\<rparr>) = others pid st"
  using get_process_entry_Some[OF assms(1)] assms(2) by (simp_all add: others_def)

lemma others_with_process:
  "with_process k f st = Some (ret, st') \<Longrightarrow>
     others (k_pid k) st' = others (k_pid k) st \<and> src_operand_page st' = src_operand_page st"
  by (erule with_process_cases) (auto simp: others_def dest!: get_process_entry_Some)

lemmas command_defs = xmem_free_def lock_pages_def xom_init_subpages_def xom_subpage_write_xen_def
  xom_forward_to_hypervisor_def

lemma others_write:
  assumes "xom_write k addr len st = Some (ret, st')"
  shows "others (k_pid k) st' = others (k_pid k) st \<and> src_operand_page st' = src_operand_page st"
proof -
  have m: "others p (st\<lparr>mach := h\<rparr>) = others p st" for p h by (simp add: others_def)
  from assms have "st' = st \<or> (\<exists>f. with_process k f st = Some (ret, st'))
    \<or> (\<exists>f h. with_process k f (st\<lparr>mach := h\<rparr>) = Some (ret, st'))"
    unfolding xom_write_def xom_write_into_subpages_def command_defs Let_def
    by (auto split: if_splits option.splits)
  then show ?thesis by (auto simp: m dest!: others_with_process)
qed

lemma others_mmap:
  assumes "xom_mmap k vma st = Some (ret, st')"
  shows "others (k_pid k) st' = others (k_pid k) st \<and> src_operand_page st' = src_operand_page st"
proof -
  from assms have "\<not> k_xen_hvm k \<and> st' = st \<or> k_xen_hvm k \<and> get_process_entry (k_pid k) (xom_entries st) \<noteq> None"
    by (cases "k_xen_hvm k"; cases "get_process_entry (k_pid k) (xom_entries st)") (simp_all add: xom_mmap_def)
  then consider "st' = st" | found where "k_xen_hvm k" "get_process_entry (k_pid k) (xom_entries st) = Some found"
    by blast
  then show ?thesis
  proof cases
    case (2 found)
    show ?thesis
    proof (cases found)
      case None
      with assms 2 have "Some (- EBADF, st) = Some (ret, st')" by (simp add: xom_mmap_def)
      then show ?thesis by simp
    next
      case (Some t)
      obtain bs e as where t: "t = (bs, e, as)" by (cases t)
      note e = 2(2)[unfolded Some t]
      from assms e 2(1) have "manage_mapping_intersection k vma (pe_mappings e) (mach st) \<noteq> None"
        by (cases "manage_mapping_intersection k vma (pe_mappings e) (mach st)") (simp_all add: xom_mmap_def)
      then obtain s mps h where i: "manage_mapping_intersection k vma (pe_mappings e) (mach st) = Some (s, mps, h)"
        by (metis not_None_eq surj_pair)
      obtain new freed h' where g: "get_new_mapping k vma h = (new, freed, h')" by (metis surj_pair)
      from xom_mmap_run[OF 2(1) e i g] assms show ?thesis using get_process_entry_Some[OF e]
        by (auto simp: others_def split: if_splits option.splits)
    qed
  qed simp
qed

text \<open>
  C32: isolation of processes. Whatever a call does for the calling process, its errors included, the
  entries of all other processes, with their mappings and lock arrays, stay as they are, in the same order, and
  so does the operand page.
\<close>

theorem process_isolation:
  assumes "run_call k call st = Some (ret, st')"
  shows "others (k_pid k) st' = others (k_pid k) st \<and> src_operand_page st' = src_operand_page st"
proof (cases call)
  case Call_open
  with assms show ?thesis by (auto simp: run_call_def xom_open_def bind_eq_Some_conv others_def split: if_splits)
next
  case Call_release
  with assms show ?thesis
    by (auto simp: run_call_def xom_release_def bind_eq_Some_conv others_def dest!: get_process_entry_Some
        split: option.splits)
next
  case (Call_mmap vma)
  with assms others_mmap show ?thesis by (simp add: run_call_def)
next
  case (Call_write addr len)
  with assms others_write show ?thesis by (simp add: run_call_def)
qed

theorem process_isolation_witness:
  "\<exists>st'. run_call (sample_kernel sample_lock) Call_release sample_mod = Some (0, st') \<and> others 7 st' = others 7 sample_mod"
proof -
  have "\<exists>st'. run_call (sample_kernel sample_lock) Call_release sample_mod = Some (0, st')"
    by (simp add: run_call_def xom_release_def sample_mod_def sample_mapping_def sample_kernel_def release_process_def
        release_mapping_def were_pages_locked_def release_unlocked_def map_len_def)
  with process_isolation[of "sample_kernel sample_lock" Call_release sample_mod 0] show ?thesis
    by (auto simp: sample_kernel_def)
qed

text \<open>The pages of a mapping are contiguous in physical memory, from its first frame on.\<close>

definition contiguous :: "'h kernel \<Rightarrow> xom_mapping \<Rightarrow> bool" where
  "contiguous k mp \<longleftrightarrow> (\<forall>i < unat (num_pages mp).
     drop_bit PAGE_SHIFT (k_virt_to_phys k (kaddr mp + of_nat i * PAGE_SIZE_UL)) = pfn mp + of_nat i)"

lemma group_pages_contiguous:
  "contiguous k mp \<Longrightarrow> c < unat (num_pages mp) \<Longrightarrow>
     fst (group_pages k mp 0 c (pfn mp + of_nat c)) = unat (num_pages mp)"
proof (induction "unat (num_pages mp) - c" arbitrary: c)
  case (Suc n)
  show ?case
  proof (cases "c + 1 < unat (num_pages mp)")
    case True
    with Suc.prems(1) have "drop_bit PAGE_SHIFT (k_virt_to_phys k (kaddr mp + of_nat (c + 1) * PAGE_SIZE_UL)) = pfn mp + of_nat (c + 1)"
      unfolding contiguous_def by blast
    with True have "group_pages k mp 0 c (pfn mp + of_nat c) = group_pages k mp 0 (c + 1) (pfn mp + of_nat (c + 1))"
      by (subst group_pages.simps) (simp add: Let_def)
    moreover have "n = unat (num_pages mp) - (c + 1)" using Suc.hyps(2) by linarith
    from Suc.hyps(1)[OF this Suc.prems(1) True] have "fst (group_pages k mp 0 (c + 1) (pfn mp + of_nat (c + 1))) = unat (num_pages mp)" .
    ultimately show ?thesis by metis
  qed (use Suc.prems in \<open>subst group_pages.simps, simp\<close>)
qed simp

lemma invoke_loop_contiguous:
  assumes "contiguous k mp" "0 < n" "n \<le> unat (num_pages mp)"
  shows "invoke_loop k mp i n c 0 (pfn mp) ls h =
    (let (status, h) = k_mmuext_op k \<lparr>op_cmd = c, op_mfn = pfn mp, op_arg2 = ucast (num_pages mp)\<rparr> 1 DOMID_SELF 0 h
     in if status \<noteq> 0 then Some (- EINVAL, ls, h)
        else map_option (\<lambda>ls. (0, ls, h)) (set_lock_range ls i (unat (num_pages mp))))"
proof -
  obtain cur where g: "group_pages k mp 0 0 (pfn mp) = (unat (num_pages mp), cur)"
    using group_pages_contiguous[OF assms(1), of 0] assms(2,3) by (cases "group_pages k mp 0 0 (pfn mp)") simp
  have stop: "invoke_loop k mp i n c (unat (num_pages mp)) cur ls' h' = Some (0, ls', h')" for ls' h'
    using assms(3) by (subst invoke_loop.simps) simp
  obtain status h' where r:
    "k_mmuext_op k \<lparr>op_cmd = c, op_mfn = pfn mp, op_arg2 = ucast (num_pages mp)\<rparr> 1 DOMID_SELF 0 h = (status, h')" by fastforce
  have "invoke_loop k mp i n c 0 (pfn mp) ls h = (if status \<noteq> 0 then Some (- EINVAL, ls, h')
      else Option.bind (set_lock_range ls i (unat (num_pages mp))) (\<lambda>ls. Some (0, ls, h')))"
    by (subst invoke_loop.simps) (simp add: assms(2) g hypercall_def r stop)
  then show ?thesis unfolding r
    by (cases "status = 0"; cases "set_lock_range ls i (unat (num_pages mp))") simp_all
qed

lemma invoke_contiguous:
  assumes "contiguous k mp" "0 < n" "page_index + n \<le> num_pages mp" "n \<le> num_pages mp"
    and "k_kmalloc k ALLOC_GFNS" "lock_status mp = Some ls"
  shows "xom_invoke_xen k mp page_index n c h =
    (let (status, h) = k_mmuext_op k \<lparr>op_cmd = c, op_mfn = pfn mp, op_arg2 = ucast (num_pages mp)\<rparr> 1 DOMID_SELF 0 h
     in if status \<noteq> 0 then Some (- EINVAL, mp, h)
        else map_option (\<lambda>ls. (0, mp\<lparr>lock_status := Some ls\<rparr>, h))
               (set_lock_range ls (unat page_index) (unat (num_pages mp))))"
proof -
  have same: "mp\<lparr>lock_status := Some ls\<rparr> = mp" using assms(6) by (cases mp) simp
  have "0 < unat n" "unat n \<le> unat (num_pages mp)" using assms(2,4) by (simp_all add: word_le_nat_alt word_less_nat_alt)
  note loop = invoke_loop_contiguous[OF assms(1) this, of "unat page_index" c ls h]
  obtain status h' where r:
    "k_mmuext_op k \<lparr>op_cmd = c, op_mfn = pfn mp, op_arg2 = ucast (num_pages mp)\<rparr> 1 DOMID_SELF 0 h = (status, h')" by fastforce
  have "xom_invoke_xen k mp page_index n c h = Option.bind (invoke_loop k mp (unat page_index) (unat n) c 0 (pfn mp) ls h)
      (\<lambda>(status, ls, h). Some (status, mp\<lparr>lock_status := Some ls\<rparr>, h))"
    using assms(5,6) \<open>0 < unat n\<close> leD[OF assms(3)] by (auto simp: xom_invoke_xen_def)
  then show ?thesis unfolding loop r
    by (cases "status = 0"; cases "set_lock_range ls (unat page_index) (unat (num_pages mp))") (simp_all add: same)
qed

text \<open>
  What a request to the hypervisor covers. Pages from the page allocator are physically contiguous; then
  a request for any non-empty part of a mapping is one hypercall for the whole mapping, wherever the part starts
  and however long it is. On success the bits set in the lock array start at the requested page, and there are as many as the
  mapping has pages, so for a request that does not start at page 0 the array may be left.
\<close>

lemma xom_invoke_xen_whole_mapping:
  assumes "contiguous k mp" "0 < n" "page_index + n \<le> num_pages mp" "n \<le> num_pages mp"
    and "k_kmalloc k ALLOC_GFNS" "lock_status mp = Some ls"
  shows "xom_invoke_xen k mp page_index n c h =
    (let (status, h) = k_mmuext_op k \<lparr>op_cmd = c, op_mfn = pfn mp, op_arg2 = ucast (num_pages mp)\<rparr> 1 DOMID_SELF 0 h
     in if status \<noteq> 0 then Some (- EINVAL, mp, h)
        else map_option (\<lambda>ls. (0, mp\<lparr>lock_status := Some ls\<rparr>, h))
               (set_lock_range ls (unat page_index) (unat (num_pages mp))))"
  using assms by (rule invoke_contiguous)

lemma funpow_or_zero: "((OR) (0 :: u8) ^^ n) 0 = 0"
  by (induction n) auto

lemma no_intersection:
  "\<forall>mp \<in> set mps. \<not> intersects vma mp \<Longrightarrow> manage_mapping_intersection k vma mps h = Some (0, mps, h)"
  using find_mapping_None[of "intersects vma" mps] by (simp add: manage_mapping_intersection_def)

text \<open>
  C33: mapping and freeing. If mapping an area that meets no mapping of the process succeeds, then freeing the same
  area, with nothing locked in between, succeeds: the list of entries is the one before the mapping, and the last
  effect on the machine is that the allocated pages are given back, with the address and order they were allocated with.
\<close>

theorem mmap_free_roundtrip:
  assumes "get_process_entry (k_pid k) (xom_entries st) = Some (Some (bs, e, as))"
    and "\<forall>mp \<in> set (pe_mappings e). \<not> intersects vma mp"
    and "xom_mmap k vma st = Some (0, st')" "len = vm_end vma - vm_start vma"
    and "\<forall>h. fst (k_vm_munmap k (vm_start vma) len h) = 0"
  shows "\<exists>st'' h. xmem_free k \<lparr>cmd = MODXOM_CMD_FREE, cmd_num_pages = ucast (len div PAGE_SIZE_UL), base_addr = vm_start vma\<rparr> st'
      = Some (0, st'') \<and> xom_entries st'' = xom_entries st
    \<and> mach st'' = k_free_pages k (fst (k_get_free_pages k (k_get_order k len) (mach st))) (k_get_order k len) h"
proof -
  note es = get_process_entry_Some[OF assms(1)]
  have hvm: "k_xen_hvm k" using assms(3) by (cases "k_xen_hvm k") (simp_all add: xom_mmap_def)
  obtain new freed h where g: "get_new_mapping k vma (mach st) = (new, freed, h)" by (metis surj_pair)
  note run = xom_mmap_run[OF hvm assms(1) no_intersection[OF assms(2)] g]
  with assms(3) obtain mp where new: "new = Some mp" by (cases new) simp_all
  from run new assms(3) have st': "st' = st\<lparr>xom_entries := bs @ e\<lparr>pe_mappings := mp # pe_mappings e\<rparr> # as, mach := h\<rparr>" by simp
  note mp = get_new_mapping_ok[OF g[unfolded new], folded assms(4)]
  have unlocked: "were_pages_locked mp = Some False" using mp by (simp add: were_pages_locked_def funpow_or_zero)
  obtain h' where rel: "release_mapping k mp h = Some (0, mp\<lparr>lock_status := None\<rparr>,
      k_free_pages k (kaddr mp) (k_get_order k len) h')"
  proof -
    let ?h = "reserve_pages k False (kaddr mp) (unat (num_pages mp)) h"
    have "fst (k_vm_munmap k (uaddr mp) (map_len mp) ?h) = 0" using assms(5) mp by simp
    moreover have "kaddr mp \<noteq> 0" "map_len mp = len" using mp by blast+
    ultimately show thesis using unlocked
      by (intro that[of "if k_exiting k then ?h else snd (k_vm_munmap k (uaddr mp) (map_len mp) ?h)"])
         (simp add: release_mapping_def release_unlocked_def Let_def case_prod_unfold)
  qed
  have found: "get_process_entry (k_pid k) (xom_entries st') = Some (Some (bs, e\<lparr>pe_mappings := mp # pe_mappings e\<rparr>, as))"
    using es by (simp add: st' get_process_entry_append)
  let ?c = "\<lparr>cmd = MODXOM_CMD_FREE, cmd_num_pages = ucast (len div PAGE_SIZE_UL), base_addr = vm_start vma\<rparr>"
  have free: "xmem_free_mappings k ?c (mp # pe_mappings e) h =
      Some (0, pe_mappings e, k_free_pages k (kaddr mp) (k_get_order k len) h')"
    using mp rel by (simp add: xmem_free_mappings_def)
  have "xmem_free k ?c st' =
      Some (0, st'\<lparr>xom_entries := xom_entries st, mach := k_free_pages k (kaddr mp) (k_get_order k len) h'\<rparr>)"
    unfolding xmem_free_def with_process_def found using es by (simp add: free st')
  then show ?thesis using mp by fastforce
qed

definition sample_vma :: vm_area where
  "sample_vma = \<lparr>vm_start = 0x40000, vm_end = 0x42000\<rparr>"

theorem mmap_free_roundtrip_witness:
  "\<exists>st' st''. xom_mmap (sample_kernel []) sample_vma sample_mod = Some (0, st')
    \<and> xmem_free (sample_kernel []) \<lparr>cmd = MODXOM_CMD_FREE, cmd_num_pages = 2, base_addr = 0x40000\<rparr> st' = Some (0, st'')
    \<and> xom_entries st'' = xom_entries sample_mod"
proof -
  let ?e = "\<lparr>pe_pid = 7, pe_mappings = [sample_mapping], pe_freed = False\<rparr>"
  have no: "\<forall>mp \<in> set (pe_mappings ?e). \<not> intersects sample_vma mp"
    by (simp add: intersects_def sample_vma_def sample_mapping_def map_len_def)
  have "k_pid (sample_kernel []) = 7" "k_xen_hvm (sample_kernel [])" by (simp_all add: sample_kernel_def)
  then have e: "get_process_entry (k_pid (sample_kernel [])) (xom_entries sample_mod) =
      Some (Some ([\<lparr>pe_pid = 3, pe_mappings = [], pe_freed = False\<rparr>], ?e, []))" using sample_entry by simp
  have "\<exists>mp h. get_new_mapping (sample_kernel []) sample_vma (mach sample_mod) = (Some mp, False, h)"
    by (simp add: get_new_mapping_def sample_kernel_def sample_vma_def)
  then obtain mp h where g: "get_new_mapping (sample_kernel []) sample_vma (mach sample_mod) = (Some mp, False, h)" by blast
  have "\<exists>st'. xom_mmap (sample_kernel []) sample_vma sample_mod = Some (0, st')"
    using xom_mmap_run[OF \<open>k_xen_hvm (sample_kernel [])\<close> e no_intersection[OF no] g] by simp
  then obtain st' where m: "xom_mmap (sample_kernel []) sample_vma sample_mod = Some (0, st')" by blast
  from mmap_free_roundtrip[OF e no m refl] m show ?thesis by (simp add: sample_kernel_def sample_vma_def)
qed

text \<open>
  A dangling entry. If a mapping request of a process fails because the lock array cannot be
  allocated, the module frees the entry of the process and leaves it linked. Every later search for
  this process touches freed memory: no command works on it any more, and neither does closing the file.
\<close>

lemma mmap_failure_dangling_entry:
  assumes "k_xen_hvm k" "get_process_entry (k_pid k) (xom_entries st) = Some (Some (bs, e, as))"
    and "\<forall>mp \<in> set (pe_mappings e). \<not> intersects vma mp" "len = vm_end vma - vm_start vma"
    and "len mod PAGE_SIZE_UL = 0" "vm_start vma mod PAGE_SIZE_UL = 0" "len \<noteq> 0" "len \<le> 0x400000"
    and "k_kmalloc k ALLOC_MAPPING" "\<not> k_kmalloc k ALLOC_LOCK_STATUS" "k_pid k' = k_pid k"
  shows "\<exists>st'. xom_mmap k vma st = Some (- EINVAL, st') \<and> \<not> mod_ok st' \<and> xom_release k' st' = None
    \<and> (\<forall>f. with_process k' f st' = None)"
proof -
  have "get_new_mapping k vma (mach st) = (None, True, mach st)"
    unfolding get_new_mapping_def Let_def assms(4)[symmetric] using assms(5-7,9,10) leD[OF assms(8)] by simp
  note run = xom_mmap_run[OF assms(1,2) no_intersection[OF assms(3)] this]
  let ?st = "st\<lparr>xom_entries := bs @ e\<lparr>pe_freed := True\<rparr> # as\<rparr>"
  have same: "e\<lparr>pe_mappings := pe_mappings e, pe_freed := True\<rparr> = e\<lparr>pe_freed := True\<rparr>"
    "?st\<lparr>mach := mach st\<rparr> = ?st" by simp_all
  note es = get_process_entry_Some[OF assms(2)]
  have dead: "get_process_entry (k_pid k') (xom_entries ?st) = None"
    using es assms(11) by (simp add: get_process_entry_append)
  have "\<not> mod_ok ?st" by (simp add: mod_ok_def entry_ok_def)
  moreover have "xom_release k' ?st = None" "with_process k' f ?st = None" for f
    using dead by (simp_all only: xom_release_def with_process_def bind.simps)
  moreover have "xom_mmap k vma st = Some (- EINVAL, ?st)" using run same by simp
  ultimately show ?thesis by blast
qed

subsection \<open>The text of a read\<close>

lemma length_hex: "n < 16 ^ Suc d \<Longrightarrow> length (hex n) \<le> Suc d"
proof (induction d arbitrary: n)
  case 0
  then show ?case by (subst hex.simps) simp
next
  case (Suc d)
  then have "n div 16 < 16 ^ Suc d" by (simp add: less_mult_imp_div_less mult.commute)
  from Suc.IH[OF this] show ?case by (subst hex.simps) simp
qed

lemma length_pad16: "length (pad16 w) = 16"
proof -
  have "unat w < 16 ^ Suc 15" using unsigned_less[of w] by simp
  from length_hex[OF this] show ?thesis by (simp add: pad16_def Let_def)
qed

lemma length_mapping_line [simp]: "length (mapping_line a n) = 35"
  by (simp add: mapping_line_def length_pad16)

lemma length_header: "length READ_HEADER_STRING = 35"
  by (simp add: READ_HEADER_STRING_def)

definition line_of :: "u64 \<times> u64 \<Rightarrow> u8 list" where
  "line_of v = mapping_line (fst v) (snd v - fst v)"

lemma read_lines_text:
  assumes "\<forall>mp \<in> set mps. k_find_vma k (uaddr mp) h = Some (vma mp)" "35 * length mps \<le> m"
  shows "read_lines k mps h (length pre) (map Some pre @ Some 0 # replicate m None) =
    map Some (pre @ concat (map (line_of \<circ> vma) mps)) @ Some 0 # replicate (m - 35 * length mps) None"
  using assms
proof (induction mps arbitrary: pre m)
  case (Cons mp mps)
  let ?l = "line_of (vma mp)"
  have len: "length ?l = 35" by (simp add: line_of_def)
  from Cons.prems have "35 \<le> m" by simp
  then have "put_at (map Some pre @ Some 0 # replicate m None) (length pre) (take m ?l @ [0]) =
      map Some (pre @ ?l) @ Some 0 # replicate (m - 35) None"
    using len by (simp add: put_at_def)
  with Cons.prems have "read_lines k (mp # mps) h (length pre) (map Some pre @ Some 0 # replicate m None) =
      read_lines k mps h (length (pre @ ?l)) (map Some (pre @ ?l) @ Some 0 # replicate (m - 35) None)"
    by (simp add: line_of_def case_prod_unfold Let_def)
  moreover have "35 * length mps \<le> m - 35" "m - 35 - 35 * length mps = m - 35 * length (mp # mps)"
    using Cons.prems(2) by simp_all
  ultimately show ?case using Cons.IH[of "m - 35" "pre @ ?l"] Cons.prems(1) by simp
qed simp

text \<open>
  What a process reads from the file. With an area found for each of its mappings, a
  read of the whole file gives the header line, one line for each mapping in list order with the area's start and length,
  a NUL, and then six bytes for each mapping that the module never wrote: memory of the
  kernel that the buffer happened to hold.
\<close>

lemma xom_read_text:
  assumes "get_process_entry (k_pid k) (xom_entries st) = Some (Some (bs, e, as))"
    and "\<forall>mp \<in> set (pe_mappings e). k_find_vma k (uaddr mp) (mach st) = Some (vma mp)"
    and "k_kmalloc k ALLOC_STRING" "\<forall>n. k_user_writable k buf n" "36 + 41 * length (pe_mappings e) \<le> len"
  shows "xom_read k buf len 0 st = Some (36 + 41 * int (length (pe_mappings e)),
    map Some (READ_HEADER_STRING @ concat (map (line_of \<circ> vma) (pe_mappings e)) @ [0])
      @ replicate (6 * length (pe_mappings e)) None, 36 + 41 * length (pe_mappings e))"
proof -
  let ?n = "length (pe_mappings e)"
  have buf: "put_at (replicate (36 + 41 * ?n) None) 0 (READ_HEADER_STRING @ [0]) =
      map Some READ_HEADER_STRING @ Some 0 # replicate (41 * ?n) None"
    by (simp add: put_at_def length_header)
  have "length (concat (map (line_of \<circ> vma) (pe_mappings e))) = 35 * ?n"
    by (induction "pe_mappings e") (simp_all add: length_concat line_of_def comp_def sum_list_triv)
  then have l: "length (map Some (READ_HEADER_STRING @ concat (map (line_of \<circ> vma) (pe_mappings e))) @ Some 0 # replicate (6 * ?n) None)
      = 36 + 41 * ?n" by (simp add: length_header)
  from read_lines_text[OF assms(2), of "41 * ?n" READ_HEADER_STRING] length_header buf
  have "read_lines k (pe_mappings e) (mach st) 35 (put_at (replicate (36 + 41 * ?n) None) 0 (READ_HEADER_STRING @ [0])) =
      map Some (READ_HEADER_STRING @ concat (map (line_of \<circ> vma) (pe_mappings e))) @ Some 0 # replicate (6 * ?n) None" by simp
  with l assms show ?thesis by (simp add: xom_read_def length_header min_def)
qed

end
