(* ===== verification/Mmuext.thy ===== *)
theory Mmuext
  imports Xom_Seal
begin

text \<open>
  The way of a hypercall \<^verbatim>\<open>mmuext_op\<close> to the seal operations: \<^verbatim>\<open>do_mmuext_op\<close> in
  \<^verbatim>\<open>xen/xen/arch/x86/mm.c\<close> with the look-up of the domain the call is about, for a caller that is an HVM domain and
  has no page-table operation pending.
\<close>

text \<open>
  The identifier of the calling domain, the live domains (with \<^verbatim>\<open>is_pv_domain\<close> of each), whether the
  system domains that stand for I/O memory and for Xen's own memory count as PV, and the verdict of the security module on the caller
  and the domain it names.
\<close>

record mmuext_env =
  me_domain_id :: u16
  me_domains :: "u16 \<Rightarrow> bool option"
  me_dom_io :: bool
  me_dom_xen :: bool
  me_xsm :: int

abbreviation (input) DOMID_SELF_16 :: u16 where "DOMID_SELF_16 \<equiv> 0x7FF0"
abbreviation (input) DOMID_IO :: u16 where "DOMID_IO \<equiv> 0x7FF1"
abbreviation (input) DOMID_XEN :: u16 where "DOMID_XEN \<equiv> 0x7FF2"

definition rcu_lock_domain_by_any_id :: "mmuext_env \<Rightarrow> 'e xom_domain \<Rightarrow> u16 \<Rightarrow> bool option" where
  "rcu_lock_domain_by_any_id me d domid =
     (if domid = DOMID_SELF_16 then Some (\<not> is_hvm_domain d) else me_domains me domid)"

definition get_pg_owner :: "mmuext_env \<Rightarrow> 'e xom_domain \<Rightarrow> u16 \<Rightarrow> bool option" where
  "get_pg_owner me d domid =
     (if domid = me_domain_id me then None
      else if domid = DOMID_IO then Some (me_dom_io me)
      else if domid = DOMID_XEN then Some (me_dom_xen me)
      else rcu_lock_domain_by_any_id me d domid)"

text \<open>
  The outcome of the hypercall: a return code and the state, or an operation on the page tables of a PV
  domain, which is outside of the model.
\<close>

datatype 'd mmuext_result = Mmuext_done int 'd | Mmuext_pv_tables

text \<open>
  The loop over the operations when the named domain is PV. An HVM caller gets no further than the first operation that
  is not to pin or unpin a page table.
\<close>

fun mmuext_pv_loop :: "(nat \<Rightarrow> bool) \<Rightarrow> nat \<Rightarrow> mmuext_op option list \<Rightarrow> 'd \<Rightarrow> 'd mmuext_result" where
  "mmuext_pv_loop preempt i [] d = Mmuext_done 0 d"
| "mmuext_pv_loop preempt i (uop # uops) d =
     (if preempt i then Mmuext_done (- ERESTART) d
      else case uop of
        None \<Rightarrow> Mmuext_done (- EFAULT) d
      | Some op \<Rightarrow> if op_cmd op \<le> 4 then Mmuext_pv_tables else Mmuext_done (- EOPNOTSUPP) d)"

definition do_mmuext_op ::
  "mmuext_env \<Rightarrow> 'e xom_env \<Rightarrow> (nat \<Rightarrow> bool) \<Rightarrow> bool \<Rightarrow> mmuext_op option list \<Rightarrow> u32 \<Rightarrow> 'e xom_domain
    \<Rightarrow> 'e xom_domain mmuext_result option" where
  "do_mmuext_op me env preempt uops_okay uops foreigndom d =
     (if \<not> uops_okay then Some (Mmuext_done (- EFAULT) d)
      else case get_pg_owner me d (ucast foreigndom) of
        None \<Rightarrow> Some (Mmuext_done (- ESRCH) d)
      | Some is_pv \<Rightarrow>
          if \<not> is_pv
          then map_option (\<lambda>(rc, d, _). Mmuext_done rc d) (handle_xom_seal env preempt uops d)
          else if me_xsm me \<noteq> 0 then Some (Mmuext_done (me_xsm me) d)
          else Some (mmuext_pv_loop preempt 0 uops d))"

end
