(* ===== verification/Libxom.thy ===== *)
theory Libxom
  imports Modxom
begin

text \<open>
  The user library, \<^verbatim>\<open>libxom/libxom.c\<close>: buffers in execute-only memory, buffers of write-once subpages, and the
  migration of a process's code. The operating system, with the memory of the process and the kernel module behind
  \<^verbatim>\<open>/proc/xom\<close>, is a world of type \<open>'w\<close> reached through the functions of the record \<open>os\<close>. The static variables of the
  library are a record. Calls are serialised by \<^verbatim>\<open>lib_lock\<close>. A NULL dereference is \<^const>\<open>None\<close>.
\<close>

subsection \<open>Operating system\<close>

text \<open>
  \<open>os_mmap\<close> takes the address hint, the length, the protection, whether \<^verbatim>\<open>MAP_ANONYMOUS\<close> is given, and the file
  descriptor. \<open>os_malloc\<close> tells whether the allocation with the given index succeeds.
\<close>

record 'w os =
  os_mmap :: "u64 \<Rightarrow> u64 \<Rightarrow> nat \<Rightarrow> bool \<Rightarrow> int \<Rightarrow> 'w \<Rightarrow> u64 \<times> 'w"
  os_munmap :: "u64 \<Rightarrow> u64 \<Rightarrow> 'w \<Rightarrow> int \<times> 'w"
  os_mprotect :: "u64 \<Rightarrow> u64 \<Rightarrow> nat \<Rightarrow> 'w \<Rightarrow> int \<times> 'w"
  os_pkey_alloc :: "'w \<Rightarrow> int \<times> 'w"
  os_pkey_mprotect :: "u64 \<Rightarrow> u64 \<Rightarrow> nat \<Rightarrow> int \<Rightarrow> 'w \<Rightarrow> 'w"
  os_rdpkru :: "'w \<Rightarrow> u32"
  os_wrpkru :: "u32 \<Rightarrow> 'w \<Rightarrow> 'w"
  os_write :: "int \<Rightarrow> u8 list \<Rightarrow> 'w \<Rightarrow> int \<times> 'w"
  os_open_xom :: "'w \<Rightarrow> int \<times> 'w"
  os_close :: "int \<Rightarrow> 'w \<Rightarrow> 'w"
  os_store :: "u64 \<Rightarrow> u8 list \<Rightarrow> 'w \<Rightarrow> 'w"
  os_load :: "u64 \<Rightarrow> nat \<Rightarrow> 'w \<Rightarrow> u8 list"
  os_malloc :: "nat \<Rightarrow> bool"
  os_pid :: int
  os_pku :: bool

abbreviation (input) PROT_NONE :: nat where "PROT_NONE \<equiv> 0"
abbreviation (input) PROT_READ :: nat where "PROT_READ \<equiv> 1"
abbreviation (input) PROT_WRITE :: nat where "PROT_WRITE \<equiv> 2"
abbreviation (input) PROT_EXEC :: nat where "PROT_EXEC \<equiv> 4"

abbreviation (input) XOM_MODE_UNSUPPORTED :: nat where "XOM_MODE_UNSUPPORTED \<equiv> 0"
abbreviation (input) XOM_MODE_PKU :: nat where "XOM_MODE_PKU \<equiv> 1"
abbreviation (input) XOM_MODE_SLAT :: nat where "XOM_MODE_SLAT \<equiv> 2"

abbreviation (input) ALLOC_CHUNK_SIZE :: int where "ALLOC_CHUNK_SIZE \<equiv> 0x400000"
abbreviation (input) CHUNK_64 :: u64 where "CHUNK_64 \<equiv> 0x400000"

subsection \<open>State\<close>

record xombuf =
  buf_address :: u64
  allocated_size :: u64
  buf_pid :: int
  buf_locked :: bool
  buf_marked :: bool
  buf_mode :: nat

record xom_subpages =
  sp_address :: u64
  sp_mode :: nat
  sp_lock_status :: "u32 list"
  sp_num_subpages :: u64
  references :: u8

record 'w libxom =
  xomfd :: int
  subpage_pkey :: int
  xom_mode :: nat
  xom_base_addr :: u64
  libxom_pid :: int
  errno :: int
  world :: 'w

text \<open>Calls of the operating system, on the world inside the state of the library.\<close>

definition lib_mmap :: "'w os \<Rightarrow> u64 \<Rightarrow> u64 \<Rightarrow> nat \<Rightarrow> bool \<Rightarrow> int \<Rightarrow> 'w libxom \<Rightarrow> u64 \<times> 'w libxom" where
  "lib_mmap os a len prot anon fd l = (let (r, w) = os_mmap os a len prot anon fd (world l) in (r, l\<lparr>world := w\<rparr>))"

definition lib_munmap :: "'w os \<Rightarrow> u64 \<Rightarrow> u64 \<Rightarrow> 'w libxom \<Rightarrow> 'w libxom" where
  "lib_munmap os a len l = l\<lparr>world := snd (os_munmap os a len (world l))\<rparr>"

text \<open>A negative result of a system call becomes \<^verbatim>\<open>errno\<close> and the return value -1.\<close>

definition syscall_ret :: "int \<times> 'w \<Rightarrow> 'w libxom \<Rightarrow> int \<times> 'w libxom" where
  "syscall_ret rw l = (if fst rw < 0 then (- 1, l\<lparr>errno := - fst rw, world := snd rw\<rparr>) else (fst rw, l\<lparr>world := snd rw\<rparr>))"

definition lib_mprotect :: "'w os \<Rightarrow> u64 \<Rightarrow> u64 \<Rightarrow> nat \<Rightarrow> 'w libxom \<Rightarrow> int \<times> 'w libxom" where
  "lib_mprotect os a len prot l = syscall_ret (os_mprotect os a len prot (world l)) l"

definition lib_write :: "'w os \<Rightarrow> u8 list \<Rightarrow> 'w libxom \<Rightarrow> int \<times> 'w libxom" where
  "lib_write os bs l = syscall_ret (os_write os (xomfd l) bs (world l)) l"

text \<open>The bytes of a \<^verbatim>\<open>modxom_cmd\<close> on a little-endian machine.\<close>

definition cmd_bytes :: "modxom_cmd \<Rightarrow> u8 list" where
  "cmd_bytes c = le_bytes 4 (unat (cmd c)) @ le_bytes 4 (unat (cmd_num_pages c)) @ le_bytes 8 (unat (base_addr c))"

text \<open>\<^verbatim>\<open>SIZE_CEIL\<close>, on a 64-bit value.\<close>

definition SIZE_CEIL :: "u64 \<Rightarrow> u64" where
  "SIZE_CEIL s = push_bit PAGE_SHIFT (drop_bit PAGE_SHIFT s + (if s AND 0xFFF \<noteq> 0 then 1 else 0))"

definition chunk_bytes :: "int \<Rightarrow> u64" where
  "chunk_bytes size_left = SIZE_CEIL (of_int (min ALLOC_CHUNK_SIZE size_left))"

subsection \<open>Entering the library\<close>

text \<open>After a fork the file is opened again, so that the module has an entry for the new process.\<close>

definition libxom_prologue :: "'w os \<Rightarrow> 'w libxom \<Rightarrow> 'w libxom" where
  "libxom_prologue os l =
     (if xomfd l \<ge> 0 \<and> libxom_pid l \<noteq> os_pid os
      then let (fd, w) = os_open_xom os (os_close os (xomfd l) (world l))
           in l\<lparr>xomfd := fd, libxom_pid := os_pid os, world := w\<rparr>
      else l)"

subsection \<open>Buffers\<close>

text \<open>The loop that undoes a partial allocation compares addresses and need not end; it is a partial function.\<close>

partial_function (option) unmap_chunks ::
  "'w os \<Rightarrow> u64 \<Rightarrow> u64 \<Rightarrow> int \<Rightarrow> 'w libxom \<Rightarrow> 'w libxom option" where
  "unmap_chunks os a last_address size_left l =
     (if a \<noteq> 0 \<and> a \<le> last_address
      then unmap_chunks os (a + CHUNK_64) last_address (size_left - ALLOC_CHUNK_SIZE)
             (lib_munmap os a (chunk_bytes size_left) l)
      else Some l)"

text \<open>
  The allocation loop: the address of the buffer (0 until the first chunk is mapped), the last chunk, and whether
  all chunks were mapped.
\<close>

function alloc_chunks ::
  "'w os \<Rightarrow> u64 \<Rightarrow> u64 \<Rightarrow> u64 \<Rightarrow> int \<Rightarrow> 'w libxom \<Rightarrow> bool \<times> u64 \<times> u64 \<times> 'w libxom" where
  "alloc_chunks os current_address ret_address last_address size_left l =
     (if size_left > 0
      then let (current_address, l) =
                 lib_mmap os current_address (chunk_bytes size_left) (PROT_READ + PROT_WRITE) (xomfd l < 0) (xomfd l) l
           in if current_address = 0 then (False, ret_address, last_address, l)
              else let ret_address = (if ret_address = 0 then current_address else ret_address);
                       last_address = current_address;
                       current_address = current_address + CHUNK_64
                   in alloc_chunks os current_address ret_address last_address (size_left - ALLOC_CHUNK_SIZE)
                        (l\<lparr>xom_base_addr := current_address\<rparr>)
      else (True, ret_address, last_address, l))"
  by auto
termination
  by (relation "measure (\<lambda>(os, c, r, a, size_left, l). nat size_left)") auto

declare alloc_chunks.simps [simp del]

definition xomalloc_page_internal :: "'w os \<Rightarrow> u64 \<Rightarrow> 'w libxom \<Rightarrow> (xombuf option \<times> 'w libxom) option" where
  "xomalloc_page_internal os sz l =
     (if sz = 0 \<or> xom_mode l = XOM_MODE_UNSUPPORTED then Some (None, l\<lparr>errno := EINVAL\<rparr>)
      else if \<not> os_malloc os 0 then Some (None, l\<lparr>errno := ENOMEM\<rparr>)
      else let (ok, address, last_address, l) = alloc_chunks os (xom_base_addr l) 0 0 (sint sz) l
           in if ok then Some (Some \<lparr>buf_address = address, allocated_size = sz, buf_pid = os_pid os,
                                buf_locked = False, buf_marked = False, buf_mode = xom_mode l\<rparr>, l)
              else map_option (\<lambda>l. (None, l)) (unmap_chunks os address last_address (sint sz) l))"

text \<open>The source of a write is an address; NULL is 0.\<close>

definition xom_write_internal ::
  "'w os \<Rightarrow> xombuf option \<Rightarrow> u64 \<Rightarrow> u64 \<Rightarrow> u64 \<Rightarrow> 'w libxom \<Rightarrow> int \<times> 'w libxom" where
  "xom_write_internal os dest src sz offset l =
     (case dest of
        None \<Rightarrow> (- 1, l\<lparr>errno := EINVAL\<rparr>)
      | Some b \<Rightarrow>
          if src = 0 \<or> sz = 0 then (- 1, l\<lparr>errno := EINVAL\<rparr>)
          else if buf_locked b \<or> allocated_size b < offset + sz then (- 1, l\<lparr>errno := EINVAL\<rparr>)
          else (sint (ucast sz :: 32 word),
                l\<lparr>world := os_store os (buf_address b + offset) (os_load os src (unat sz) (world l)) (world l)\<rparr>))"

text \<open>
  The lock commands of a buffer, one for each chunk; \<open>c\<close> is a signed \<^verbatim>\<open>int\<close>, so the offset is a product of 32 bits.
  The loop stops at the first error.
\<close>

definition chunk_cmd :: "u32 \<Rightarrow> u64 \<Rightarrow> u64 \<Rightarrow> int \<Rightarrow> modxom_cmd" where
  "chunk_cmd code address off size_left =
     \<lparr>cmd = code, cmd_num_pages = drop_bit PAGE_SHIFT (ucast (chunk_bytes size_left)), base_addr = address + off\<rparr>"

function lock_chunks :: "'w os \<Rightarrow> u64 \<Rightarrow> nat \<Rightarrow> int \<Rightarrow> 'w libxom \<Rightarrow> bool \<times> 'w libxom" where
  "lock_chunks os address c size_left l =
     (if size_left > 0
      then let off = scast (of_nat c * 0x400000 :: 32 word);
               (status, l) = lib_write os (cmd_bytes (chunk_cmd MODXOM_CMD_LOCK address off size_left)) l
           in if status < 0 then (False, l)
              else lock_chunks os address (c + 1) (size_left - ALLOC_CHUNK_SIZE) l
      else (True, l))"
  by auto
termination
  by (relation "measure (\<lambda>(os, a, c, size_left, l). nat size_left)") auto

declare lock_chunks.simps [simp del]

text \<open>The result is the returned pointer (0 for NULL) and the buffer.\<close>

definition xom_lock_internal :: "'w os \<Rightarrow> xombuf option \<Rightarrow> 'w libxom \<Rightarrow> u64 \<times> xombuf option \<times> 'w libxom" where
  "xom_lock_internal os buf l =
     (case buf of
        None \<Rightarrow> (0, None, l\<lparr>errno := EINVAL\<rparr>)
      | Some b \<Rightarrow>
          if buf_locked b then (buf_address b, buf, l)
          else if buf_mode b = XOM_MODE_PKU
          then let (r, l) = lib_mprotect os (buf_address b) (SIZE_CEIL (allocated_size b)) PROT_EXEC l
               in if r < 0 then (0, buf, l) else (buf_address b, Some (b\<lparr>buf_locked := True\<rparr>), l)
          else if buf_pid b \<noteq> libxom_pid l then (0, buf, l)
          else let (ok, l) = lock_chunks os (buf_address b) 0 (sint (allocated_size b)) l
               in if ok then (buf_address b, Some (b\<lparr>buf_locked := True\<rparr>), l) else (0, buf, l))"

text \<open>
  Freeing: here \<open>c\<close> is unsigned. The result of the command is ignored, and \<^verbatim>\<open>munmap\<close> gets the start of the buffer in
  every round.
\<close>

function free_chunks :: "'w os \<Rightarrow> u64 \<Rightarrow> nat \<Rightarrow> int \<Rightarrow> 'w libxom \<Rightarrow> 'w libxom" where
  "free_chunks os address c size_left l =
     (if size_left > 0
      then let off = ucast (of_nat c * 0x400000 :: u32);
               (_, l) = lib_write os (cmd_bytes (chunk_cmd MODXOM_CMD_FREE address off size_left)) l;
               l = lib_munmap os address (chunk_bytes size_left) l
           in free_chunks os address (c + 1) (size_left - ALLOC_CHUNK_SIZE) l
      else l)"
  by auto
termination
  by (relation "measure (\<lambda>(os, a, c, size_left, l). nat size_left)") auto

declare free_chunks.simps [simp del]

definition xom_free_internal :: "'w os \<Rightarrow> xombuf option \<Rightarrow> 'w libxom \<Rightarrow> 'w libxom" where
  "xom_free_internal os buf l =
     (case buf of
        None \<Rightarrow> l
      | Some b \<Rightarrow>
          if buf_mode b = XOM_MODE_PKU then lib_munmap os (buf_address b) (SIZE_CEIL (allocated_size b)) l
          else free_chunks os (buf_address b) 0 (sint (allocated_size b)) l)"

subsection \<open>Subpages\<close>

text \<open>What a pointer to a subpage buffer can be: NULL, a live object, or the address of an object already freed.\<close>

datatype subpages_ptr = Sp_null | Sp_live xom_subpages | Sp_dangling

definition subpage_count :: "u64 \<Rightarrow> u64" where
  "subpage_count sz = sz div 128 + (if sz mod 128 \<noteq> 0 then 1 else 0)"

definition new_subpages :: "nat \<Rightarrow> u64 \<Rightarrow> u64 \<Rightarrow> xom_subpages" where
  "new_subpages mode address sz =
     \<lparr>sp_address = address, sp_mode = mode, sp_lock_status = replicate (unat (drop_bit PAGE_SHIFT (SIZE_CEIL sz))) 0,
      sp_num_subpages = subpage_count sz, references = 0\<rparr>"

definition xom_alloc_subpages_internal :: "'w os \<Rightarrow> u64 \<Rightarrow> 'w libxom \<Rightarrow> (subpages_ptr \<times> 'w libxom) option" where
  "xom_alloc_subpages_internal os sz l =
     (if sz > CHUNK_64 then Some (Sp_null, l)
      else do {
        (buf, l) \<leftarrow> xomalloc_page_internal os sz l;
        (case buf of
           None \<Rightarrow> Some (Sp_null, l)
         | Some b \<Rightarrow>
             if \<not> os_malloc os 1 then Some (Sp_null, l\<lparr>errno := ENOMEM\<rparr>)
             else let (ret, l) = (if os_malloc os 2 then (Sp_live (new_subpages (xom_mode l) (buf_address b) sz), l)
                                  else (Sp_null, l\<lparr>errno := ENOMEM\<rparr>))
                  in if xom_mode l = XOM_MODE_SLAT
                     then let c = \<lparr>cmd = MODXOM_CMD_INIT_SUBPAGES,
                                   cmd_num_pages = ucast (drop_bit PAGE_SHIFT (SIZE_CEIL (allocated_size b))),
                                   base_addr = buf_address b\<rparr>;
                              (status, l) = lib_write os (cmd_bytes c) l
                          in Some (if status < 0 \<and> ret \<noteq> Sp_null then Sp_dangling else ret, l)
                     else if xom_mode l = XOM_MODE_PKU
                     then let (key, w) = (if subpage_pkey l < 0 then os_pkey_alloc os (world l) else (subpage_pkey l, world l))
                          in case ret of
                               Sp_live sp \<Rightarrow> Some (ret, l\<lparr>subpage_pkey := key,
                                 world := os_pkey_mprotect os (sp_address sp) (allocated_size b) 7 key w\<rparr>)
                             | _ \<Rightarrow> None
                     else Some (ret, l))
      })"

text \<open>The body of a subpage command: one record for each subpage, with 128 bytes read from the source.\<close>

definition subpage_records :: "nat \<Rightarrow> nat \<Rightarrow> (nat \<Rightarrow> u8 list) \<Rightarrow> u8 list" where
  "subpage_records n base_subpage data =
     of_nat n # concat (map (\<lambda>i. of_nat (i + base_subpage) # data i) [0..<n])"

text \<open>The body of \<^verbatim>\<open>write_into_subpages\<close>: the returned pointer (0 for NULL), the updated buffer and the library.\<close>

definition write_into_subpages ::
  "'w os \<Rightarrow> xom_subpages \<Rightarrow> nat \<Rightarrow> u64 \<Rightarrow> nat \<Rightarrow> nat \<Rightarrow> u32 \<Rightarrow> 'w libxom \<Rightarrow> (u64 \<times> xom_subpages \<times> 'w libxom) option" where
  "write_into_subpages os dest n src base_page base_subpage msk l =
     (let dest_addr = sp_address dest + of_nat base_page * 4096 + of_nat base_subpage * 128;
          done = (\<lambda>l. if base_page < length (sp_lock_status dest)
                      then Some (dest_addr,
                             dest\<lparr>sp_lock_status := (sp_lock_status dest)[base_page :=
                                    sp_lock_status dest ! base_page OR push_bit base_subpage msk],
                                  references := references dest + 1\<rparr>, l)
                      else None)
      in if sp_mode dest = XOM_MODE_SLAT
         then if \<not> os_malloc os 4 then None
              else let c = \<lparr>cmd = MODXOM_CMD_WRITE_SUBPAGES, cmd_num_pages = 1,
                            base_addr = sp_address dest + of_nat base_page * 4096\<rparr>;
                       data = (\<lambda>i. os_load os (src + of_nat i * 128) SUBPAGE_SIZE (world l));
                       (status, l) = lib_write os (cmd_bytes c @ subpage_records n base_subpage data) l
                   in if status < 0 then Some (0, dest, l) else done l
         else if sp_mode dest = XOM_MODE_PKU
         then let pkru = os_rdpkru os (world l);
                  w = os_wrpkru os (pkru AND NOT (push_bit (nat (2 * subpage_pkey l)) 3)) (world l);
                  w = os_store os dest_addr (os_load os src (n * SUBPAGE_SIZE) w) w
              in done (l\<lparr>world := os_wrpkru os pkru w\<rparr>)
         else Some (0, dest, l))"

text \<open>The positions the search tries, in its order: pages, and in each page the offsets where \<open>n\<close> subpages fit.\<close>

definition subpage_positions :: "nat \<Rightarrow> nat \<Rightarrow> (nat \<times> nat) list" where
  "subpage_positions pages n = concat (map (\<lambda>p. map (Pair p) [0..<SUBPAGES_PER_PAGE - n + 1]) [0..<pages])"

definition position_free :: "u32 list \<Rightarrow> u32 \<Rightarrow> nat \<times> nat \<Rightarrow> bool" where
  "position_free ls msk = (\<lambda>(p, s). push_bit s msk AND ls ! p = 0)"

definition xom_fill_and_lock_subpages_internal ::
  "'w os \<Rightarrow> xom_subpages \<Rightarrow> u64 \<Rightarrow> u64 \<Rightarrow> 'w libxom \<Rightarrow> (u64 \<times> xom_subpages \<times> 'w libxom) option" where
  "xom_fill_and_lock_subpages_internal os dest sz src l =
     (let required = subpage_count sz
      in if sz = 0 \<or> required > sp_num_subpages dest \<or> required > of_nat MAX_SUBPAGES_PER_CMD
         then Some (0, dest, l\<lparr>errno := EINVAL\<rparr>)
         else let n = unat required;
                  msk = push_bit n 1 - 1;
                  pages = unat (sp_num_subpages dest * 128 div 4096)
              in case List.find (position_free (sp_lock_status dest) msk) (subpage_positions pages n) of
                   Some (p, s) \<Rightarrow> write_into_subpages os dest n src p s msk l
                 | None \<Rightarrow> Some (0, dest, l\<lparr>errno := - ENOMEM\<rparr>))"

definition xom_free_all_subpages_internal :: "'w os \<Rightarrow> xom_subpages \<Rightarrow> 'w libxom \<Rightarrow> 'w libxom" where
  "xom_free_all_subpages_internal os sp l =
     (if os_malloc os 3
      then xom_free_internal os (Some \<lparr>buf_address = sp_address sp, allocated_size = sp_num_subpages sp * 128,
             buf_pid = 0, buf_locked = True, buf_marked = False, buf_mode = sp_mode sp\<rparr>) l
      else l)"

text \<open>The buffer is \<^const>\<open>None\<close> after it was freed. The count of references is a signed byte.\<close>

definition xom_free_subpages_internal ::
  "'w os \<Rightarrow> xom_subpages \<Rightarrow> u64 \<Rightarrow> 'w libxom \<Rightarrow> int \<times> xom_subpages option \<times> 'w libxom" where
  "xom_free_subpages_internal os sp base_address l =
     (if base_address < sp_address sp then (- 1, Some sp, l)
      else if base_address \<ge> sp_address sp + sp_num_subpages sp * 128 then (- 1, Some sp, l)
      else let sp = sp\<lparr>references := references sp - 1\<rparr>
           in if sint (references sp) \<le> 0 then (1, None, xom_free_all_subpages_internal os sp l)
              else (0, Some sp, l))"

subsection \<open>Mode and register clearing\<close>

definition set_xom_mode_internal :: "'w os \<Rightarrow> int \<Rightarrow> 'w libxom \<Rightarrow> int \<times> 'w libxom" where
  "set_xom_mode_internal os new_xom_mode l =
     (if new_xom_mode = int (xom_mode l) then (0, l)
      else if new_xom_mode = int XOM_MODE_SLAT
      then if xomfd l \<le> 0 then (- 1, l) else (0, l\<lparr>xom_mode := XOM_MODE_SLAT\<rparr>)
      else if new_xom_mode = int XOM_MODE_PKU
      then if \<not> os_pku os then (- 1, l) else (0, l\<lparr>xom_mode := XOM_MODE_PKU\<rparr>)
      else (- 1, l))"

definition mark_register_clear_internal ::
  "'w os \<Rightarrow> xombuf \<Rightarrow> bool \<Rightarrow> u64 \<Rightarrow> 'w libxom \<Rightarrow> int \<times> xombuf \<times> 'w libxom" where
  "mark_register_clear_internal os buf full_clear page_number l =
     (let c = \<lparr>cmd = MODXOM_CMD_MARK_REG_CLEAR,
               cmd_num_pages = of_nat (if full_clear then REG_CLEAR_TYPE_FULL else REG_CLEAR_TYPE_VECTOR),
               base_addr = buf_address buf + page_number * 4096\<rparr>
      in if buf_pid buf \<noteq> libxom_pid l then (- EINVAL, buf, l)
         else if xom_mode l \<noteq> XOM_MODE_SLAT \<or> \<not> buf_locked buf \<or> buf_marked buf then (- EINVAL, buf, l)
         else let (status, l) = lib_write os (cmd_bytes c) l
              in if status < 0 then (- errno l, buf, l) else (0, buf\<lparr>buf_marked := True\<rparr>, l))"

subsection \<open>Interface\<close>

definition xom_alloc :: "'w os \<Rightarrow> u64 \<Rightarrow> 'w libxom \<Rightarrow> (xombuf option \<times> 'w libxom) option" where
  "xom_alloc os sz l = xomalloc_page_internal os sz (libxom_prologue os l)"

definition xom_get_size :: "xombuf option \<Rightarrow> u64" where
  "xom_get_size buf = (case buf of None \<Rightarrow> 0 | Some b \<Rightarrow> allocated_size b)"

definition lib_xom_write :: "'w os \<Rightarrow> xombuf option \<Rightarrow> u64 \<Rightarrow> u64 \<Rightarrow> u64 \<Rightarrow> 'w libxom \<Rightarrow> int \<times> 'w libxom" where
  "lib_xom_write os dest src sz offset l = xom_write_internal os dest src sz offset (libxom_prologue os l)"

definition xom_lock :: "'w os \<Rightarrow> xombuf option \<Rightarrow> 'w libxom \<Rightarrow> u64 \<times> xombuf option \<times> 'w libxom" where
  "xom_lock os buf l = xom_lock_internal os buf (libxom_prologue os l)"

definition xom_free :: "'w os \<Rightarrow> xombuf option \<Rightarrow> 'w libxom \<Rightarrow> 'w libxom" where
  "xom_free os buf l = xom_free_internal os buf (libxom_prologue os l)"

definition xom_mark_register_clear ::
  "'w os \<Rightarrow> xombuf \<Rightarrow> bool \<Rightarrow> u64 \<Rightarrow> 'w libxom \<Rightarrow> int \<times> xombuf \<times> 'w libxom" where
  "xom_mark_register_clear os buf full_clear page_number l =
     (if page_number * 4096 > allocated_size buf then (- EINVAL, buf, l)
      else mark_register_clear_internal os buf full_clear page_number (libxom_prologue os l))"

definition xom_mark_register_clear_subpage ::
  "'w os \<Rightarrow> xom_subpages \<Rightarrow> bool \<Rightarrow> u64 \<Rightarrow> 'w libxom \<Rightarrow> int \<times> 'w libxom" where
  "xom_mark_register_clear_subpage os sp full_clear page_number l =
     (let buf = \<lparr>buf_address = sp_address sp, allocated_size = sp_num_subpages sp * 128, buf_pid = 0,
                 buf_locked = True, buf_marked = False, buf_mode = 0\<rparr>;
          (ret, _, l) = xom_mark_register_clear os buf full_clear page_number l
      in (ret, l))"

definition xom_alloc_subpages :: "'w os \<Rightarrow> u64 \<Rightarrow> 'w libxom \<Rightarrow> (subpages_ptr \<times> 'w libxom) option" where
  "xom_alloc_subpages os sz l = xom_alloc_subpages_internal os sz (libxom_prologue os l)"

definition xom_fill_and_lock_subpages ::
  "'w os \<Rightarrow> xom_subpages \<Rightarrow> u64 \<Rightarrow> u64 \<Rightarrow> 'w libxom \<Rightarrow> (u64 \<times> xom_subpages \<times> 'w libxom) option" where
  "xom_fill_and_lock_subpages os dest sz src l = xom_fill_and_lock_subpages_internal os dest sz src (libxom_prologue os l)"

definition xom_free_subpages ::
  "'w os \<Rightarrow> xom_subpages \<Rightarrow> u64 \<Rightarrow> 'w libxom \<Rightarrow> int \<times> xom_subpages option \<times> 'w libxom" where
  "xom_free_subpages os sp base_address l = xom_free_subpages_internal os sp base_address (libxom_prologue os l)"

definition xom_free_all_subpages :: "'w os \<Rightarrow> xom_subpages \<Rightarrow> 'w libxom \<Rightarrow> 'w libxom" where
  "xom_free_all_subpages os sp l = xom_free_all_subpages_internal os sp (libxom_prologue os l)"

definition get_xom_mode :: "'w os \<Rightarrow> 'w libxom \<Rightarrow> int \<times> 'w libxom" where
  "get_xom_mode os l = (let l = libxom_prologue os l in (int (xom_mode l), l))"

definition set_xom_mode :: "'w os \<Rightarrow> int \<Rightarrow> 'w libxom \<Rightarrow> int \<times> 'w libxom" where
  "set_xom_mode os new_xom_mode l = set_xom_mode_internal os new_xom_mode (libxom_prologue os l)"

end
