(* ===== verification/Libxom_Code.thy ===== *)
theory Libxom_Code
  imports Libxom
begin

text \<open>
  The parts of \<^verbatim>\<open>libxom/libxom.c\<close> that deal with the code of the running process: finding its text sections, moving them into
  execute-only memory, the hooks for libraries loaded later, the initialisation of the library, and blocks of code
  that are repeated when their registers were cleared.
\<close>

subsection \<open>Environment\<close>

text \<open>
  The lines of \<^verbatim>\<open>/proc/self/maps\<close> when the file is read for the first and for the second time (\<^const>\<open>None\<close> if it cannot
  be opened), the address of the vDSO, and the address of the library's own code.
\<close>

record 'w code_os =
  co_os :: "'w os"
  co_maps :: "nat \<Rightarrow> 'w \<Rightarrow> string list option"
  co_vdso :: u64
  co_self :: u64

record text_region =
  text_base :: u64
  text_end :: u64
  text_type :: u8
  jump_into_backup :: bool

abbreviation (input) TEXT_TYPE_EXECUTABLE :: u8 where "TEXT_TYPE_EXECUTABLE \<equiv> 1"
abbreviation (input) TEXT_TYPE_SHARED :: u8 where "TEXT_TYPE_SHARED \<equiv> 2"
abbreviation (input) TEXT_TYPE_VDSO :: u8 where "TEXT_TYPE_VDSO \<equiv> 4"

subsection \<open>Text sections\<close>

text \<open>\<^verbatim>\<open>sscanf(line, "%lx-%lx %c%c%c", ...)\<close> on a line of the file; \<^const>\<open>None\<close> if not all five items are found.\<close>

definition hex_char :: "char \<Rightarrow> nat option" where
  "hex_char ch =
     (let c = of_char ch :: nat
      in if 48 \<le> c \<and> c \<le> 57 then Some (c - 48)
         else if 97 \<le> c \<and> c \<le> 102 then Some (c - 87)
         else if 65 \<le> c \<and> c \<le> 70 then Some (c - 55)
         else None)"

fun scan_digits :: "nat \<Rightarrow> string \<Rightarrow> nat \<times> string" where
  "scan_digits acc [] = (acc, [])"
| "scan_digits acc (ch # cs) =
     (case hex_char ch of None \<Rightarrow> (acc, ch # cs) | Some d \<Rightarrow> scan_digits (16 * acc + d) cs)"

definition scan_hex :: "string \<Rightarrow> (u64 \<times> string) option" where
  "scan_hex cs =
     (case cs of
        [] \<Rightarrow> None
      | ch # _ \<Rightarrow> if hex_char ch = None then None
                   else let (n, rest) = scan_digits 0 cs in Some (of_nat n, rest))"

definition scan_maps_line :: "string \<Rightarrow> (u64 \<times> u64 \<times> char \<times> char \<times> char) option" where
  "scan_maps_line line = do {
     (start, r) \<leftarrow> scan_hex line;
     r \<leftarrow> (case r of ch # r \<Rightarrow> if ch = CHR ''-'' then Some r else None | [] \<Rightarrow> None);
     (stop, r) \<leftarrow> scan_hex r;
     (case dropWhile (\<lambda>ch. ch = CHR '' '') r of
        a # b # c # _ \<Rightarrow> Some (start, stop, a, b, c)
      | _ \<Rightarrow> None)
   }"

definition executable_line :: "string \<Rightarrow> bool" where
  "executable_line line =
     (case scan_maps_line line of Some (_, _, _, _, x) \<Rightarrow> x = CHR ''x'' | None \<Rightarrow> False)"

definition region_of :: "'w code_os \<Rightarrow> bool \<Rightarrow> u64 \<Rightarrow> u64 \<Rightarrow> text_region" where
  "region_of co is_first start stop =
     \<lparr>text_base = start, text_end = stop,
      text_type = (if is_first then TEXT_TYPE_EXECUTABLE else if start = co_vdso co then TEXT_TYPE_VDSO
                   else TEXT_TYPE_SHARED),
      jump_into_backup = (start \<le> co_self co \<and> stop > co_self co)\<rparr>"

text \<open>
  The second pass over the file. The array has room for \<open>room\<close> regions; if the file has more executable areas by now, the
  array is left, which is \<^const>\<open>None\<close>.
\<close>

fun collect_regions ::
  "'w code_os \<Rightarrow> nat \<Rightarrow> text_region list \<Rightarrow> string list \<Rightarrow> text_region list option" where
  "collect_regions co room regions [] = Some regions"
| "collect_regions co room regions (line # lines) =
     (case scan_maps_line line of
        None \<Rightarrow> collect_regions co room regions lines
      | Some (start, stop, _, _, x) \<Rightarrow>
          if x \<noteq> CHR ''x'' then collect_regions co room regions lines
          else if length regions \<ge> room then None
          else collect_regions co room (regions @ [region_of co (regions = []) start stop]) lines)"

text \<open>The inner \<^const>\<open>None\<close> is the NULL result. The array has one more entry, for the end mark.\<close>

definition explore_text_regions :: "'w code_os \<Rightarrow> 'w \<Rightarrow> text_region list option option" where
  "explore_text_regions co w =
     (case co_maps co 0 w of
        None \<Rightarrow> Some None
      | Some lines \<Rightarrow>
          let count = length (filter executable_line lines)
          in if \<not> os_malloc (co_os co) 5 then Some None
             else let lines = (case co_maps co 1 w of None \<Rightarrow> [] | Some ls \<Rightarrow> ls)
                  in do {
                    regions \<leftarrow> collect_regions co (count + 1) [] lines;
                    (if length regions > count then None else Some (Some regions))
                  })"

subsection \<open>Moving a text section\<close>

text \<open>A function that may end the process.\<close>

datatype 'a outcome = Exit int | Ret 'a

function remap_chunks :: "'w os \<Rightarrow> u64 \<Rightarrow> int \<Rightarrow> nat \<Rightarrow> u64 \<Rightarrow> int \<Rightarrow> 'w \<Rightarrow> 'w outcome" where
  "remap_chunks os base fd c remapping size_left w =
     (if size_left > 0
      then let (rptr, w) = os_mmap os remapping (of_int (min size_left ALLOC_CHUNK_SIZE)) PROT_NONE False fd w
           in if rptr \<noteq> base + ucast (of_nat c * 0x400000 :: u32) then Exit (- sint (ucast rptr :: 8 word))
              else remap_chunks os base fd (c + 1) (remapping + CHUNK_64) (size_left - ALLOC_CHUNK_SIZE) w
      else Ret w)"
  by auto
termination
  by (relation "measure (\<lambda>(os, b, fd, c, r, size_left, w). nat size_left)") auto

declare remap_chunks.simps [simp del]

definition remap_no_libc :: "'w os \<Rightarrow> text_region \<Rightarrow> u64 \<Rightarrow> int \<Rightarrow> 'w \<Rightarrow> (int \<times> 'w) outcome" where
  "remap_no_libc os space dest fd w =
     (let len = text_end space - text_base space;
          (status, w) = os_munmap os (text_base space) len w
      in if status < 0 then Exit 1
         else case remap_chunks os (text_base space) fd 0 (text_base space) (sint len) w of
                Exit code \<Rightarrow> Exit code
              | Ret w \<Rightarrow> Ret (0, os_store os (text_base space) (os_load os dest (8 * (unat len div 8)) w) w))"

text \<open>The loop that locks the section; here the number of pages is not rounded up.\<close>

function lock_text :: "'w os \<Rightarrow> u64 \<Rightarrow> nat \<Rightarrow> int \<Rightarrow> int \<Rightarrow> 'w libxom \<Rightarrow> int \<times> 'w libxom" where
  "lock_text os base c size_left status l =
     (if status \<ge> 0 \<and> size_left > 0
      then let cm = \<lparr>cmd = MODXOM_CMD_LOCK, cmd_num_pages = of_int (min size_left ALLOC_CHUNK_SIZE div 4096),
                     base_addr = base + ucast (of_nat c * 0x400000 :: u32)\<rparr>;
               (status, l) = lib_write os (cmd_bytes cm) l
           in lock_text os base (c + 1) (size_left - ALLOC_CHUNK_SIZE) status l
      else (status, l))"
  by auto
termination
  by (relation "measure (\<lambda>(os, b, c, size_left, s, l). nat size_left)") auto

declare lock_text.simps [simp del]

definition migrate_text_section :: "'w os \<Rightarrow> text_region \<Rightarrow> 'w libxom \<Rightarrow> (int \<times> 'w libxom) outcome" where
  "migrate_text_section os space l =
     (let len = text_end space - text_base space;
          bytes = push_bit PAGE_SHIFT (drop_bit PAGE_SHIFT len)
      in if xomfd l < 0 then Ret (lib_mprotect os (text_base space) len PROT_EXEC l)
         else let (dest, l) = lib_mmap os 0 bytes (PROT_READ + PROT_WRITE) True (- 1) l
              in if dest = - 1 then Ret (- 1, l)
                 else let w = os_store os dest (os_load os (text_base space) (unat bytes) (world l)) (world l);
                          w = (if jump_into_backup space then snd (os_mprotect os dest bytes (PROT_READ + PROT_EXEC) w) else w)
                      in case remap_no_libc os space dest (xomfd l) w of
                           Exit code \<Rightarrow> Exit code
                         | Ret (status, w) \<Rightarrow>
                             let (status, l) = lock_text os (text_base space) 0 (sint len) status (l\<lparr>world := w\<rparr>)
                             in Ret (status, lib_munmap os dest bytes l))"

fun migrate_regions :: "'w os \<Rightarrow> u8 \<Rightarrow> text_region list \<Rightarrow> int \<Rightarrow> 'w libxom \<Rightarrow> (int \<times> 'w libxom) outcome" where
  "migrate_regions os skip_type [] status l = Ret (status, l)"
| "migrate_regions os skip_type (r # rs) status l =
     (if text_type r AND skip_type \<noteq> 0 then migrate_regions os skip_type rs status l
      else case migrate_text_section os r l of
        Exit code \<Rightarrow> Exit code
      | Ret (status, l) \<Rightarrow> if status < 0 then Ret (status, l) else migrate_regions os skip_type rs status l)"

definition migrate_skip_type :: "'w code_os \<Rightarrow> u8 \<Rightarrow> 'w libxom \<Rightarrow> (int \<times> 'w libxom) outcome option" where
  "migrate_skip_type co skip_type l =
     (if xom_mode l = XOM_MODE_UNSUPPORTED then Some (Ret (- 1, l\<lparr>errno := EINVAL\<rparr>))
      else do {
        spaces \<leftarrow> explore_text_regions co (world l);
        (case spaces of
           None \<Rightarrow> Some (Ret (- 1, l))
         | Some rs \<Rightarrow> Some (migrate_regions (co_os co) skip_type rs 1 l))
      })"

definition xom_migrate_all_code :: "'w code_os \<Rightarrow> 'w libxom \<Rightarrow> (int \<times> 'w libxom) outcome option" where
  "xom_migrate_all_code co l = migrate_skip_type co TEXT_TYPE_VDSO (libxom_prologue (co_os co) l)"

definition xom_migrate_shared_libraries :: "'w code_os \<Rightarrow> 'w libxom \<Rightarrow> (int \<times> 'w libxom) outcome option" where
  "xom_migrate_shared_libraries co l =
     migrate_skip_type co (TEXT_TYPE_EXECUTABLE OR TEXT_TYPE_VDSO) (libxom_prologue (co_os co) l)"

text \<open>The hook: \<open>original\<close> is the wrapped loader (\<^const>\<open>None\<close> if it was not found), \<open>migrate\<close> the variable \<^verbatim>\<open>migrate_dlopen\<close>.\<close>

definition dlopen_hook ::
  "'w code_os \<Rightarrow> ('w \<Rightarrow> u64 \<times> 'w) option \<Rightarrow> bool \<Rightarrow> 'w libxom \<Rightarrow> (u64 \<times> 'w libxom) outcome option" where
  "dlopen_hook co original migrate l =
     (case original of
        None \<Rightarrow> Some (Ret (0, l))
      | Some f \<Rightarrow>
          let (ret, w) = f (world l); l = l\<lparr>world := w\<rparr>
          in if \<not> migrate \<or> ret = 0 then Some (Ret (ret, l))
             else map_option (\<lambda>x. case x of Exit code \<Rightarrow> Exit code | Ret (_, l) \<Rightarrow> Ret (ret, l))
                    (migrate_skip_type co TEXT_TYPE_VDSO l))"

subsection \<open>Initialisation\<close>

text \<open>\<^verbatim>\<open>strstr(s, needle) != NULL\<close>.\<close>

fun contains :: "string \<Rightarrow> string \<Rightarrow> bool" where
  "contains needle [] = (needle = [])"
| "contains needle (c # cs) = (take (length needle) (c # cs) = needle \<or> contains needle cs)"

text \<open>The loop over the environment: the kind of sections to skip, for the first variable that asks for a migration.\<close>

fun env_migration :: "string list \<Rightarrow> u8 option" where
  "env_migration [] = None"
| "env_migration (v # vs) =
     (if contains ''LIBXOM_LOCK=all'' v then Some TEXT_TYPE_VDSO
      else if contains ''LIBXOM_LOCK=libs'' v then Some (TEXT_TYPE_EXECUTABLE OR TEXT_TYPE_VDSO)
      else env_migration vs)"

text \<open>
  \<open>rval\<close> is the first non-zero random number, \<open>migrate\<close> the variable \<^verbatim>\<open>migrate_dlopen\<close>. The result is its new value and the
  state of the library; nothing changes if the library was already initialised.
\<close>

definition initialize_libxom ::
  "'w code_os \<Rightarrow> string list \<Rightarrow> u32 \<Rightarrow> bool \<Rightarrow> bool \<Rightarrow> 'w libxom \<Rightarrow> (bool \<times> 'w libxom) outcome option" where
  "initialize_libxom co envp rval initialized migrate l =
     (if initialized then Some (Ret (migrate, l))
      else let (fd, w) = os_open_xom (co_os co) (world l); l = l\<lparr>xomfd := fd, world := w\<rparr>
           in if fd < 0 \<and> \<not> os_pku (co_os co) then Some (Ret (migrate, l))
              else let l = l\<lparr>xom_mode := (if fd \<ge> 0 then XOM_MODE_SLAT else XOM_MODE_PKU)\<rparr>;
                       finish = (\<lambda>l. l\<lparr>libxom_pid := os_pid (co_os co), xom_base_addr :=
                         0x420000000000 + (push_bit PAGE_SHIFT (ucast rval) AND NOT 0xff0000000000)\<rparr>)
                   in case env_migration envp of
                        None \<Rightarrow> Some (Ret (migrate, finish l))
                      | Some skip \<Rightarrow>
                          map_option (\<lambda>x. case x of Exit code \<Rightarrow> Exit code | Ret (_, l) \<Rightarrow> Ret (True, finish l))
                            (migrate_skip_type co skip l))"

subsection \<open>Blocks that expect register clearing\<close>

text \<open>
  The state of \<^verbatim>\<open>expect_full_reg_clear__\<close>: the thread that owns the error-checking mutex, the handler of \<^verbatim>\<open>SIGSEGV\<close>, and the
  saved handler. Handlers are numbers, with 1 for \<^verbatim>\<open>full_reg_clear_handler\<close>.
\<close>

record reg_clear_state =
  rc_owner :: "nat option"
  rc_handler :: nat
  rc_old :: nat

abbreviation (input) full_reg_clear_handler :: nat where "full_reg_clear_handler \<equiv> 1"

text \<open>\<^const>\<open>None\<close> is a thread that waits for the mutex of another thread.\<close>

definition expect_full_reg_clear :: "nat \<Rightarrow> int \<Rightarrow> reg_clear_state \<Rightarrow> (int \<times> reg_clear_state) option" where
  "expect_full_reg_clear tid fd st =
     (case rc_owner st of
        Some t \<Rightarrow>
          if t \<noteq> tid then None
          else Some (0, if fd \<ge> 0 then st\<lparr>rc_handler := rc_old st, rc_owner := None\<rparr> else st)
      | None \<Rightarrow>
          let st = st\<lparr>rc_owner := Some tid\<rparr>
          in Some (1, if fd \<ge> 0 then st\<lparr>rc_old := rc_handler st, rc_handler := full_reg_clear_handler\<rparr> else st))"

text \<open>
  The body of a block, where \<open>intr i\<close> tells whether the run with number \<open>i\<close> is cut off by a cleared register file. The handler
  then jumps back to the \<^verbatim>\<open>setjmp\<close>, and the body starts again; without the handler the process dies. The result is the
  number of the next run.
\<close>

partial_function (option) body_runs :: "(nat \<Rightarrow> bool) \<Rightarrow> reg_clear_state \<Rightarrow> nat \<Rightarrow> nat option" where
  "body_runs intr st i =
     (if intr i
      then if rc_handler st = full_reg_clear_handler then body_runs intr st (Suc i) else None
      else Some (Suc i))"

text \<open>\<^verbatim>\<open>while (expect_full_reg_clear__()) body\<close>.\<close>

partial_function (option) expect_full_register_clear ::
  "nat \<Rightarrow> int \<Rightarrow> (nat \<Rightarrow> bool) \<Rightarrow> nat \<Rightarrow> reg_clear_state \<Rightarrow> (nat \<times> reg_clear_state) option" where
  "expect_full_register_clear tid fd intr i st =
     Option.bind (expect_full_reg_clear tid fd st) (\<lambda>(r, st).
       if r = 0 then Some (i, st)
       else Option.bind (body_runs intr st i) (\<lambda>i. expect_full_register_clear tid fd intr i st))"

end
