(* ===== verification/Libxom_Main.thy ===== *)
theory Libxom_Main
  imports Libxom_Code
begin

text \<open>
  The theorems on the user library: which subpages a write takes, when a subpage buffer is released, which pages the lock
  commands of a buffer cover, that blocks repeated after register clearing end, and that they work only once without the kernel module.
\<close>

subsection \<open>Blocks that expect register clearing\<close>

lemma body_runs_ends:
  assumes "\<not> intr n" "\<forall>j. i \<le> j \<and> j < n \<longrightarrow> intr j" "i \<le> n" "rc_handler st = full_reg_clear_handler"
  shows "body_runs intr st i = Some (Suc n)"
  using assms(2,3)
proof (induction "n - i" arbitrary: i)
  case 0
  with assms(1) show ?case by (subst body_runs.simps) simp
next
  case (Suc d)
  then have "intr i" "body_runs intr st (Suc i) = Some (Suc n)" by (simp_all add: Suc_le_eq)
  then show ?case using assms(4) by (subst body_runs.simps) simp
qed



text \<open>
  Without the kernel module a block works only once. If the file cannot be opened (protection keys are used), the first block of a
  thread is executed once, but the mutex stays locked: from then on the thread skips the body of every such block, and another thread
  waits forever.
\<close>

lemma register_clear_block_skipped:
  assumes "fd < 0" "rc_owner st = None" "\<not> intr 0"
  shows "\<exists>st'. expect_full_register_clear tid fd intr 0 st = Some (1, st')
    \<and> expect_full_register_clear tid fd intr' 0 st' = Some (0, st')
    \<and> (tid' \<noteq> tid \<longrightarrow> expect_full_register_clear tid' fd intr' 0 st' = None)"
proof -
  let ?st = "st\<lparr>rc_owner := Some tid\<rparr>"
  have 1: "expect_full_reg_clear tid fd st = Some (1, ?st)" "expect_full_reg_clear tid fd ?st = Some (0, ?st)"
    "tid' \<noteq> tid \<Longrightarrow> expect_full_reg_clear tid' fd ?st = None"
    using assms(1,2) by (simp_all add: expect_full_reg_clear_def)
  have b: "body_runs intr ?st 0 = Some 1" using assms(3) by (subst body_runs.simps) simp
  have stop: "expect_full_register_clear tid fd f i ?st = Some (i, ?st)" for f i
    by (subst expect_full_register_clear.simps) (simp add: 1)
  have "expect_full_register_clear tid fd intr 0 st = Some (1, ?st)"
    by (subst expect_full_register_clear.simps) (simp add: 1 b stop)
  moreover have "tid' \<noteq> tid \<longrightarrow> expect_full_register_clear tid' fd intr' 0 ?st = None"
    by (subst expect_full_register_clear.simps) (simp add: 1)
  ultimately show ?thesis using stop by blast
qed

subsection \<open>Rounding to pages\<close>

lemma ceil_div: "(n + 4095) div 4096 = n div 4096 + (if n mod 4096 = 0 then 0 else 1)" for n :: nat
proof -
  define q r where "q = n div 4096" and "r = n mod 4096"
  then have "n + 4095 = (r + 4095) + 4096 * q" by simp
  then have "(n + 4095) div 4096 = q + (r + 4095) div 4096" by simp
  moreover have "r < 4096" by (simp add: r_def)
  then have "(r + 4095) div 4096 = (if r = 0 then 0 else 1)" by (auto simp: div_nat_eqI)
  ultimately show ?thesis by (simp add: q_def r_def)
qed

lemma SIZE_CEIL_unat:
  assumes "unat s < 2 ^ 63"
  shows "unat (SIZE_CEIL s) = 4096 * ((unat s + 4095) div 4096)"
proof -
  have "(s AND 0xFFF = 0) = (unat s mod 4096 = 0)"
  proof -
    have "s AND 0xFFF = take_bit 12 s" using take_bit_eq_mask[of 12 s] by (simp add: mask_eq_exp_minus_1)
    moreover have "unat (take_bit 12 s) = unat s mod 4096" by (simp add: take_bit_eq_mod unat_mod_distrib)
    ultimately show ?thesis by (metis unsigned_eq_0_iff)
  qed
  moreover have "unat (drop_bit 12 s) = unat s div 4096" by (simp add: drop_bit_eq_div unat_div_distrib)
  ultimately have q: "unat (drop_bit 12 s + (if s AND 0xFFF \<noteq> 0 then 1 else 0)) = (unat s + 4095) div 4096"
    using div_le_dividend[of "unat s" 4096] assms by (simp add: ceil_div unat_word_ariths)
  have "(unat s + 4095) div 4096 * 4096 \<le> unat s + 4095" by simp
  then have "(unat s + 4095) div 4096 * 4096 < 2 ^ 64" using assms by simp
  then have "unat (x * 4096) = 4096 * ((unat s + 4095) div 4096)" if "unat x = (unat s + 4095) div 4096" for x :: u64
    by (simp add: unat_word_ariths that)
  from this[OF q] show ?thesis by (simp add: SIZE_CEIL_def push_bit_eq_mult)
qed

lemma chunk_pages:
  assumes "0 < n"
  shows "unat (drop_bit PAGE_SHIFT (ucast (chunk_bytes n) :: u32)) = (nat (min ALLOC_CHUNK_SIZE n) + 4095) div 4096"
proof -
  define m where "m = nat (min ALLOC_CHUNK_SIZE n)"
  have m: "m \<le> 0x400000" "int m = min ALLOC_CHUNK_SIZE n" using assms unfolding m_def by linarith+
  then have "of_int (min ALLOC_CHUNK_SIZE n) = (of_nat m :: u64)" by (metis of_int_of_nat_eq)
  moreover have u: "unat (of_nat m :: u64) = m" using m(1) by (simp add: unat_of_nat)
  moreover have "unat (of_nat m :: u64) < 2 ^ 63" using m(1) unfolding u by simp
  ultimately have c: "unat (chunk_bytes n) = 4096 * ((m + 4095) div 4096)"
    using SIZE_CEIL_unat[of "of_nat m"] by (simp add: chunk_bytes_def)
  have "(m + 4095) div 4096 \<le> (0x400000 + 4095) div 4096" using m(1) by (intro div_le_mono) simp
  with c have "unat (ucast (chunk_bytes n) :: u32) = 4096 * ((m + 4095) div 4096)"
    by (simp add: unsigned_ucast_eq take_bit_nat_eq_self)
  then show ?thesis by (simp add: drop_bit_eq_div unat_div_distrib m_def)
qed

subsection \<open>The lock commands of a buffer\<close>

text \<open>The commands \<^const>\<open>lock_chunks\<close> sends, and sending commands until one fails.\<close>

function lock_cmds :: "u64 \<Rightarrow> nat \<Rightarrow> int \<Rightarrow> modxom_cmd list" where
  "lock_cmds address c size_left =
     (if size_left > 0
      then chunk_cmd MODXOM_CMD_LOCK address (scast (of_nat c * 0x400000 :: 32 word)) size_left
             # lock_cmds address (c + 1) (size_left - ALLOC_CHUNK_SIZE)
      else [])"
  by auto
termination
  by (relation "measure (\<lambda>(a, c, size_left). nat size_left)") auto

declare lock_cmds.simps [simp del]

fun send_cmds :: "'w os \<Rightarrow> modxom_cmd list \<Rightarrow> 'w libxom \<Rightarrow> bool \<times> 'w libxom" where
  "send_cmds os [] l = (True, l)"
| "send_cmds os (c # cs) l =
     (let (status, l) = lib_write os (cmd_bytes c) l in if status < 0 then (False, l) else send_cmds os cs l)"

definition cmd_pages :: "modxom_cmd \<Rightarrow> u64 list" where
  "cmd_pages c = map (\<lambda>i. base_addr c + of_nat i * 4096) [0..<unat (cmd_num_pages c)]"

lemma lock_chunks_send: "lock_chunks os a c n l = send_cmds os (lock_cmds a c n) l"
proof (induction os a c n l rule: lock_chunks.induct)
  case (1 os a c n l)
  show ?case
  proof (cases "n > 0")
    case True
    then show ?thesis using "1.IH"[OF True refl]
      by (subst lock_chunks.simps, subst lock_cmds.simps) (auto split: prod.split)
  qed (subst lock_chunks.simps, subst lock_cmds.simps, simp)
qed

lemma chunk_off:
  assumes "c * 0x400000 < 2 ^ 31"
  shows "(scast (of_nat c * 0x400000 :: 32 word) :: u64) = of_nat (c * 0x400000)"
proof -
  have "of_nat c * 0x400000 = (of_nat (c * 0x400000) :: 32 word)" by simp
  then have "(scast (of_nat c * 0x400000 :: 32 word) :: u64) = of_int (signed_take_bit 31 (int (c * 0x400000)))"
    by (simp only: signed_of_nat) simp
  also have "signed_take_bit 31 (int (c * 0x400000)) = int (c * 0x400000)"
    using assms by (intro signed_take_bit_int_eq_self) simp_all
  finally show ?thesis by simp
qed

lemma cmd_pages_chunk:
  assumes "0 < n" "c * 0x400000 < 2 ^ 31"
  shows "cmd_pages (chunk_cmd code a (scast (of_nat c * 0x400000 :: 32 word)) n) =
    map (\<lambda>i. a + of_nat (c * 0x400000) + of_nat i * 4096) [0..<(nat (min ALLOC_CHUNK_SIZE n) + 4095) div 4096]"
  using chunk_pages[OF assms(1)] chunk_off[OF assms(2)] by (simp add: cmd_pages_def chunk_cmd_def)

lemma lock_cmds_pages:
  "0 \<le> n \<Longrightarrow> int (c * 0x400000) + n < 2 ^ 31 \<Longrightarrow> concat (map cmd_pages (lock_cmds a c n)) =
     map (\<lambda>i. a + of_nat (c * 0x400000) + of_nat i * 4096) [0..<(nat n + 4095) div 4096]"
proof (induction a c n rule: lock_cmds.induct)
  case (1 a c n)
  let ?f = "\<lambda>c i. a + of_nat (c * 0x400000) + of_nat i * 4096 :: u64"
  show ?case
  proof (cases "n > 0x400000")
    case False
    have "lock_cmds a (c + 1) (n - ALLOC_CHUNK_SIZE) = []" using False by (subst lock_cmds.simps) simp
    moreover have "c * 0x400000 < 2 ^ 31" using "1.prems" by simp
    ultimately show ?thesis using cmd_pages_chunk[of n c MODXOM_CMD_LOCK a] False "1.prems"
      by (subst lock_cmds.simps) (auto simp: min_def)
  next
    case True
    define k where "k = nat (n - ALLOC_CHUNK_SIZE)"
    have k: "nat n = 0x400000 + k" using True by (simp add: k_def)
    have c: "c * 0x400000 < 2 ^ 31" using "1.prems" True by simp
    have "(nat n + 4095) div 4096 = 1024 + (k + 4095) div 4096" unfolding k by simp
    then have "map (?f c) [0..<(nat n + 4095) div 4096] = map (?f c) [0..<1024] @ map (?f c) [1024..<1024 + (k + 4095) div 4096]"
      by (simp only: map_append[symmetric] upt_add_eq_append[symmetric])
    also have "map (?f c) [1024..<1024 + (k + 4095) div 4096] = map (?f (c + 1)) [0..<(k + 4095) div 4096]"
      by (rule nth_equalityI) (simp_all add: algebra_simps)
    also have "map (?f (c + 1)) [0..<(k + 4095) div 4096] = concat (map cmd_pages (lock_cmds a (c + 1) (n - ALLOC_CHUNK_SIZE)))"
      using "1.IH" "1.prems" True unfolding k_def by simp
    also have "map (?f c) [0..<1024] = cmd_pages (chunk_cmd MODXOM_CMD_LOCK a (scast (of_nat c * 0x400000 :: 32 word)) n)"
      using cmd_pages_chunk[OF _ c, of n MODXOM_CMD_LOCK a] True by (simp add: min_def)
    finally show ?thesis using True by (subst lock_cmds.simps) simp
  qed
qed

lemma lock_cmds_pages_nat:
  "m < 2 ^ 31 \<Longrightarrow> concat (map cmd_pages (lock_cmds a 0 (int m))) = map (\<lambda>i. a + of_nat i * 4096) [0..<(m + 4095) div 4096]"
  using lock_cmds_pages[of "int m" 0 a] by simp

lemma sint_small:
  fixes x :: u64
  assumes "unat x < 2 ^ 63"
  shows "sint x = int (unat x)"
proof -
  have "uint x = int (unat x)" by simp
  moreover have "unat x < 9223372036854775808" using assms by simp
  ultimately have "- 9223372036854775808 \<le> uint x" "uint x < 9223372036854775808" by linarith+
  then have "signed_take_bit 63 (uint x) = uint x" by (intro signed_take_bit_int_eq_self) simp_all
  then show ?thesis by (simp add: sint_uint)
qed

lemma lock_cmds_small:
  "\<forall>c \<in> set (lock_cmds a i n). cmd c = MODXOM_CMD_LOCK \<and> 0 < unat (cmd_num_pages c) \<and> unat (cmd_num_pages c) \<le> 1024"
proof (induction a i n rule: lock_cmds.induct)
  case (1 a i n)
  show ?case
  proof (cases "n > 0")
    case True
    let ?m = "nat (min ALLOC_CHUNK_SIZE n)"
    have "0 < ?m" "?m \<le> 0x400000" using True by simp_all
    then have "0 < (?m + 4095) div 4096" "(?m + 4095) div 4096 \<le> (0x400000 + 4095) div 4096"
      by (simp_all add: div_greater_zero_iff)
    with 1 True chunk_pages[OF True] show ?thesis by (subst lock_cmds.simps) (simp add: chunk_cmd_def)
  qed (subst lock_cmds.simps, simp)
qed

text \<open>
  C35: locking covers the buffer. For a buffer of less than two gigabytes in the mode that uses the hypervisor, locking
  sends lock commands, each for at most 1024 pages, until one fails; together they name every page of the buffer, from its
  first byte to its last, exactly once and in order. The buffer counts as locked, and its address is returned, exactly if all were accepted.
\<close>

theorem xom_lock_covers_buffer:
  assumes "\<not> buf_locked b" "buf_mode b = XOM_MODE_SLAT" "buf_pid b = libxom_pid l" "unat (allocated_size b) < 2 ^ 31"
  shows "\<exists>cmds. xom_lock_internal os (Some b) l =
      (let (ok, l') = send_cmds os cmds l
       in if ok then (buf_address b, Some (b\<lparr>buf_locked := True\<rparr>), l') else (0, Some b, l'))
    \<and> concat (map cmd_pages cmds) = map (\<lambda>i. buf_address b + of_nat i * 4096) [0..<(unat (allocated_size b) + 4095) div 4096]
    \<and> (\<forall>c \<in> set cmds. cmd c = MODXOM_CMD_LOCK \<and> 0 < unat (cmd_num_pages c) \<and> unat (cmd_num_pages c) \<le> 1024)"
proof (intro exI conjI)
  let ?n = "sint (allocated_size b)"
  have n: "?n = int (unat (allocated_size b))" using sint_small[of "allocated_size b"] assms(4) by simp
  let ?cmds = "lock_cmds (buf_address b) 0 ?n"
  show "xom_lock_internal os (Some b) l =
      (let (ok, l') = send_cmds os ?cmds l
       in if ok then (buf_address b, Some (b\<lparr>buf_locked := True\<rparr>), l') else (0, Some b, l'))"
    using assms(1-3) by (simp add: xom_lock_internal_def lock_chunks_send Let_def)
  show "concat (map cmd_pages ?cmds) = map (\<lambda>i. buf_address b + of_nat i * 4096) [0..<(unat (allocated_size b) + 4095) div 4096]"
    unfolding n by (rule lock_cmds_pages_nat[OF assms(4)])
  show "\<forall>c \<in> set ?cmds. cmd c = MODXOM_CMD_LOCK \<and> 0 < unat (cmd_num_pages c) \<and> unat (cmd_num_pages c) \<le> 1024"
    by (rule lock_cmds_small)
qed

text \<open>An operating system whose kernel accepts every command; the world is the list of what was written to the file.\<close>

definition sample_os :: "u8 list list os" where
  "sample_os = \<lparr>os_mmap = (\<lambda>a _ _ _ _ w. (a, w)), os_munmap = (\<lambda>_ _ w. (0, w)), os_mprotect = (\<lambda>_ _ _ w. (0, w)),
     os_pkey_alloc = (\<lambda>w. (1, w)), os_pkey_mprotect = (\<lambda>_ _ _ _ w. w), os_rdpkru = (\<lambda>_. 0), os_wrpkru = (\<lambda>_ w. w),
     os_write = (\<lambda>_ bs w. (0, bs # w)), os_open_xom = (\<lambda>w. (3, w)), os_close = (\<lambda>_ w. w), os_store = (\<lambda>_ _ w. w),
     os_load = (\<lambda>_ n _. replicate n 0x55), os_malloc = (\<lambda>_. True), os_pid = 7, os_pku = False\<rparr>"

definition sample_lib :: "u8 list list libxom" where
  "sample_lib = \<lparr>xomfd = 3, subpage_pkey = - 1, xom_mode = XOM_MODE_SLAT, xom_base_addr = 0x420000000000, libxom_pid = 7,
     errno = 0, world = []\<rparr>"

lemma sample_send: "fst (send_cmds sample_os cmds l)"
  by (induction cmds arbitrary: l) (simp_all add: lib_write_def syscall_ret_def sample_os_def)

theorem xom_lock_covers_buffer_witness:
  "\<exists>cmds b' l'. xom_lock_internal sample_os (Some \<lparr>buf_address = 0x10000, allocated_size = 5000, buf_pid = 7, buf_locked = False,
      buf_marked = False, buf_mode = XOM_MODE_SLAT\<rparr>) sample_lib = (0x10000, Some b', l')
    \<and> buf_locked b' \<and> concat (map cmd_pages cmds) = [0x10000, 0x11000]"
proof -
  let ?b = "\<lparr>buf_address = 0x10000, allocated_size = 5000, buf_pid = 7, buf_locked = False, buf_marked = False, buf_mode = XOM_MODE_SLAT\<rparr>"
  from xom_lock_covers_buffer[of ?b sample_lib sample_os] obtain cmds where
    c: "xom_lock_internal sample_os (Some ?b) sample_lib =
      (let (ok, l') = send_cmds sample_os cmds sample_lib
       in if ok then (buf_address ?b, Some (?b\<lparr>buf_locked := True\<rparr>), l') else (0, Some ?b, l'))"
    "concat (map cmd_pages cmds) = map (\<lambda>i. buf_address ?b + of_nat i * 4096) [0..<(unat (allocated_size ?b) + 4095) div 4096]"
    by (auto simp: sample_lib_def)
  have "[0..<2] = [0, 1::nat]" by code_simp
  then have p: "concat (map cmd_pages cmds) = [0x10000, 0x11000]" using c(2) by simp
  obtain l' where "send_cmds sample_os cmds sample_lib = (True, l')" using sample_send[of cmds sample_lib] by (metis prod.collapse)
  with c(1) have "xom_lock_internal sample_os (Some ?b) sample_lib = (0x10000, Some (?b\<lparr>buf_locked := True\<rparr>), l')" by simp
  with p show ?thesis by force
qed

subsection \<open>Subpages\<close>

text \<open>The buffer has a lock mask for each of its pages, and fits into one chunk.\<close>

definition subpages_ok :: "xom_subpages \<Rightarrow> bool" where
  "subpages_ok sp \<longleftrightarrow> unat (sp_num_subpages sp) \<le> 32 * length (sp_lock_status sp) \<and> unat (sp_num_subpages sp) \<le> 32768"

definition fill_pages :: "xom_subpages \<Rightarrow> nat" where
  "fill_pages sp = unat (sp_num_subpages sp) div 32"

lemma fill_pages_code:
  assumes "subpages_ok sp"
  shows "unat (sp_num_subpages sp * 128 div 4096) = fill_pages sp" "fill_pages sp \<le> length (sp_lock_status sp)"
proof -
  have "unat (sp_num_subpages sp * 128) = unat (sp_num_subpages sp) * 128"
    using assms by (simp add: subpages_ok_def unat_word_ariths)
  then show "unat (sp_num_subpages sp * 128 div 4096) = fill_pages sp" by (simp add: fill_pages_def unat_div_distrib)
  show "fill_pages sp \<le> length (sp_lock_status sp)"
    using div_le_mono[of "unat (sp_num_subpages sp)" "32 * length (sp_lock_status sp)" 32] assms
    by (simp add: fill_pages_def subpages_ok_def)
qed

lemma bit_run: "s + n \<le> 32 \<Longrightarrow> bit (push_bit s (push_bit n 1 - 1) :: u32) i \<longleftrightarrow> s \<le> i \<and> i < s + n"
proof -
  assume "s + n \<le> 32"
  have "push_bit n 1 - 1 = (mask n :: u32)" by (simp add: mask_eq_exp_minus_1 push_bit_eq_mult)
  with \<open>s + n \<le> 32\<close> show ?thesis by (auto simp: bit_push_bit_iff bit_mask_iff)
qed

definition run_free :: "u32 list \<Rightarrow> nat \<Rightarrow> nat \<Rightarrow> nat \<Rightarrow> bool" where
  "run_free ls n p s \<longleftrightarrow> (\<forall>j < n. \<not> bit (ls ! p) (s + j))"

lemma position_free_run:
  assumes "s + n \<le> 32"
  shows "position_free ls (push_bit n 1 - 1) (p, s) \<longleftrightarrow> run_free ls n p s"
proof -
  have "position_free ls (push_bit n 1 - 1) (p, s) \<longleftrightarrow> (\<forall>i. \<not> (s \<le> i \<and> i < s + n \<and> bit (ls ! p) i))"
    unfolding position_free_def using bit_run[OF assms] assms by (auto simp del: push_bit_of_1 simp: bit_eq_iff bit_and_iff)
  also have "\<dots> \<longleftrightarrow> run_free ls n p s" unfolding run_free_def
    by (metis le_add1 le_add_diff_inverse nat_add_left_cancel_less)
  finally show ?thesis .
qed

lemma positions_set: "1 \<le> n \<Longrightarrow> n \<le> 32 \<Longrightarrow> (p, s) \<in> set (subpage_positions pages n) \<longleftrightarrow> p < pages \<and> s + n \<le> 32"
  by (auto simp: subpage_positions_def image_iff simp del: upt_Suc)

lemma subpage_count_unat: "unat (subpage_count sz) = (unat sz + 127) div 128"
proof -
  define q r where "q = unat sz div 128" and "r = unat sz mod 128"
  then have "unat sz + 127 = (r + 127) + 128 * q" by simp
  then have "(unat sz + 127) div 128 = q + (r + 127) div 128" by simp
  moreover have "r < 128" by (simp add: r_def)
  then have "(r + 127) div 128 = (if r = 0 then 0 else 1)" by (auto simp: div_nat_eqI)
  moreover have "(sz mod 128 = 0) = (r = 0)" by (simp add: r_def word_unat_eq_iff unat_mod_distrib)
  moreover have "unat (sz div 128) = q" by (simp add: q_def unat_div_distrib)
  moreover have "unat sz < 2 ^ 64" using unsigned_less[of sz] by simp
  then have "q < 2 ^ 57" by (simp add: q_def less_mult_imp_div_less)
  ultimately show ?thesis by (simp add: subpage_count_def unat_word_ariths)
qed

text \<open>The search is for a free run, and the command for the run found decides the result.\<close>

lemma find_free_run:
  assumes "1 \<le> n" "n \<le> 31"
    and "List.find (position_free ls (push_bit n 1 - 1)) (subpage_positions pages n) = r"
  shows "case r of Some (p, s) \<Rightarrow> p < pages \<and> s + n \<le> 32 \<and> run_free ls n p s
    | None \<Rightarrow> \<not> (\<exists>p < pages. \<exists>s. s + n \<le> 32 \<and> run_free ls n p s)"
proof -
  have pos: "(p, s) \<in> set (subpage_positions pages n) \<longleftrightarrow> p < pages \<and> s + n \<le> 32" for p s
    using positions_set assms(1,2) by simp
  show ?thesis
  proof (cases r)
    case None
    with assms(3) have "\<not> (\<exists>p < pages. \<exists>s. s + n \<le> 32 \<and> run_free ls n p s)"
      using pos position_free_run by (fastforce simp: find_None_iff)
    then show ?thesis unfolding None by simp
  next
    case (Some t)
    obtain p s where t: "t = (p, s)" by fastforce
    from assms(3) Some t have "(p, s) \<in> set (subpage_positions pages n)" "position_free ls (push_bit n 1 - 1) (p, s)"
      by (auto simp: find_Some_iff in_set_conv_nth)
    with pos position_free_run Some t show ?thesis by auto
  qed
qed

definition fill_cmd :: "'w os \<Rightarrow> xom_subpages \<Rightarrow> nat \<Rightarrow> u64 \<Rightarrow> nat \<Rightarrow> nat \<Rightarrow> 'w \<Rightarrow> u8 list" where
  "fill_cmd os sp n src p s w =
     cmd_bytes \<lparr>cmd = MODXOM_CMD_WRITE_SUBPAGES, cmd_num_pages = 1, base_addr = sp_address sp + of_nat p * 4096\<rparr>
     @ subpage_records n s (\<lambda>i. os_load os (src + of_nat i * 128) 128 w)"

definition add_run :: "xom_subpages \<Rightarrow> nat \<Rightarrow> nat \<Rightarrow> nat \<Rightarrow> xom_subpages" where
  "add_run sp n p s = sp\<lparr>sp_lock_status := (sp_lock_status sp)[p := sp_lock_status sp ! p OR push_bit s (push_bit n 1 - 1)],
     references := references sp + 1\<rparr>"

lemma fill_code:
  assumes "subpages_ok sp" "sp_mode sp = XOM_MODE_SLAT" "os_malloc os 4"
    and "n = (unat sz + 127) div 128" "1 \<le> n" "n \<le> 31" "n \<le> unat (sp_num_subpages sp)"
  shows "xom_fill_and_lock_subpages_internal os sp sz src l =
    (case List.find (position_free (sp_lock_status sp) (push_bit n 1 - 1)) (subpage_positions (fill_pages sp) n) of
       Some (p, s) \<Rightarrow> (let (status, l') = lib_write os (fill_cmd os sp n src p s (world l)) l
         in if status < 0 then Some (0, sp, l')
            else Some (sp_address sp + of_nat p * 4096 + of_nat s * 128, add_run sp n p s, l'))
     | None \<Rightarrow> Some (0, sp, l\<lparr>errno := - ENOMEM\<rparr>))" (is "_ = (case ?f of Some (p, s) \<Rightarrow> ?w p s | None \<Rightarrow> ?none)")
proof -
  let ?ls = "sp_lock_status sp" and ?m = "push_bit n 1 - 1 :: u32"
  have n: "unat (subpage_count sz) = n" by (simp add: subpage_count_unat assms(4))
  have guard: "\<not> (sz = 0 \<or> subpage_count sz > sp_num_subpages sp \<or> subpage_count sz > of_nat MAX_SUBPAGES_PER_CMD)"
    using n assms(5-7) assms(4) by (auto simp: word_less_nat_alt)
  then have run: "xom_fill_and_lock_subpages_internal os sp sz src l =
      (case ?f of Some (p, s) \<Rightarrow> write_into_subpages os sp n src p s ?m l | None \<Rightarrow> ?none)"
    unfolding xom_fill_and_lock_subpages_internal_def Let_def n fill_pages_code(1)[OF assms(1)] by (simp only: if_False)
  have w: "write_into_subpages os sp n src p s ?m l = ?w p s" if "p < length ?ls" for p s
    using assms(2,3) that unfolding write_into_subpages_def Let_def fill_cmd_def add_run_def
    by (simp only: if_True not_True_eq_False if_False refl)
  show ?thesis
  proof (cases ?f)
    case (Some t)
    obtain p s where t: "t = (p, s)" by fastforce
    with find_free_run[OF assms(5,6) Some] fill_pages_code(2)[OF assms(1)] have "p < length ?ls" by simp
    from w[OF this] show ?thesis unfolding run Some t option.case prod.case .
  qed (simp only: run option.case)
qed

lemma add_run_bits:
  assumes "s + n \<le> 32" "p < length (sp_lock_status sp)" "q < length (sp_lock_status sp)"
  shows "bit (sp_lock_status (add_run sp n p s) ! q) i \<longleftrightarrow> bit (sp_lock_status sp ! q) i \<or> q = p \<and> s \<le> i \<and> i < s + n"
  using assms bit_run[OF assms(1)] by (auto simp: add_run_def nth_list_update bit_or_iff)


definition sample_subpages :: xom_subpages where
  "sample_subpages = \<lparr>sp_address = 0x10000, sp_mode = XOM_MODE_SLAT, sp_lock_status = [3], sp_num_subpages = 32, references = 1\<rparr>"


text \<open>
  When a subpage buffer is released. With \<open>k\<close> filled ranges in use, giving back an address of the buffer releases the buffer exactly if
  one less than \<open>k\<close> is 0 or at least 128 modulo 256, since the count is a signed byte. Up to 128 ranges this is right: the buffer
  is released with its last range. With 129 to 255 ranges in use, giving back any of them releases all.
\<close>

lemma free_subpages_release:
  assumes "references sp = of_nat k" "1 \<le> k"
    and "sp_address sp \<le> a" "a < sp_address sp + sp_num_subpages sp * 128"
  shows "xom_free_subpages_internal os sp a l =
    (if (k - 1) mod 256 = 0 \<or> 128 \<le> (k - 1) mod 256
     then (1, None, xom_free_all_subpages_internal os (sp\<lparr>references := of_nat (k - 1)\<rparr>) l)
     else (0, Some (sp\<lparr>references := of_nat (k - 1)\<rparr>), l))"
proof -
  define r where "r = (k - 1) mod 256"
  have r: "r < 256" by (simp add: r_def)
  have "references sp - 1 = of_nat (k - 1)" using assms(1,2) by (simp add: of_nat_diff)
  moreover have "(of_nat (k - 1) :: u8) = of_nat r" by (simp add: r_def of_nat_mod word_unat_eq_iff unat_of_nat)
  moreover have "sint (of_nat r :: u8) \<le> 0 \<longleftrightarrow> r = 0 \<or> 128 \<le> r"
  proof -
    have "sint (of_nat r :: u8) = signed_take_bit 7 (int r)" by (simp add: signed_of_nat)
    also have "\<dots> = (int r + 128) mod 256 - 128" by (simp add: signed_take_bit_eq_take_bit_shift take_bit_eq_mod)
    also have "\<dots> = (if r < 128 then int r else int r - 256)" using r mod_add_self2[of "int r - 128" 256] by (auto simp: mod_pos_pos_trivial add.commute)
    finally show ?thesis using r by auto
  qed
  ultimately show ?thesis using assms(3,4) by (simp add: xom_free_subpages_internal_def r_def not_less not_le)
qed

lemma new_subpages_ok:
  assumes "sz \<le> CHUNK_64"
  shows "subpages_ok (new_subpages mode a sz)"
proof -
  have sz: "unat sz \<le> 0x400000" using assms by (simp add: word_le_nat_alt)
  define k r where "k = (unat sz + 4095) div 4096" and "r = (unat sz + 4095) mod 4096"
  have "unat sz + 4095 = 4096 * k + r" "r < 4096" by (simp_all add: k_def r_def)
  then have k: "unat sz \<le> 4096 * k" "k \<le> 1024" using sz by linarith+
  have "unat (SIZE_CEIL sz) = 4096 * k" unfolding k_def using sz by (intro SIZE_CEIL_unat) simp
  then have "unat (drop_bit PAGE_SHIFT (SIZE_CEIL sz)) = k" by (simp add: drop_bit_eq_div unat_div_distrib)
  moreover have "(unat sz + 127) div 128 \<le> (4096 * k + 127) div 128" using k by (intro div_le_mono) simp
  then have "unat (subpage_count sz) \<le> 32 * k" by (simp add: subpage_count_unat)
  ultimately show ?thesis using k(2) by (simp add: subpages_ok_def new_subpages_def)
qed

lemma alloc_subpages_new:
  assumes "xom_alloc_subpages_internal os sz l = Some (Sp_live sp, l')"
  shows "sz \<le> CHUNK_64" "\<exists>mode a. sp = new_subpages mode a sz"
proof -
  show sz: "sz \<le> CHUNK_64" using assms by (cases "sz > CHUNK_64") (simp_all add: xom_alloc_subpages_internal_def not_less)
  then have nl: "\<not> sz > CHUNK_64" by simp
  note code = assms[unfolded xom_alloc_subpages_internal_def if_not_P[OF nl]]
  from code obtain x where x: "xomalloc_page_internal os sz l = Some x" by (cases "xomalloc_page_internal os sz l") simp_all
  obtain buf l1 where [simp]: "x = (buf, l1)" by fastforce
  from code x obtain b where b: "buf = Some b" by (cases buf) simp_all
  note code = code[unfolded x \<open>x = _\<close> b bind.simps prod.case option.case]
  show "\<exists>mode a. sp = new_subpages mode a sz"
  proof (cases "os_malloc os 2")
    case True
    with code show ?thesis by (auto simp: case_prod_unfold Let_def split: if_split_asm)
  next
    case False
    with code show ?thesis by (auto simp: case_prod_unfold Let_def split: if_split_asm)
  qed
qed

lemma alloc_subpages_ok:
  assumes "xom_alloc_subpages_internal os sz l = Some (Sp_live sp, l')"
  shows "subpages_ok sp \<and> references sp = 0"
  using alloc_subpages_new[OF assms] new_subpages_ok by (auto simp: new_subpages_def)

text \<open>Filling fails and changes nothing in the buffer, or it takes a run of subpages that was free.\<close>

lemma write_into_subpages_cases:
  assumes "p < length (sp_lock_status sp)" "os_malloc os 4"
  shows "\<exists>l'. write_into_subpages os sp n src p s (push_bit n 1 - 1) l = Some (0, sp, l')
    \<or> write_into_subpages os sp n src p s (push_bit n 1 - 1) l = Some (sp_address sp + of_nat p * 4096 + of_nat s * 128, add_run sp n p s, l')"
  using assms by (auto simp: write_into_subpages_def add_run_def Let_def split: prod.split)

lemma fill_cases:
  assumes "subpages_ok sp" "os_malloc os 4"
  obtains (refused) l' where "xom_fill_and_lock_subpages_internal os sp sz src l = Some (0, sp, l')"
    | (run) n p s l' where "1 \<le> n" "p < fill_pages sp" "s + n \<le> 32" "run_free (sp_lock_status sp) n p s"
      "xom_fill_and_lock_subpages_internal os sp sz src l = Some (sp_address sp + of_nat p * 4096 + of_nat s * 128, add_run sp n p s, l')"
proof -
  define n where "n = unat (subpage_count sz)"
  let ?bad = "sz = 0 \<or> subpage_count sz > sp_num_subpages sp \<or> subpage_count sz > of_nat MAX_SUBPAGES_PER_CMD"
  let ?find = "List.find (position_free (sp_lock_status sp) (push_bit n 1 - 1)) (subpage_positions (fill_pages sp) n)"
  consider (bad) ?bad | (none) "\<not> ?bad" "?find = None" | (some) p s where "\<not> ?bad" "?find = Some (p, s)" by fastforce
  then show thesis
  proof cases
    case bad
    then have "xom_fill_and_lock_subpages_internal os sp sz src l = Some (0, sp, l\<lparr>errno := EINVAL\<rparr>)"
      by (simp add: xom_fill_and_lock_subpages_internal_def Let_def)
    then show thesis by (rule refused)
  next
    case none
    have "xom_fill_and_lock_subpages_internal os sp sz src l = Some (0, sp, l\<lparr>errno := - ENOMEM\<rparr>)"
      unfolding xom_fill_and_lock_subpages_internal_def Let_def if_not_P[OF none(1)] fill_pages_code(1)[OF assms(1)] n_def[symmetric]
        none(2) option.case ..
    then show thesis by (rule refused)
  next
    case some
    have "unat sz \<ge> 1" "n \<le> 31"
      using some(1) by (simp_all add: n_def word_less_nat_alt subpage_count_unat not_less word_unat_eq_iff)
    moreover from this(1) have "128 div 128 \<le> (unat sz + 127) div 128" by (intro div_le_mono) simp
    ultimately have n: "n \<ge> 1" "n \<le> 31" by (simp_all add: n_def subpage_count_unat)
    from find_free_run[OF this some(2)] have ps: "p < fill_pages sp" "s + n \<le> 32" "run_free (sp_lock_status sp) n p s" by simp_all
    then have p: "p < length (sp_lock_status sp)" using fill_pages_code(2)[OF assms(1)] by simp
    have "xom_fill_and_lock_subpages_internal os sp sz src l = write_into_subpages os sp n src p s (push_bit n 1 - 1) l"
      unfolding xom_fill_and_lock_subpages_internal_def Let_def if_not_P[OF some(1)] fill_pages_code(1)[OF assms(1)] n_def[symmetric]
        some(2) option.case prod.case ..
    with write_into_subpages_cases[OF p assms(2), of n src s l] refused run[OF n(1) ps] show thesis by metis
  qed
qed

lemma fill_ok:
  assumes "subpages_ok sp" "os_malloc os 4"
  shows "\<exists>ret sp' l'. xom_fill_and_lock_subpages_internal os sp sz src l = Some (ret, sp', l') \<and> subpages_ok sp'
    \<and> length (sp_lock_status sp') = length (sp_lock_status sp)
    \<and> (\<forall>q i. q < length (sp_lock_status sp) \<longrightarrow> bit (sp_lock_status sp ! q) i \<longrightarrow> bit (sp_lock_status sp' ! q) i)"
proof (rule fill_cases[OF assms, of sz src l])
  fix n p s l'
  assume "p < fill_pages sp" "s + n \<le> 32"
    and r: "xom_fill_and_lock_subpages_internal os sp sz src l = Some (sp_address sp + of_nat p * 4096 + of_nat s * 128, add_run sp n p s, l')"
  then have p: "p < length (sp_lock_status sp)" using fill_pages_code(2)[OF assms(1)] by simp
  have "subpages_ok (add_run sp n p s)" "length (sp_lock_status (add_run sp n p s)) = length (sp_lock_status sp)"
    using assms(1) by (simp_all add: add_run_def subpages_ok_def)
  moreover have "\<forall>q i. q < length (sp_lock_status sp) \<longrightarrow> bit (sp_lock_status sp ! q) i \<longrightarrow> bit (sp_lock_status (add_run sp n p s) ! q) i"
    using add_run_bits[OF \<open>s + n \<le> 32\<close> p] by simp
  ultimately show ?thesis using r by blast
qed (use assms(1) in blast)

lemma free_subpages_ok: "subpages_ok sp \<Longrightarrow> xom_free_subpages_internal os sp a l = (r, Some sp', l') \<Longrightarrow> subpages_ok sp'"
  by (auto simp: xom_free_subpages_internal_def subpages_ok_def Let_def split: if_splits)

text \<open>
  C37: subpage buffers are well-formed. A buffer that was allocated has a lock mask for each of its pages and no reference;
  filling it, with any size, returns without leaving the array of masks, keeps it well-formed and never unlocks a subpage; giving
  a range back keeps it well-formed unless the buffer is released.
\<close>

theorem subpages_well_formed:
  "(xom_alloc_subpages_internal os sz l = Some (Sp_live sp, l') \<longrightarrow> subpages_ok sp \<and> references sp = 0)
   \<and> (subpages_ok sp \<and> os_malloc os 4 \<longrightarrow> (\<exists>ret sp' l'. xom_fill_and_lock_subpages_internal os sp sz src l = Some (ret, sp', l')
        \<and> subpages_ok sp' \<and> length (sp_lock_status sp') = length (sp_lock_status sp)
        \<and> (\<forall>q i. q < length (sp_lock_status sp) \<longrightarrow> bit (sp_lock_status sp ! q) i \<longrightarrow> bit (sp_lock_status sp' ! q) i)))
   \<and> (subpages_ok sp \<and> xom_free_subpages_internal os sp a l = (r, Some sp', l') \<longrightarrow> subpages_ok sp')"
  using alloc_subpages_ok fill_ok free_subpages_ok by blast

theorem subpages_well_formed_witness:
  "subpages_ok sample_subpages \<and> (\<exists>ret sp' l'. xom_fill_and_lock_subpages_internal sample_os sample_subpages 5000 0x5000 sample_lib = Some (ret, sp', l')
     \<and> subpages_ok sp' \<and> bit (sp_lock_status sp' ! 0) 1)
   \<and> (\<exists>sp' l'. xom_free_subpages_internal sample_os (sample_subpages\<lparr>references := 3\<rparr>) 0x10080 sample_lib = (0, Some sp', l') \<and> subpages_ok sp')"
proof -
  have ok: "subpages_ok sample_subpages" "subpages_ok (sample_subpages\<lparr>references := 3\<rparr>)" "os_malloc sample_os 4"
    by (simp_all add: subpages_ok_def sample_subpages_def sample_os_def)
  have b: "0 < length (sp_lock_status sample_subpages)" "bit (sp_lock_status sample_subpages ! 0) 1"
    by (simp_all add: sample_subpages_def bit_numeral_rec(2))
  have f: "xom_free_subpages_internal sample_os (sample_subpages\<lparr>references := 3\<rparr>) 0x10080 sample_lib =
      (0, Some (sample_subpages\<lparr>references := 2\<rparr>), sample_lib)"
    by (simp add: xom_free_subpages_internal_def sample_subpages_def)
  have "\<exists>ret sp' l'. xom_fill_and_lock_subpages_internal sample_os sample_subpages 5000 0x5000 sample_lib = Some (ret, sp', l')
     \<and> subpages_ok sp' \<and> bit (sp_lock_status sp' ! 0) 1"
    using subpages_well_formed[of sample_os 5000 sample_lib sample_subpages] ok b by blast
  moreover have "subpages_ok (sample_subpages\<lparr>references := 2\<rparr>)"
    using subpages_well_formed[of sample_os 0 sample_lib "sample_subpages\<lparr>references := 3\<rparr>"] ok f by blast
  ultimately show ?thesis using ok(1) f by blast
qed

end
