(* ===== verification/Command_Bytes.thy ===== *)
theory Command_Bytes
  imports Libxom_Main Seal_Proofs
begin

text \<open>
  The formats that the three programs share: a command that the user library writes is the one the kernel module reads, and the records
  of a subpage command, stored in the operand page, are the ones the hypervisor reads.
\<close>

lemma length_cmd_bytes [simp]: "length (cmd_bytes c) = SIZEOF_CMD"
  by (simp add: cmd_bytes_def)

lemma read_cmd_cmd_bytes: "read_cmd (cmd_bytes c @ bs) = c"
proof -
  have "unat (cmd c) < 2 ^ 32" "unat (cmd_num_pages c) < 2 ^ 32" "unat (base_addr c) < 2 ^ 64"
    using unsigned_less[of "cmd c"] unsigned_less[of "cmd_num_pages c"] unsigned_less[of "base_addr c"] by simp_all
  then show ?thesis by (simp add: read_cmd_def cmd_bytes_def le_val_le_bytes)
qed

lemma length_concat_blocks: "\<forall>i < n. length (f i) = k \<Longrightarrow> length (concat (map f [0..<n])) = n * k"
  by (induction n) simp_all

lemma nth_concat_blocks:
  assumes "\<forall>i < n. length (f i) = k" "i < n" "j < k"
  shows "concat (map f [0..<n]) ! (i * k + j) = f i ! j"
  using assms
proof (induction n)
  case (Suc n)
  have len: "length (concat (map f [0..<n])) = n * k" using Suc.prems(1) by (intro length_concat_blocks) simp
  show ?case
  proof (cases "i = n")
    case True
    with len show ?thesis by (simp add: nth_append)
  next
    case False
    with Suc.prems have "i < n" by simp
    then have "Suc i * k \<le> n * k" by (intro mult_le_mono1) simp
    with Suc.prems(3) have "i * k + j < n * k" by simp
    with Suc \<open>i < n\<close> len show ?thesis by (simp add: nth_append)
  qed
qed simp

lemma length_subpage_records:
  "\<forall>i < n. length (data i) = SUBPAGE_SIZE \<Longrightarrow> length (subpage_records n s data) = 1 + n * (1 + SUBPAGE_SIZE)"
  unfolding subpage_records_def using length_concat_blocks[of n "\<lambda>i. of_nat (i + s) # data i" "1 + SUBPAGE_SIZE"] by simp

text \<open>A page that begins with the records.\<close>

definition starts_with :: "(nat \<Rightarrow> u8) \<Rightarrow> u8 list \<Rightarrow> bool" where
  "starts_with pg bs \<longleftrightarrow> (\<forall>i < length bs. pg i = bs ! i)"

lemma command_of_records:
  assumes "starts_with pg (subpage_records n s data)" "n \<le> MAX_SUBPAGES_PER_CMD" "\<forall>i < n. length (data i) = SUBPAGE_SIZE"
  shows "command_of pg = map (\<lambda>i. \<lparr>target_subpage = of_nat (i + s), wi_data = data i\<rparr>) [0..<n]" "unat (pg 0) = n"
proof -
  let ?f = "\<lambda>i. of_nat (i + s) # data i"
  have len: "length (subpage_records n s data) = 1 + n * (1 + SUBPAGE_SIZE)" by (rule length_subpage_records[OF assms(3)])
  have k: "\<forall>i < n. length (?f i) = 1 + SUBPAGE_SIZE" using assms(3) by simp
  have "pg 0 = of_nat n" using assms(1) len by (simp add: starts_with_def subpage_records_def)
  with assms(2) show n: "unat (pg 0) = n" by (simp add: unat_of_nat)
  have at: "pg (1 + (i * (1 + SUBPAGE_SIZE) + j)) = ?f i ! j" if "i < n" "j < 1 + SUBPAGE_SIZE" for i j
  proof -
    have "Suc i * (1 + SUBPAGE_SIZE) \<le> n * (1 + SUBPAGE_SIZE)" using that(1) by (intro mult_le_mono1) simp
    then have "1 + (i * (1 + SUBPAGE_SIZE) + j) < length (subpage_records n s data)" using that(2) unfolding len by simp
    with assms(1) have "pg (1 + (i * (1 + SUBPAGE_SIZE) + j)) = subpage_records n s data ! (1 + (i * (1 + SUBPAGE_SIZE) + j))"
      unfolding starts_with_def by blast
    also have "\<dots> = ?f i ! j" unfolding subpage_records_def using nth_concat_blocks[OF k that] by simp
    finally show ?thesis .
  qed
  have wi: "\<lparr>target_subpage = pg (1 + i * (1 + SUBPAGE_SIZE)), wi_data = map (\<lambda>j. pg (2 + i * (1 + SUBPAGE_SIZE) + j)) [0..<SUBPAGE_SIZE]\<rparr>
      = \<lparr>target_subpage = of_nat (i + s), wi_data = data i\<rparr>" if "i < n" for i
  proof -
    have "pg (1 + i * (1 + SUBPAGE_SIZE)) = of_nat (i + s)" using at[OF that, of 0] by simp
    moreover have "map (\<lambda>j. pg (2 + i * (1 + SUBPAGE_SIZE) + j)) [0..<SUBPAGE_SIZE] = data i"
      using at[OF that, of "Suc j" for j] assms(3) that by (intro nth_equalityI) simp_all
    ultimately show ?thesis by simp
  qed
  have "command_of pg = map (\<lambda>i. \<lparr>target_subpage = pg (1 + i * (1 + SUBPAGE_SIZE)),
      wi_data = map (\<lambda>j. pg (2 + i * (1 + SUBPAGE_SIZE) + j)) [0..<SUBPAGE_SIZE]\<rparr>) [0..<n]"
    unfolding command_of_def num_subpages_read n using assms(2)
    by (simp add: read_write_command_def take_map del: upt_Suc upt_rec_numeral)
  also have "\<dots> = map (\<lambda>i. \<lparr>target_subpage = of_nat (i + s), wi_data = data i\<rparr>) [0..<n]"
    using wi by (intro map_cong) simp_all
  finally show "command_of pg = map (\<lambda>i. \<lparr>target_subpage = of_nat (i + s), wi_data = data i\<rparr>) [0..<n]" .
qed

text \<open>What such a command does to a page.\<close>

lemma records_written:
  assumes "subpages_written (map (\<lambda>i. \<lparr>target_subpage = of_nat (i + s), wi_data = data i\<rparr>) [0..<n]) pg ls pg' ls'" "s + n \<le> 32"
  shows "\<And>off. pg' off = (if s * 128 \<le> off \<and> off < (s + n) * 128 then data (off div 128 - s) ! (off mod 128) else pg off)"
    and "\<And>i. bit ls' i \<longleftrightarrow> bit ls i \<or> s \<le> i \<and> i < s + n" "\<And>i. s \<le> i \<Longrightarrow> i < s + n \<Longrightarrow> \<not> bit ls i"
proof -
  let ?wi = "\<lambda>i. \<lparr>target_subpage = of_nat (i + s) :: u8, wi_data = data i\<rparr>"
  have t: "unat (of_nat (i + s) :: u8) = i + s" if "i < n" for i using that assms(2) by (simp only: unat_of_nat) simp
  have d: "distinct (map target_subpage (map ?wi [0..<n]))"
    by (auto simp: distinct_map inj_on_def) (metis add_right_cancel of_nat_add t)
  note w = assms(1)[unfolded subpages_written_def]
  show "pg' off = (if s * 128 \<le> off \<and> off < (s + n) * 128 then data (off div 128 - s) ! (off mod 128) else pg off)" for off
  proof (cases "s * 128 \<le> off \<and> off < (s + n) * 128")
    case True
    define i where "i = off div 128 - s"
    have div: "s \<le> off div 128" "off div 128 < s + n" using True by (simp_all add: less_eq_div_iff_mult_less_eq less_mult_imp_div_less)
    then have i: "i < n" "i + s = off div 128" by (simp_all add: i_def)
    have "in_subpage (i + s) off" unfolding i(2) in_subpage_def using div_mult_mod_eq[of off 128] mod_less_divisor[of 128 off] by simp
    then have "pg' off = data i ! (off - (i + s) * 128)"
      using w d i t[OF i(1)] by (metis (no_types, lifting) imageI list.set_map atLeast0LessThan atLeast_upt lessThan_iff
          xom_subpage_write_info.select_convs)
    moreover have "off - (i + s) * 128 = off mod 128" unfolding i(2) by (simp add: minus_div_mult_eq_mod)
    ultimately show ?thesis using True by (simp add: i_def)
  next
    case False
    have "\<not> in_subpage (i + s) off" if "i < n" for i using False that unfolding in_subpage_def by auto
    with w t False show ?thesis by auto
  qed
  have ex: "(\<exists>wi \<in> set (map ?wi [0..<n]). unat (target_subpage wi) = i) \<longleftrightarrow> s \<le> i \<and> i < s + n" for i
  proof
    assume "s \<le> i \<and> i < s + n"
    then have "i - s < n" "i - s + s = i" by auto
    with t show "\<exists>wi \<in> set (map ?wi [0..<n]). unat (target_subpage wi) = i" by force
  qed (use t in auto)
  show "bit ls' i \<longleftrightarrow> bit ls i \<or> s \<le> i \<and> i < s + n" for i using w ex assms(2) by auto
  show "\<not> bit ls i" if "s \<le> i" "i < s + n" for i using w ex[of i] that by blast
qed

end
