(* ===== verification/Aes.thy ===== *)
theory Aes
  imports Xom_Prelude "HOL-Library.Monad_Syntax"
begin

text \<open>
  AES-128 as in FIPS 197, and the vector instructions that the assembly routines of the OpenSSL provider use. A vector register and a block are
  lists of 16 bytes, the byte with the lowest address first.
\<close>

type_synonym block = "u8 list"

subsection \<open>The cipher\<close>

definition sbox_table :: "u8 list" where
  "sbox_table =
    [0x63, 0x7c, 0x77, 0x7b, 0xf2, 0x6b, 0x6f, 0xc5, 0x30, 0x01, 0x67, 0x2b, 0xfe, 0xd7, 0xab, 0x76,
     0xca, 0x82, 0xc9, 0x7d, 0xfa, 0x59, 0x47, 0xf0, 0xad, 0xd4, 0xa2, 0xaf, 0x9c, 0xa4, 0x72, 0xc0,
     0xb7, 0xfd, 0x93, 0x26, 0x36, 0x3f, 0xf7, 0xcc, 0x34, 0xa5, 0xe5, 0xf1, 0x71, 0xd8, 0x31, 0x15,
     0x04, 0xc7, 0x23, 0xc3, 0x18, 0x96, 0x05, 0x9a, 0x07, 0x12, 0x80, 0xe2, 0xeb, 0x27, 0xb2, 0x75,
     0x09, 0x83, 0x2c, 0x1a, 0x1b, 0x6e, 0x5a, 0xa0, 0x52, 0x3b, 0xd6, 0xb3, 0x29, 0xe3, 0x2f, 0x84,
     0x53, 0xd1, 0x00, 0xed, 0x20, 0xfc, 0xb1, 0x5b, 0x6a, 0xcb, 0xbe, 0x39, 0x4a, 0x4c, 0x58, 0xcf,
     0xd0, 0xef, 0xaa, 0xfb, 0x43, 0x4d, 0x33, 0x85, 0x45, 0xf9, 0x02, 0x7f, 0x50, 0x3c, 0x9f, 0xa8,
     0x51, 0xa3, 0x40, 0x8f, 0x92, 0x9d, 0x38, 0xf5, 0xbc, 0xb6, 0xda, 0x21, 0x10, 0xff, 0xf3, 0xd2,
     0xcd, 0x0c, 0x13, 0xec, 0x5f, 0x97, 0x44, 0x17, 0xc4, 0xa7, 0x7e, 0x3d, 0x64, 0x5d, 0x19, 0x73,
     0x60, 0x81, 0x4f, 0xdc, 0x22, 0x2a, 0x90, 0x88, 0x46, 0xee, 0xb8, 0x14, 0xde, 0x5e, 0x0b, 0xdb,
     0xe0, 0x32, 0x3a, 0x0a, 0x49, 0x06, 0x24, 0x5c, 0xc2, 0xd3, 0xac, 0x62, 0x91, 0x95, 0xe4, 0x79,
     0xe7, 0xc8, 0x37, 0x6d, 0x8d, 0xd5, 0x4e, 0xa9, 0x6c, 0x56, 0xf4, 0xea, 0x65, 0x7a, 0xae, 0x08,
     0xba, 0x78, 0x25, 0x2e, 0x1c, 0xa6, 0xb4, 0xc6, 0xe8, 0xdd, 0x74, 0x1f, 0x4b, 0xbd, 0x8b, 0x8a,
     0x70, 0x3e, 0xb5, 0x66, 0x48, 0x03, 0xf6, 0x0e, 0x61, 0x35, 0x57, 0xb9, 0x86, 0xc1, 0x1d, 0x9e,
     0xe1, 0xf8, 0x98, 0x11, 0x69, 0xd9, 0x8e, 0x94, 0x9b, 0x1e, 0x87, 0xe9, 0xce, 0x55, 0x28, 0xdf,
     0x8c, 0xa1, 0x89, 0x0d, 0xbf, 0xe6, 0x42, 0x68, 0x41, 0x99, 0x2d, 0x0f, 0xb0, 0x54, 0xbb, 0x16]"

definition sbox :: "u8 \<Rightarrow> u8" where
  "sbox b = sbox_table ! unat b"

definition xor_block :: "block \<Rightarrow> block \<Rightarrow> block" where
  "xor_block a b = map2 (XOR) a b"

definition xtime :: "u8 \<Rightarrow> u8" where
  "xtime b = push_bit 1 b XOR (if bit b 7 then 0x1b else 0)"

definition sub_bytes :: "block \<Rightarrow> block" where
  "sub_bytes s = map sbox s"

text \<open>Byte \<open>r + 4 * c\<close> of a state is in row \<open>r\<close> and column \<open>c\<close>.\<close>

definition shift_rows :: "block \<Rightarrow> block" where
  "shift_rows s = map (\<lambda>i. s ! (i mod 4 + 4 * ((i div 4 + i mod 4) mod 4))) [0..<16]"

definition mix_column :: "u8 list \<Rightarrow> u8 list" where
  "mix_column c = map (\<lambda>r. xtime (c ! r) XOR (xtime (c ! ((r + 1) mod 4)) XOR c ! ((r + 1) mod 4))
     XOR c ! ((r + 2) mod 4) XOR c ! ((r + 3) mod 4)) [0..<4]"

definition mix_columns :: "block \<Rightarrow> block" where
  "mix_columns s = concat (map (\<lambda>c. mix_column (take 4 (drop (4 * c) s))) [0..<4])"

text \<open>The key schedule: the round key after a given one, word by word.\<close>

definition next_key :: "u8 \<Rightarrow> block \<Rightarrow> block" where
  "next_key rc k =
     (let w0 = take 4 k; w1 = take 4 (drop 4 k); w2 = take 4 (drop 8 k); w3 = drop 12 k;
          t = xor_block (map sbox (rotate1 w3)) [rc, 0, 0, 0];
          v0 = xor_block w0 t; v1 = xor_block w1 v0; v2 = xor_block w2 v1; v3 = xor_block w3 v2
      in v0 @ v1 @ v2 @ v3)"

definition rcons :: "u8 list" where
  "rcons = [0x01, 0x02, 0x04, 0x08, 0x10, 0x20, 0x40, 0x80, 0x1b, 0x36]"

fun round_keys :: "u8 list \<Rightarrow> block \<Rightarrow> block list" where
  "round_keys [] k = [k]"
| "round_keys (rc # rcs) k = k # round_keys rcs (next_key rc k)"

definition aes_round :: "block \<Rightarrow> block \<Rightarrow> block" where
  "aes_round k s = xor_block (mix_columns (shift_rows (sub_bytes s))) k"

definition aes_last_round :: "block \<Rightarrow> block \<Rightarrow> block" where
  "aes_last_round k s = xor_block (shift_rows (sub_bytes s)) k"

definition aes128 :: "block \<Rightarrow> block \<Rightarrow> block" where
  "aes128 key s =
     (let ks = round_keys rcons key
      in aes_last_round (ks ! 10) (fold aes_round (take 9 (tl ks)) (xor_block s (hd ks))))"

text \<open>The example of appendix B of the standard.\<close>

lemma aes128_example:
  "aes128 [0x2b, 0x7e, 0x15, 0x16, 0x28, 0xae, 0xd2, 0xa6, 0xab, 0xf7, 0x15, 0x88, 0x09, 0xcf, 0x4f, 0x3c]
     [0x32, 0x43, 0xf6, 0xa8, 0x88, 0x5a, 0x30, 0x8d, 0x31, 0x31, 0x98, 0xa2, 0xe0, 0x37, 0x07, 0x34]
   = [0x39, 0x25, 0x84, 0x1d, 0x02, 0xdc, 0x09, 0xfb, 0xdc, 0x11, 0x85, 0x97, 0x19, 0x6a, 0x0b, 0x32]"
  by code_simp

subsection \<open>Vector instructions\<close>

text \<open>The instructions that work on whole registers; the destination is the last argument, as in the assembly source.\<close>

definition aesenc :: "block \<Rightarrow> block \<Rightarrow> block" where
  "aesenc k s = xor_block (mix_columns (sub_bytes (shift_rows s))) k"

definition aesenclast :: "block \<Rightarrow> block \<Rightarrow> block" where
  "aesenclast k s = xor_block (sub_bytes (shift_rows s)) k"

definition aeskeygenassist :: "u8 \<Rightarrow> block \<Rightarrow> block" where
  "aeskeygenassist rc x =
     (let x1 = map sbox (take 4 (drop 4 x)); x3 = map sbox (drop 12 x)
      in x1 @ xor_block (rotate1 x1) [rc, 0, 0, 0] @ x3 @ xor_block (rotate1 x3) [rc, 0, 0, 0])"

text \<open>\<^verbatim>\<open>pshufd $255\<close> copies the last double word to all, \<^verbatim>\<open>pslldq $4\<close> shifts by one double word.\<close>

definition pshufd_255 :: "block \<Rightarrow> block" where
  "pshufd_255 x = drop 12 x @ drop 12 x @ drop 12 x @ drop 12 x"

definition pslldq_4 :: "block \<Rightarrow> block" where
  "pslldq_4 x = [0, 0, 0, 0] @ take 12 x"

definition pshufb :: "block \<Rightarrow> block \<Rightarrow> block" where
  "pshufb msk x = map (\<lambda>m. if bit m 7 then 0 else x ! unat (m AND 15)) msk"

definition movq_xmm :: "u64 \<Rightarrow> block" where
  "movq_xmm r = le_bytes 8 (unat r) @ replicate 8 0"

definition movlhps :: "block \<Rightarrow> block \<Rightarrow> block" where
  "movlhps x y = take 8 y @ take 8 x"

definition add_dword :: "u8 list \<Rightarrow> u8 list \<Rightarrow> u8 list" where
  "add_dword a b = le_bytes 4 (le_val a + le_val b)"

definition paddd :: "block \<Rightarrow> block \<Rightarrow> block" where
  "paddd x y = concat (map (\<lambda>i. add_dword (take 4 (drop (4 * i) x)) (take 4 (drop (4 * i) y))) [0..<4])"

end
