(* ===== verification/Aesni.thy ===== *)
theory Aesni
  imports Aes Hvm_Fault
begin

text \<open>
  The assembly routines of \<^verbatim>\<open>openssl-provider/src/aes_aesni.s\<close>: counter mode with the key in the immediate operands of the code, which
  runs in an execute-only page, and the hash key of the authenticated mode. The page is marked for clearing of the vector registers, so at any point between two instructions the hypervisor may replace
  the vector registers and r14, r15; this is \<^const>\<open>handle_register_clear\<close>.

  An instruction is a function on the state. Straight-line code is a list of instructions, executed with an interruption after each one for which \<open>intr\<close> holds at its time.
  The routine for a round key is entered by a jump and left by a jump table on a count in \<^verbatim>\<open>al\<close>; its instructions stand in the list where it is entered.
\<close>

subsection \<open>State\<close>

text \<open>
  The position is the common offset, in blocks, of the input and the output pointer. If both point to the same memory, the input is read from the output.
\<close>

record gctr_state =
  gp :: cpu_user_regs
  xmm :: "nat \<Rightarrow> block"
  pos :: nat
  inp :: "block list"
  outp :: "block list"
  in_place :: bool

type_synonym instr = "gctr_state \<Rightarrow> gctr_state"

definition set_xmm :: "nat \<Rightarrow> block \<Rightarrow> instr" where
  "set_xmm i b s = s\<lparr>xmm := (xmm s)(i := b)\<rparr>"

definition mov_r8 :: "u64 \<Rightarrow> instr" where
  "mov_r8 v s = s\<lparr>gp := (gp s)\<lparr>r8 := v\<rparr>\<rparr>"

definition mov_r14 :: "u64 \<Rightarrow> instr" where
  "mov_r14 v s = s\<lparr>gp := (gp s)\<lparr>r14 := v\<rparr>\<rparr>"

definition xor_r15 :: instr where
  "xor_r15 s = s\<lparr>gp := (gp s)\<lparr>r15 := 0\<rparr>\<rparr>"

definition movq_r8 :: "nat \<Rightarrow> instr" where
  "movq_r8 i s = set_xmm i (movq_xmm (r8 (gp s))) s"

definition movq_r14 :: "nat \<Rightarrow> instr" where
  "movq_r14 i s = set_xmm i (movq_xmm (r14 (gp s))) s"

definition mov_x :: "nat \<Rightarrow> nat \<Rightarrow> instr" where
  "mov_x i j s = set_xmm j (xmm s i) s"

definition op_x :: "(block \<Rightarrow> block \<Rightarrow> block) \<Rightarrow> nat \<Rightarrow> nat \<Rightarrow> instr" where
  "op_x f i j s = set_xmm j (f (xmm s i) (xmm s j)) s"

definition upd_x :: "(block \<Rightarrow> block) \<Rightarrow> nat \<Rightarrow> instr" where
  "upd_x f j s = set_xmm j (f (xmm s j)) s"

definition load_block :: "nat \<Rightarrow> instr" where
  "load_block j s = set_xmm j ((if in_place s then outp s else inp s) ! pos s) s"

definition store_block :: "nat \<Rightarrow> instr" where
  "store_block i s = s\<lparr>outp := (outp s)[pos s := xmm s i]\<rparr>"

subsection \<open>Code\<close>

text \<open>One round key, left in register \<open>d\<close>.\<close>

definition round_key_code :: "u8 \<times> nat \<Rightarrow> instr list" where
  "round_key_code = (\<lambda>(rc, d).
     [\<lambda>s. set_xmm 2 (aeskeygenassist rc (xmm s 1)) s, upd_x pshufd_255 2, mov_x 1 3,
      upd_x pslldq_4 3, op_x xor_block 3 1, upd_x pslldq_4 3, op_x xor_block 3 1, upd_x pslldq_4 3, op_x xor_block 3 1,
      op_x xor_block 2 1, mov_x 1 d])"

definition key_schedule_code :: "instr list" where
  "key_schedule_code = concat (map round_key_code
     [(0x01, 5), (0x02, 6), (0x04, 7), (0x08, 8), (0x10, 9), (0x20, 10), (0x40, 11), (0x80, 12), (0x1b, 13), (0x36, 14)])"

text \<open>From the entry to the first block: the byte-reversal mask, the key, the round keys, and the counter block.\<close>

definition mask_code :: "instr list" where
  "mask_code = [xor_r15, mov_r8 0x08090a0b0c0d0e0f, movq_r8 15, mov_r8 0x0001020304050607, movq_r8 14, op_x movlhps 14 15]"

definition key_code :: "u64 \<Rightarrow> u64 \<Rightarrow> instr list" where
  "key_code key_lo key_hi =
     [mov_r14 key_lo, movq_r14 0, mov_r14 key_hi, movq_r14 1, op_x movlhps 1 0, mov_r14 0, mov_x 0 1, mov_x 0 4]"

definition counter_code :: "block \<Rightarrow> instr list" where
  "counter_code icb = [set_xmm 3 icb, op_x pshufb 15 3, mov_r8 1, movq_r8 2]"

definition encrypt_code :: "instr list" where
  "encrypt_code = op_x xor_block 4 0 # map (\<lambda>k. op_x aesenc k 0) [5..<14] @ [op_x aesenclast 14 0]"

definition block_code :: "instr list" where
  "block_code = [mov_x 3 0, op_x pshufb 15 0, load_block 1] @ encrypt_code @ [op_x xor_block 1 0, store_block 0]"

definition dec_rcx :: instr where
  "dec_rcx s = s\<lparr>gp := (gp s)\<lparr>rcx := rcx (gp s) - 1\<rparr>\<rparr>"

definition next_block_code :: "instr list" where
  "next_block_code = [op_x paddd 2 3, \<lambda>s. s\<lparr>pos := pos s + 1\<rparr>]"

subsection \<open>Execution\<close>

text \<open>\<open>clr\<close> is what an interruption does to the state. The result is the time and the state.\<close>

fun exec :: "instr \<Rightarrow> (nat \<Rightarrow> bool) \<Rightarrow> instr list \<Rightarrow> nat \<Rightarrow> gctr_state \<Rightarrow> nat \<times> gctr_state" where
  "exec clr intr [] t s = (t, s)"
| "exec clr intr (i # is) t s = exec clr intr is (t + 1) (if intr t then clr (i s) else i s)"

text \<open>The loop; access outside of the buffers is \<^const>\<open>None\<close>.\<close>

partial_function (option) enc_block_loop ::
  "instr \<Rightarrow> (nat \<Rightarrow> bool) \<Rightarrow> nat \<Rightarrow> gctr_state \<Rightarrow> (nat \<times> gctr_state) option" where
  "enc_block_loop clr intr t s =
     (if pos s \<ge> length (outp s) \<or> \<not> in_place s \<and> pos s \<ge> length (inp s) then None
      else let (t, s) = exec clr intr block_code t s
           in if r15 (gp s) AND 0xFF \<noteq> 0 then Some (t, s)
              else let (t, s) = exec clr intr [dec_rcx] t s
                   in if rcx (gp s) = 0 then Some (t, s)
                      else let (t, s) = exec clr intr next_block_code t s
                           in enc_block_loop clr intr t s)"

text \<open>At the end all vector registers but the constants in 2 and 15 are zeroed.\<close>

definition done_code :: "instr list" where
  "done_code = set_xmm 0 (replicate 16 0) # map (mov_x 0) (1 # [3..<15])"

text \<open>The whole routine: the number of remaining blocks, the time, and the state.\<close>

definition aes_aesni_gctr_linear ::
  "instr \<Rightarrow> (nat \<Rightarrow> bool) \<Rightarrow> u64 \<Rightarrow> u64 \<Rightarrow> block \<Rightarrow> nat \<Rightarrow> gctr_state \<Rightarrow> (u64 \<times> nat \<times> gctr_state) option" where
  "aes_aesni_gctr_linear clr intr key_lo key_hi icb t s = do {
     (t, s) \<leftarrow> (let (t, s) = exec clr intr (mask_code @ key_code key_lo key_hi @ key_schedule_code @ counter_code icb) t s
               in enc_block_loop clr intr t s);
     (let (t, s) = exec clr intr done_code t s in Some (rcx (gp s), t, s))
   }"

text \<open>An interruption of the routine: the hypervisor clears the registers of user code in a marked page.\<close>

definition reg_clear ::
  "(nat \<Rightarrow> block) vec_unit \<Rightarrow> 'e xom_domain \<Rightarrow> u64 \<Rightarrow> (u64 \<Rightarrow> u64) \<Rightarrow> instr" where
  "reg_clear vu d cs_base gva_to_gfn s =
     (let (regs, v) = handle_register_clear vu d True cs_base gva_to_gfn 3 (gp s) (xmm s)
      in s\<lparr>gp := regs, xmm := v\<rparr>)"

text \<open>
  \<^verbatim>\<open>get_H_unprotected\<close> is not in execute-only memory: it encrypts the zero block with the key that its argument points to, stores the result over
  the key, and clears the registers it used. The result is the stored block and the state.
\<close>

definition get_H_code :: "block \<Rightarrow> instr list" where
  "get_H_code key = [set_xmm 1 key, mov_x 1 4] @ key_schedule_code @ [set_xmm 0 (replicate 16 0)] @ encrypt_code"

definition get_H_clear_code :: "instr list" where
  "get_H_clear_code = set_xmm 0 (replicate 16 0) # map (mov_x 0) [1..<15]"

definition get_H_unprotected :: "block \<Rightarrow> gctr_state \<Rightarrow> block \<times> gctr_state" where
  "get_H_unprotected key s =
     (let s = snd (exec id (\<lambda>_. False) (get_H_code key) 0 s)
      in (xmm s 0, snd (exec id (\<lambda>_. False) get_H_clear_code 0 s)))"

end
