(* ===== verification/Aesni_Main.thy ===== *)
theory Aesni_Main
  imports Aesni Xen_Sample
begin

text \<open>
  The theorems on the assembly routines: they compute AES-128 in counter mode whatever interruptions happen, an interrupted block gives away
  nothing but possibly half of the key, and a block encrypted in place is lost by an interruption.
\<close>

subsection \<open>Blocks\<close>

lemma list16:
  assumes "length xs = 16"
  obtains a0 a1 a2 a3 a4 a5 a6 a7 a8 a9 a10 a11 a12 a13 a14 a15
    where "xs = [a0, a1, a2, a3, a4, a5, a6, a7, a8, a9, a10, a11, a12, a13, a14, a15]"
proof -
  have "xs = map ((!) xs) [0..<16]" using map_nth[of xs] by (simp add: assms)
  then show thesis unfolding upt_16 list.map by (rule that)
qed

lemma length_xor_block [simp]: "length (xor_block a b) = min (length a) (length b)"
  by (simp add: xor_block_def)

lemma length_shift_rows [simp]: "length (shift_rows s) = 16"
  by (simp add: shift_rows_def)

lemma length_sub_bytes [simp]: "length (sub_bytes s) = length s"
  by (simp add: sub_bytes_def)

lemma length_mix_columns [simp]: "length (mix_columns s) = 16"
  by (simp add: mix_columns_def mix_column_def upt_rec)

lemma xor_block_commute: "xor_block a b = xor_block b a"
  unfolding xor_block_def by (subst zip_commute) (simp add: xor.commute case_prod_unfold)

lemma sub_shift: "length s = 16 \<Longrightarrow> sub_bytes (shift_rows s) = shift_rows (sub_bytes s)"
  by (auto simp: sub_bytes_def shift_rows_def)

lemma aesenc_round: "length s = 16 \<Longrightarrow> aesenc k s = aes_round k s"
  by (simp add: aesenc_def aes_round_def sub_shift)

lemma aesenclast_round: "length s = 16 \<Longrightarrow> aesenclast k s = aes_last_round k s"
  by (simp add: aesenclast_def aes_last_round_def sub_shift)

lemma length_aes_round [simp]: "length k = 16 \<Longrightarrow> length (aes_round k s) = 16"
  by (simp add: aes_round_def)

lemma length_next_key [simp]: "length k = 16 \<Longrightarrow> length (next_key rc k) = 16"
  by (simp add: next_key_def Let_def)

text \<open>The instructions of one round of the key schedule.\<close>

lemma next_key_code:
  assumes "length k = 16"
  shows "xor_block (pshufd_255 (aeskeygenassist rc k)) (xor_block (pslldq_4 (pslldq_4 (pslldq_4 k)))
      (xor_block (pslldq_4 (pslldq_4 k)) (xor_block (pslldq_4 k) k))) = next_key rc k"
  using assms
  by (elim list16) (simp add: xor_block_def pshufd_255_def aeskeygenassist_def pslldq_4_def next_key_def Let_def xor.assoc xor.commute xor.left_commute)

subsection \<open>Execution\<close>

text \<open>What an interruption does to the state, if the page of the routine is marked for clearing the vector registers.\<close>

definition cleared :: instr where
  "cleared s = s\<lparr>gp := (gp s)\<lparr>r14 := 0xbabababababababa, r15 := 0xbabababababababa\<rparr>, xmm := (\<lambda>_. replicate 16 0)\<rparr>"

text \<open>What most instructions leave alone: everything but the vector registers, r8, r14 and the current block of the output.\<close>

definition keeps :: "gctr_state \<Rightarrow> gctr_state \<Rightarrow> bool" where
  "keeps s s' \<longleftrightarrow> rip (gp s') = rip (gp s) \<and> rcx (gp s') = rcx (gp s) \<and> pos s' = pos s \<and> inp s' = inp s \<and> in_place s' = in_place s
     \<and> length (outp s') = length (outp s) \<and> (\<forall>j. j \<noteq> pos s \<longrightarrow> outp s' ! j = outp s ! j)"

definition quiet :: "instr \<Rightarrow> bool" where
  "quiet i \<longleftrightarrow> (\<forall>s. keeps s (i s) \<and> r15 (gp (i s)) = r15 (gp s))"

lemma keeps_refl [simp]: "keeps s s"
  by (simp add: keeps_def)

lemma keeps_trans: "keeps s s' \<Longrightarrow> keeps s' s'' \<Longrightarrow> keeps s s''"
  by (simp add: keeps_def)

lemma keeps_cleared: "keeps s (cleared s)"
  by (simp add: keeps_def cleared_def)

lemma quiet_instrs:
  "quiet (set_xmm i b)" "quiet (mov_r8 v)" "quiet (mov_r14 v)" "quiet (movq_r8 i)" "quiet (movq_r14 i)" "quiet (mov_x i j)"
  "quiet (op_x f i j)" "quiet (upd_x g j)" "quiet (load_block j)" "quiet (store_block i)" "quiet (\<lambda>s. set_xmm i (h s) s)"
  by (simp_all add: quiet_def keeps_def set_xmm_def mov_r8_def mov_r14_def movq_r8_def movq_r14_def mov_x_def op_x_def upd_x_def
      load_block_def store_block_def)

lemma quiet_code:
  "\<forall>i \<in> set (tl mask_code). quiet i" "\<forall>i \<in> set (key_code lo hi). quiet i" "\<forall>i \<in> set key_schedule_code. quiet i"
  "\<forall>i \<in> set (counter_code icb). quiet i" "\<forall>i \<in> set block_code. quiet i" "\<forall>i \<in> set done_code. quiet i"
  by (auto simp: mask_code_def key_code_def key_schedule_code_def round_key_code_def counter_code_def block_code_def encrypt_code_def
      done_code_def quiet_instrs)

lemma exec_keeps:
  "\<forall>i \<in> set is. quiet i \<Longrightarrow> keeps s (snd (exec cleared intr is t s)) \<and> fst (exec cleared intr is t s) = t + length is"
proof (induction "is" arbitrary: t s)
  case (Cons i "is")
  let ?s = "if intr t then cleared (i s) else i s"
  have k: "keeps s (i s)" using Cons.prems by (simp add: quiet_def)
  have s: "keeps s ?s" by (cases "intr t") (simp_all add: keeps_trans[OF k keeps_cleared] k)
  have "\<forall>i \<in> set is. quiet i" using Cons.prems by simp
  from Cons.IH[OF this, of ?s "t + 1"] have ih: "keeps ?s (snd (exec cleared intr is (t + 1) ?s))"
    "fst (exec cleared intr is (t + 1) ?s) = t + 1 + length is" by blast+
  from keeps_trans[OF s ih(1)] ih(2) show ?case unfolding exec.simps list.size by (intro conjI) (assumption, linarith)
qed simp

lemma r15_low: "(0xbabababababababa :: u64) AND 0xFF \<noteq> 0"
  by simp

text \<open>An interruption leaves its mark in r15, and so does an earlier one.\<close>

lemma exec_dirty:
  "\<forall>i \<in> set is. quiet i \<Longrightarrow> r15 (gp s) AND 0xFF \<noteq> 0 \<or> (\<exists>u \<ge> t. u < t + length is \<and> intr u) \<Longrightarrow>
   r15 (gp (snd (exec cleared intr is t s))) AND 0xFF \<noteq> 0"
proof (induction "is" arbitrary: t s)
  case (Cons i "is")
  let ?s = "if intr t then cleared (i s) else i s"
  have q: "\<forall>i \<in> set is. quiet i" "r15 (gp (i s)) = r15 (gp s)" using Cons.prems(1) by (simp_all add: quiet_def)
  have "r15 (gp ?s) AND 0xFF \<noteq> 0 \<or> (\<exists>u \<ge> t + 1. u < t + 1 + length is \<and> intr u)"
  proof (cases "intr t")
    case False
    have "\<exists>u \<ge> t + 1. u < t + 1 + length is \<and> intr u" if u: "u \<ge> t" "u < t + length (i # is)" "intr u" for u
    proof -
      from False u(3) have "u \<noteq> t" by auto
      with u show ?thesis by (intro exI[of _ u]) auto
    qed
    with Cons.prems(2) q(2) False show ?thesis by (simp only: if_False) blast
  qed (simp add: cleared_def r15_low)
  from Cons.IH[OF q(1) this] show ?case by simp
qed auto

lemma exec_clean: "\<forall>u. t \<le> u \<and> u < t + length is \<longrightarrow> \<not> intr u \<Longrightarrow> exec clr intr is t s = (t + length is, fold (\<lambda>i. i) is s)"
proof (induction "is" arbitrary: t s)
  case (Cons i "is")
  then have "\<not> intr t" "\<forall>u. t + 1 \<le> u \<and> u < t + 1 + length is \<longrightarrow> \<not> intr u" by simp_all
  with Cons.IH show ?case by simp
qed simp

text \<open>The round keys.\<close>

lemma round_key_run:
  assumes "d \<notin> {1, 2, 3}" "length (xmm s 1) = 16"
  shows "xmm (fold (\<lambda>i. i) (round_key_code (rc, d)) s) 1 = next_key rc (xmm s 1)"
    and "xmm (fold (\<lambda>i. i) (round_key_code (rc, d)) s) d = next_key rc (xmm s 1)"
    and "j \<notin> {1, 2, 3, d} \<Longrightarrow> xmm (fold (\<lambda>i. i) (round_key_code (rc, d)) s) j = xmm s j"
    and "gp (fold (\<lambda>i. i) (round_key_code (rc, d)) s) = gp s"
  using assms next_key_code[OF assms(2), of rc] by (auto simp: round_key_code_def set_xmm_def upd_x_def op_x_def mov_x_def)

lemma key_schedule_run:
  "distinct (map snd ps) \<Longrightarrow> {1, 2, 3} \<inter> snd ` set ps = {} \<Longrightarrow> length (xmm s 1) = 16 \<Longrightarrow>
   s' = fold (\<lambda>i. i) (concat (map round_key_code ps)) s \<Longrightarrow>
   (\<forall>n < length ps. xmm s' (snd (ps ! n)) = round_keys (map fst ps) (xmm s 1) ! Suc n)
   \<and> (\<forall>j. j \<notin> {1, 2, 3} \<union> snd ` set ps \<longrightarrow> xmm s' j = xmm s j) \<and> gp s' = gp s"
proof (induction ps arbitrary: s)
  case (Cons p ps)
  obtain rc d where p: "p = (rc, d)" by fastforce
  let ?s = "fold (\<lambda>i. i) (round_key_code (rc, d)) s"
  have d: "d \<notin> {1, 2, 3}" "d \<notin> snd ` set ps" using Cons.prems(1,2) p by auto
  note run = round_key_run[OF d(1) Cons.prems(3), where rc = rc]
  have eq: "s' = fold (\<lambda>i. i) (concat (map round_key_code ps)) ?s" using Cons.prems(4) p by simp
  have len: "length (xmm ?s 1) = 16" using run(1) Cons.prems(3) by simp
  have ps: "distinct (map snd ps)" "{1, 2, 3} \<inter> snd ` set ps = {}" using Cons.prems(1,2) by auto
  note ih = Cons.IH[OF ps len eq, unfolded run(1,4)]
  have hd: "round_keys (map fst ps) (next_key rc (xmm s 1)) ! 0 = next_key rc (xmm s 1)" by (cases ps) auto
  have "xmm s' (snd ((p # ps) ! n)) = round_keys (map fst (p # ps)) (xmm s 1) ! Suc n" if "n < length (p # ps)" for n
  proof (cases n)
    case 0
    have "xmm s' d = xmm ?s d" using ih d by blast
    with 0 hd run(2) p show ?thesis by simp
  next
    case (Suc m)
    with that have "m < length ps" by simp
    with ih have "xmm s' (snd (ps ! m)) = round_keys (map fst ps) (next_key rc (xmm s 1)) ! Suc m" by blast
    with Suc p show ?thesis by simp
  qed
  moreover have "xmm s' j = xmm s j" if j: "j \<notin> {1, 2, 3} \<union> snd ` set (p # ps)" for j
  proof -
    have "xmm s' j = xmm ?s j" using ih j by simp
    also have "\<dots> = xmm s j" using run(3)[of j] j p by simp
    finally show ?thesis .
  qed
  ultimately show ?case using ih by blast
qed simp

definition has_keys :: "block \<Rightarrow> gctr_state \<Rightarrow> bool" where
  "has_keys key s \<longleftrightarrow> (\<forall>n < 11. xmm s (4 + n) = round_keys rcons key ! n)"

lemma key_schedule_keys:
  assumes "xmm s 1 = key" "xmm s 4 = key" "length key = 16"
  shows "has_keys key (fold (\<lambda>i. i) key_schedule_code s)"
    and "\<And>j. j \<notin> {1, 2, 3} \<union> {5, 6, 7, 8, 9, 10, 11, 12, 13, 14} \<Longrightarrow> xmm (fold (\<lambda>i. i) key_schedule_code s) j = xmm s j"
    and "gp (fold (\<lambda>i. i) key_schedule_code s) = gp s"
proof -
  let ?ps = "[(0x01, 5), (0x02, 6), (0x04, 7), (0x08, 8), (0x10, 9), (0x20, 10), (0x40, 11), (0x80, 12), (0x1b, 13), (0x36, 14)] :: (u8 \<times> nat) list"
  have ps: "snd ` set ?ps = {5, 6, 7, 8, 9, 10, 11, 12, 13, 14}" "map fst ?ps = rcons" by (auto simp: rcons_def)
  have pre: "distinct (map snd ?ps)" "{1, 2, 3} \<inter> snd ` set ?ps = {}" "length (xmm s 1) = 16" "length ?ps = 10"
    using assms by simp_all
  have code: "fold (\<lambda>i. i) key_schedule_code s = fold (\<lambda>i. i) (concat (map round_key_code ?ps)) s"
    by (simp only: key_schedule_code_def)
  note run = key_schedule_run[OF pre(1-3) code, unfolded ps(2) pre(4) assms(1)]
  show "\<And>j. j \<notin> {1, 2, 3} \<union> {5, 6, 7, 8, 9, 10, 11, 12, 13, 14} \<Longrightarrow> xmm (fold (\<lambda>i. i) key_schedule_code s) j = xmm s j"
    "gp (fold (\<lambda>i. i) key_schedule_code s) = gp s" using run unfolding ps(1) by blast+
  have "\<forall>n < 10. snd (?ps ! n) = 4 + Suc n" by code_simp
  with run have "xmm (fold (\<lambda>i. i) key_schedule_code s) (4 + Suc n) = round_keys rcons key ! Suc n" if "n < 10" for n
    using that by metis
  moreover have "xmm (fold (\<lambda>i. i) key_schedule_code s) (4 + 0) = round_keys rcons key ! 0"
    using run assms(2) unfolding ps(1) by (simp add: rcons_def)
  ultimately have "xmm (fold (\<lambda>i. i) key_schedule_code s) (4 + n) = round_keys rcons key ! n" if "n < 11" for n
    using that by (cases n) simp_all
  then show "has_keys key (fold (\<lambda>i. i) key_schedule_code s)" unfolding has_keys_def by blast
qed

text \<open>One block.\<close>

lemma length_round_keys: "length (round_keys rcs k) = Suc (length rcs)"
  by (induction rcs k rule: round_keys.induct) simp_all

lemma round_keys_16: "length k = 16 \<Longrightarrow> r \<in> set (round_keys rcs k) \<Longrightarrow> length r = 16"
  by (induction rcs k rule: round_keys.induct) auto

lemma aes128_steps:
  assumes "length key = 16" "k = (\<lambda>n. round_keys rcons key ! n)"
  shows "aes128 key b = aes_last_round (k 10) (aes_round (k 9) (aes_round (k 8) (aes_round (k 7) (aes_round (k 6) (aes_round (k 5)
      (aes_round (k 4) (aes_round (k 3) (aes_round (k 2) (aes_round (k 1) (xor_block b (k 0)))))))))))" "n < 11 \<Longrightarrow> length (k n) = 16"
proof -
  have len: "length (round_keys rcons key) = 11" by (simp add: length_round_keys rcons_def)
  then have "round_keys rcons key = map k [0..<11]" unfolding assms(2) by (metis map_nth)
  moreover have "[0..<11] = [0, 1, 2, 3, 4, 5, 6, 7, 8, 9, 10 :: nat]" by code_simp
  ultimately have "round_keys rcons key = [k 0, k 1, k 2, k 3, k 4, k 5, k 6, k 7, k 8, k 9, k 10]" by (simp only: list.map)
  then show "aes128 key b = aes_last_round (k 10) (aes_round (k 9) (aes_round (k 8) (aes_round (k 7) (aes_round (k 6) (aes_round (k 5)
      (aes_round (k 4) (aes_round (k 3) (aes_round (k 2) (aes_round (k 1) (xor_block b (k 0)))))))))))"
    by (simp add: aes128_def Let_def)
  show "length (k n) = 16" if "n < 11" using that len round_keys_16[OF assms(1)] nth_mem unfolding assms(2) by metis
qed

lemma has_keysD:
  assumes "has_keys key s" "k = (\<lambda>n. round_keys rcons key ! n)"
  shows "xmm s 4 = k 0" "xmm s 5 = k 1" "xmm s 6 = k 2" "xmm s 7 = k 3" "xmm s 8 = k 4" "xmm s 9 = k 5" "xmm s 10 = k 6"
    "xmm s 11 = k 7" "xmm s 12 = k 8" "xmm s 13 = k 9" "xmm s 14 = k 10"
proof -
  have *: "n < 11 \<Longrightarrow> xmm s (4 + n) = k n" for n using assms by (simp add: has_keys_def)
  show "xmm s 4 = k 0" "xmm s 5 = k 1" "xmm s 6 = k 2" "xmm s 7 = k 3" "xmm s 8 = k 4" "xmm s 9 = k 5" "xmm s 10 = k 6"
    "xmm s 11 = k 7" "xmm s 12 = k 8" "xmm s 13 = k 9" "xmm s 14 = k 10"
    using *[of 0] *[of 1] *[of 2] *[of 3] *[of 4] *[of 5] *[of 6] *[of 7] *[of 8] *[of 9] *[of 10] by simp_all
qed

lemma length_aes128 [simp]: "length key = 16 \<Longrightarrow> length (aes128 key b) = 16"
  using aes128_steps(1)[OF _ refl] aes128_steps(2)[OF _ refl, of key 10] by (simp add: aes_last_round_def)

lemma encrypt_run:
  assumes "has_keys key s" "length key = 16" "length (xmm s 0) = 16"
  shows "fold (\<lambda>i. i) encrypt_code s = set_xmm 0 (aes128 key (xmm s 0)) s"
proof -
  define k where "k = (\<lambda>n. round_keys rcons key ! n)"
  note k = has_keysD[OF assms(1) k_def]
  note steps = aes128_steps[OF assms(2) k_def]
  have len: "length (k 0) = 16" "length (k 1) = 16" "length (k 2) = 16" "length (k 3) = 16" "length (k 4) = 16" "length (k 5) = 16"
    "length (k 6) = 16" "length (k 7) = 16" "length (k 8) = 16" "length (k 9) = 16" by (simp_all add: steps(2))
  have code: "encrypt_code = [op_x xor_block 4 0, op_x aesenc 5 0, op_x aesenc 6 0, op_x aesenc 7 0, op_x aesenc 8 0, op_x aesenc 9 0,
      op_x aesenc 10 0, op_x aesenc 11 0, op_x aesenc 12 0, op_x aesenc 13 0, op_x aesenclast 14 0]"
    by (simp add: encrypt_code_def upt_rec)
  have "xor_block (k 0) (xmm s 0) = xor_block (xmm s 0) (k 0)" by (rule xor_block_commute)
  then show ?thesis unfolding code steps(1)
    by (simp add: op_x_def set_xmm_def k aesenc_round aesenclast_round len assms(3) del: One_nat_def)
qed

text \<open>The bytes of the counter block in the order in which it is counted, and counting.\<close>

definition ctr_add :: "block \<Rightarrow> nat \<Rightarrow> block" where
  "ctr_add icb n = take 12 icb @ rev (le_bytes 4 (le_val (rev (drop 12 icb)) + n))"

definition rev_mask :: block where
  "rev_mask = [15, 14, 13, 12, 11, 10, 9, 8, 7, 6, 5, 4, 3, 2, 1, 0]"

lemma pshufb_rev: "length b = 16 \<Longrightarrow> pshufb rev_mask b = rev b"
  by (elim list16) (simp add: pshufb_def rev_mask_def bit_simps)

lemma le_bytes_numeral: "le_bytes (numeral k) x = of_nat (x mod 256) # le_bytes (pred_numeral k) (x div 256)"
  by (metis le_bytes.simps(2) numeral_eq_Suc)

lemma le_bytes_le_val: "le_bytes (length bs) (le_val bs) = bs"
proof (induction bs)
  case (Cons b bs)
  have "unat b < 256" using unsigned_less[of b] by simp
  with Cons show ?case by simp
qed simp

lemma length_ctr_add [simp]: "length icb = 16 \<Longrightarrow> length (ctr_add icb n) = 16"
  by (simp add: ctr_add_def)

lemma ctr_add_0: "length icb = 16 \<Longrightarrow> ctr_add icb 0 = icb"
  using le_bytes_le_val[of "rev (drop 12 icb)"] by (simp add: ctr_add_def)

lemma le_bytes_cong: "x mod 256 ^ n = y mod 256 ^ n \<Longrightarrow> le_bytes n x = le_bytes n y"
  using le_bytes_le_val[of "le_bytes n x"] le_bytes_le_val[of "le_bytes n y"] by (simp add: le_val_le_bytes)

lemma list4: "length xs = 4 \<Longrightarrow> \<exists>a b c d. xs = [a, b, c, d]"
  by (auto simp: numeral_eq_Suc length_Suc_conv)

lemma paddd_one:
  assumes "length icb = 16"
  shows "paddd (movq_xmm 1) (rev (ctr_add icb n)) = rev (ctr_add icb (Suc n))"
proof -
  let ?v = "le_val (rev (drop 12 icb))"
  have one: "movq_xmm 1 = [1, 0, 0, 0, 0, 0, 0, 0, 0, 0, 0, 0, 0, 0, 0, 0]" "[0..<4] = [0, 1, 2, 3 :: nat]" by code_simp+
  have add0: "add_dword [0, 0, 0, 0] w = w" if "length w = 4" for w
    using le_bytes_le_val[of w] that by (simp add: add_dword_def)
  obtain w0 w1 w2 w3 where w: "le_bytes 4 (?v + n) = [w0, w1, w2, w3]" using list4[OF length_le_bytes] by blast
  have "le_bytes 4 (1 + (?v + n) mod 256 ^ 4) = le_bytes 4 (?v + Suc n)" by (rule le_bytes_cong) (simp only: mod_Suc_eq add_Suc_right plus_1_eq_Suc)
  then have add1: "add_dword [1, 0, 0, 0] [w0, w1, w2, w3] = le_bytes 4 (?v + Suc n)"
    unfolding add_dword_def w[symmetric] le_val_le_bytes by simp
  obtain c0 c1 c2 c3 c4 c5 c6 c7 c8 c9 c10 c11 where c: "take 12 icb = [c0, c1, c2, c3, c4, c5, c6, c7, c8, c9, c10, c11]"
    using assms by (elim list16) simp
  have "rev (ctr_add icb n) = [w0, w1, w2, w3, c11, c10, c9, c8, c7, c6, c5, c4, c3, c2, c1, c0]"
    "rev (ctr_add icb (Suc n)) = le_bytes 4 (?v + Suc n) @ [c11, c10, c9, c8, c7, c6, c5, c4, c3, c2, c1, c0]"
    by (simp_all only: ctr_add_def w c rev_append rev_rev_ident) simp_all
  then show ?thesis unfolding paddd_def one by (simp add: add0 add1)
qed

text \<open>The state before block \<open>n\<close>, as long as there was no interruption.\<close>

definition clean :: "block \<Rightarrow> block \<Rightarrow> nat \<Rightarrow> gctr_state \<Rightarrow> bool" where
  "clean key icb n s \<longleftrightarrow> has_keys key s \<and> xmm s 2 = movq_xmm 1 \<and> xmm s 3 = rev (ctr_add icb n) \<and> xmm s 15 = rev_mask \<and> r15 (gp s) = 0"

definition key_block :: "u64 \<Rightarrow> u64 \<Rightarrow> block" where
  "key_block key_lo key_hi = le_bytes 8 (unat key_lo) @ le_bytes 8 (unat key_hi)"

lemma length_key_block [simp]: "length (key_block lo hi) = 16"
  by (simp add: key_block_def)

lemma has_keys_cong: "(\<And>j. 4 \<le> j \<Longrightarrow> j \<le> 14 \<Longrightarrow> xmm s' j = xmm s j) \<Longrightarrow> has_keys key s' = has_keys key s"
  by (simp add: has_keys_def)

lemma prologue_clean:
  assumes "length icb = 16"
  shows "clean (key_block lo hi) icb 0 (fold (\<lambda>i. i) (mask_code @ key_code lo hi @ key_schedule_code @ counter_code icb) s)"
proof -
  let ?a = "fold (\<lambda>i. i) (mask_code @ key_code lo hi) s"
  let ?b = "fold (\<lambda>i. i) key_schedule_code ?a" and ?key = "key_block lo hi"
  have mask: "movlhps (movq_xmm 0x0001020304050607) (movq_xmm 0x08090a0b0c0d0e0f) = rev_mask"
    by (simp add: movlhps_def movq_xmm_def rev_mask_def le_bytes_numeral)
  have key: "movlhps (movq_xmm hi) (movq_xmm lo) = ?key" by (simp add: movlhps_def movq_xmm_def key_block_def)
  have a: "xmm ?a 1 = ?key" "xmm ?a 4 = ?key" "xmm ?a 15 = rev_mask" "r15 (gp ?a) = 0"
    by (simp_all add: mask_code_def key_code_def xor_r15_def mov_r8_def movq_r8_def mov_r14_def movq_r14_def op_x_def mov_x_def set_xmm_def mask key)
  note b = key_schedule_keys[OF a(1,2) length_key_block]
  have b15: "xmm ?b 15 = rev_mask" using b(2)[of 15] a(3) by simp
  have "fold (\<lambda>i. i) (mask_code @ key_code lo hi @ key_schedule_code @ counter_code icb) s = fold (\<lambda>i. i) (counter_code icb) ?b" by simp
  moreover have "has_keys ?key (fold (\<lambda>i. i) (counter_code icb) ?b) = has_keys ?key ?b"
    by (rule has_keys_cong) (simp add: counter_code_def set_xmm_def op_x_def mov_r8_def movq_r8_def)
  ultimately show ?thesis using b(1,3) b15 a(4)
    by (simp add: clean_def counter_code_def set_xmm_def op_x_def mov_r8_def movq_r8_def pshufb_rev assms ctr_add_0 del: fold_append)
qed

lemma block_fold:
  assumes "has_keys key s" "length key = 16" "pshufb (xmm s 15) (xmm s 3) = c" "length c = 16"
    and "x = (if in_place s then outp s else inp s) ! pos s"
  shows "fold (\<lambda>i. i) block_code s = store_block 0 (op_x xor_block 1 0 (set_xmm 0 (aes128 key c) (set_xmm 1 x (set_xmm 0 c s))))"
proof -
  let ?s = "fold (\<lambda>i. i) [mov_x 3 0, op_x pshufb 15 0, load_block 1] s"
  have s: "?s = set_xmm 1 x (set_xmm 0 c s)" using assms(3,5) by (simp add: mov_x_def op_x_def load_block_def set_xmm_def)
  have "has_keys key ?s" unfolding s using assms(1) has_keys_cong[of "set_xmm 1 x (set_xmm 0 c s)" s key] by (simp add: set_xmm_def)
  from encrypt_run[OF this assms(2)] assms(4)
  have "fold (\<lambda>i. i) encrypt_code ?s = set_xmm 0 (aes128 key c) ?s" unfolding s by (simp add: set_xmm_def)
  moreover have "fold (\<lambda>i. i) block_code s = fold (\<lambda>i. i) [op_x xor_block 1 0, store_block 0] (fold (\<lambda>i. i) encrypt_code ?s)"
    by (simp add: block_code_def)
  ultimately show ?thesis unfolding s by simp
qed

lemma block_run:
  assumes "clean key icb n s" "length key = 16" "length icb = 16"
  shows "clean key icb n (fold (\<lambda>i. i) block_code s)"
    and "outp (fold (\<lambda>i. i) block_code s) = (outp s)[pos s :=
      xor_block ((if in_place s then outp s else inp s) ! pos s) (aes128 key (ctr_add icb n))]"
proof -
  have "has_keys key s" "pshufb (xmm s 15) (xmm s 3) = ctr_add icb n" "length (ctr_add icb n) = 16"
    using assms(1,3) by (simp_all add: clean_def pshufb_rev)
  note r = block_fold[OF this(1) assms(2) this(2,3) refl]
  show "outp (fold (\<lambda>i. i) block_code s) = (outp s)[pos s :=
      xor_block ((if in_place s then outp s else inp s) ! pos s) (aes128 key (ctr_add icb n))]"
    unfolding r by (simp add: store_block_def op_x_def set_xmm_def)
  have x: "xmm (fold (\<lambda>i. i) block_code s) j = xmm s j" if "j > 1" for j
    unfolding r using that by (simp add: store_block_def op_x_def set_xmm_def)
  have "r15 (gp (fold (\<lambda>i. i) block_code s)) = r15 (gp s)" unfolding r by (simp add: store_block_def op_x_def set_xmm_def)
  with x assms(1) has_keys_cong[of "fold (\<lambda>i. i) block_code s" s key] show "clean key icb n (fold (\<lambda>i. i) block_code s)"
    by (simp add: clean_def)
qed

text \<open>Between blocks the state is clean, or an interruption since time \<open>t0\<close> has left its mark.\<close>

definition marked :: "gctr_state \<Rightarrow> bool" where
  "marked s \<longleftrightarrow> r15 (gp s) AND 0xFF \<noteq> 0"

definition interrupted :: "(nat \<Rightarrow> bool) \<Rightarrow> nat \<Rightarrow> nat \<Rightarrow> bool" where
  "interrupted intr t t' \<longleftrightarrow> (\<exists>u. t \<le> u \<and> u < t' \<and> intr u)"

definition between :: "(nat \<Rightarrow> bool) \<Rightarrow> nat \<Rightarrow> block \<Rightarrow> block \<Rightarrow> nat \<Rightarrow> nat \<Rightarrow> gctr_state \<Rightarrow> bool" where
  "between intr t0 key icb n t s \<longleftrightarrow> clean key icb n s \<or> marked s \<and> interrupted intr t0 t"

lemma interrupted_mono: "interrupted intr t t' \<Longrightarrow> t0 \<le> t \<Longrightarrow> t' \<le> t1 \<Longrightarrow> interrupted intr t0 t1"
  unfolding interrupted_def by (meson le_trans less_le_trans)

lemma clean_not_marked: "clean key icb n s \<Longrightarrow> \<not> marked s"
  by (simp add: clean_def marked_def)

text \<open>One block, with or without interruptions.\<close>

lemma block_exec:
  assumes "between intr t0 key icb n t s" "t0 \<le> t" "length key = 16" "length icb = 16" "exec cleared intr block_code t s = (t', s')"
  shows "keeps s s'" "t < t'"
    and "\<not> marked s' \<Longrightarrow> clean key icb n s' \<and> outp s' = (outp s)[pos s :=
      xor_block ((if in_place s then outp s else inp s) ! pos s) (aes128 key (ctr_add icb n))]"
    and "marked s' \<Longrightarrow> interrupted intr t0 t'"
proof -
  have t': "t' = t + length block_code" and k: "keeps s s'"
    using exec_keeps[OF quiet_code(5), of s intr t] assms(5) by simp_all
  show "keeps s s'" by (rule k)
  show "t < t'" unfolding t' by (simp add: block_code_def)
  show "clean key icb n s' \<and> outp s' = (outp s)[pos s :=
      xor_block ((if in_place s then outp s else inp s) ! pos s) (aes128 key (ctr_add icb n))]" if "\<not> marked s'"
  proof -
    from that exec_dirty[OF quiet_code(5), of s t intr] assms(5) t' have "\<not> marked s" "\<forall>u. t \<le> u \<and> u < t + length block_code \<longrightarrow> \<not> intr u"
      by (auto simp: marked_def)
    with assms(1) exec_clean[of t block_code intr cleared s] assms(5) have "clean key icb n s" "s' = fold (\<lambda>i. i) block_code s"
      by (simp_all add: between_def)
    with block_run[OF _ assms(3,4)] show ?thesis by simp
  qed
  show "interrupted intr t0 t'" if "marked s'"
  proof (rule ccontr)
    assume "\<not> interrupted intr t0 t'"
    then have none: "\<forall>u. t \<le> u \<and> u < t + length block_code \<longrightarrow> \<not> intr u" and "\<not> interrupted intr t0 t"
      using assms(2) t' by (auto simp: interrupted_def)
    with assms(1) have c: "clean key icb n s" by (simp add: between_def)
    from exec_clean[OF none, of cleared s] assms(5) have "s' = fold (\<lambda>i. i) block_code s" by simp
    with block_run(1)[OF c assms(3,4)] clean_not_marked that show False by blast
  qed
qed

lemma next_exec:
  assumes "clean key icb n s" "length icb = 16" "exec cleared intr [dec_rcx] t s = (t1, s1)" "exec cleared intr next_block_code t1 s1 = (t2, s2)"
  shows "t1 = t + 1" "rcx (gp s1) = rcx (gp s) - 1" "outp s1 = outp s" "t2 = t + 3" "rcx (gp s2) = rcx (gp s) - 1" "pos s2 = Suc (pos s)"
    "inp s2 = inp s" "outp s2 = outp s" "in_place s2 = in_place s" "between intr t key icb (Suc n) t2 s2"
proof -
  have 1: "t1 = t + 1" "s1 = (if intr t then cleared (dec_rcx s) else dec_rcx s)" using assms(3) by simp_all
  have 2: "t2 = t + 3" "s2 = (let s = (if intr (t + 1) then cleared (op_x paddd 2 3 s1) else op_x paddd 2 3 s1);
      s = s\<lparr>pos := pos s + 1\<rparr> in if intr (t + 2) then cleared s else s)"
    using assms(4) 1(1) by (auto simp: next_block_code_def Let_def eval_nat_numeral)
  show "t1 = t + 1" "rcx (gp s1) = rcx (gp s) - 1" "outp s1 = outp s" "t2 = t + 3" "rcx (gp s2) = rcx (gp s) - 1" "pos s2 = Suc (pos s)"
    "inp s2 = inp s" "outp s2 = outp s" "in_place s2 = in_place s"
    using 1 2 by (auto simp: dec_rcx_def cleared_def op_x_def set_xmm_def Let_def)
  show "between intr t key icb (Suc n) t2 s2"
  proof (cases "intr t \<or> intr (t + 1) \<or> intr (t + 2)")
    case True
    then obtain u where "u \<in> {t, t + 1, t + 2}" "intr u" by blast
    then have "interrupted intr t t2" unfolding interrupted_def 2(1) by (intro exI[of _ u]) auto
    moreover have "marked s2" using True 1 2 r15_low by (auto simp: marked_def cleared_def op_x_def set_xmm_def Let_def)
    ultimately show ?thesis by (simp add: between_def)
  next
    case False
    with 1 2 have "s2 = (op_x paddd 2 3 (dec_rcx s))\<lparr>pos := pos s + 1\<rparr>" by (simp add: op_x_def set_xmm_def dec_rcx_def)
    moreover have "has_keys key s2 = has_keys key s" using calculation by (intro has_keys_cong) (simp add: op_x_def set_xmm_def dec_rcx_def)
    ultimately have "clean key icb (Suc n) s2" using assms(1,2) paddd_one[OF assms(2), of n]
      by (simp add: clean_def op_x_def set_xmm_def dec_rcx_def)
    then show ?thesis by (simp add: between_def)
  qed
qed

text \<open>
  What a call for \<open>m\<close> blocks from block \<open>n\<close> on has done when \<open>r\<close> blocks remain: the finished blocks are right, at most the next one is
  garbage, the others are as before.
\<close>

definition gctr_done :: "block \<Rightarrow> block \<Rightarrow> block list \<Rightarrow> nat \<Rightarrow> nat \<Rightarrow> nat \<Rightarrow> block list \<Rightarrow> block list \<Rightarrow> bool" where
  "gctr_done key icb xs n m r ys ys' \<longleftrightarrow> length ys' = length ys
     \<and> (\<forall>j. n \<le> j \<and> j < n + (m - r) \<longrightarrow> ys' ! j = xor_block (xs ! j) (aes128 key (ctr_add icb j)))
     \<and> (\<forall>j. j < n \<or> j > n + (m - r) \<or> r = 0 \<and> j = n + m \<longrightarrow> ys' ! j = ys ! j)"

lemma gctr_done_Suc:
  assumes "gctr_done key icb xs (Suc n) m r (ys[n := xor_block (xs ! n) (aes128 key (ctr_add icb n))]) ys'" "r \<le> m" "n < length ys"
  shows "gctr_done key icb xs n (Suc m) r ys ys'"
proof -
  let ?y = "\<lambda>j. xor_block (xs ! j) (aes128 key (ctr_add icb j))"
  have d: "length ys' = length ys" "\<And>j. Suc n \<le> j \<Longrightarrow> j < Suc n + (m - r) \<Longrightarrow> ys' ! j = ?y j"
    "\<And>j. j < Suc n \<or> j > Suc n + (m - r) \<or> r = 0 \<and> j = Suc n + m \<Longrightarrow> ys' ! j = ys[n := ?y n] ! j"
    using assms(1) unfolding gctr_done_def length_list_update by blast+
  have eq: "n + (Suc m - r) = Suc n + (m - r)" "n + Suc m = Suc n + m" using assms(2) by simp_all
  have "ys' ! n = ?y n" using d(3)[of n] assms(3) by simp
  then have "ys' ! j = ?y j" if "n \<le> j" "j < Suc n + (m - r)" for j
    using d(2)[of j] that by (cases "j = n") auto
  moreover have "ys' ! j = ys ! j" if "j < n \<or> j > Suc n + (m - r) \<or> r = 0 \<and> j = Suc n + m" for j
    using d(3)[of j] that by auto
  ultimately show ?thesis using d(1) unfolding gctr_done_def eq by blast
qed

text \<open>
  On states with the instruction pointer in a marked page an interruption is \<^const>\<open>cleared\<close>. In general, \<open>acts\<close> says that of the interruptions \<open>intr\<close>, those in
  \<open>intr'\<close> clear the registers and the others change nothing.
\<close>

definition clears_at :: "u64 \<Rightarrow> instr \<Rightarrow> bool" where
  "clears_at ip clr \<longleftrightarrow> (\<forall>s. rip (gp s) = ip \<longrightarrow> clr s = cleared s)"

definition acts :: "u64 \<Rightarrow> instr \<Rightarrow> (nat \<Rightarrow> bool) \<Rightarrow> (nat \<Rightarrow> bool) \<Rightarrow> bool" where
  "acts ip clr intr intr' \<longleftrightarrow> (\<forall>u s. rip (gp s) = ip \<longrightarrow> (if intr u then clr s else s) = (if intr' u then cleared s else s))"

lemma clears_acts: "clears_at ip clr \<Longrightarrow> acts ip clr intr intr"
  by (simp add: clears_at_def acts_def)

lemma exec_acts:
  assumes "acts ip clr intr intr'"
  shows "\<forall>i \<in> set is. \<forall>s. rip (gp (i s)) = rip (gp s) \<Longrightarrow> rip (gp s) = ip \<Longrightarrow>
    exec clr intr is t s = exec cleared intr' is t s \<and> rip (gp (snd (exec cleared intr' is t s))) = ip"
proof (induction "is" arbitrary: t s)
  case (Cons i "is")
  have "rip (gp (i s)) = ip" using Cons.prems by simp
  then have "(if intr t then clr (i s) else i s) = (if intr' t then cleared (i s) else i s)" and ip: "rip (gp (if intr' t then cleared (i s) else i s)) = ip"
    using assms by (simp_all add: acts_def cleared_def)
  moreover have "\<forall>i \<in> set is. \<forall>s. rip (gp (i s)) = rip (gp s)" using Cons.prems(1) by simp
  ultimately show ?case using Cons.IH[OF _ ip, of "t + 1"] by (simp only: exec.simps)
qed simp

lemmas exec_clr = exec_acts[OF clears_acts]

lemma rip_code:
  "\<forall>i \<in> set (mask_code @ key_code lo hi @ key_schedule_code @ counter_code icb). \<forall>s. rip (gp (i s)) = rip (gp s)"
  "\<forall>i \<in> set block_code. \<forall>s. rip (gp (i s)) = rip (gp s)" "\<forall>i \<in> set [dec_rcx]. \<forall>s. rip (gp (i s)) = rip (gp s)"
  "\<forall>i \<in> set next_block_code. \<forall>s. rip (gp (i s)) = rip (gp s)" "\<forall>i \<in> set done_code. \<forall>s. rip (gp (i s)) = rip (gp s)"
proof -
  have q: "rip (gp (i s)) = rip (gp s)" if "quiet i" for i s using that by (simp add: quiet_def keeps_def)
  have "rip (gp (xor_r15 s)) = rip (gp s)" for s by (simp add: xor_r15_def)
  moreover have "mask_code = xor_r15 # tl mask_code" by (simp add: mask_code_def)
  then have "set mask_code = insert xor_r15 (set (tl mask_code))" by (metis list.simps(15))
  ultimately show "\<forall>i \<in> set (mask_code @ key_code lo hi @ key_schedule_code @ counter_code icb). \<forall>s. rip (gp (i s)) = rip (gp s)"
    using q quiet_code(1-4) by auto
  show "\<forall>i \<in> set block_code. \<forall>s. rip (gp (i s)) = rip (gp s)" "\<forall>i \<in> set done_code. \<forall>s. rip (gp (i s)) = rip (gp s)"
    using q quiet_code(5,6) by blast+
  show "\<forall>i \<in> set [dec_rcx]. \<forall>s. rip (gp (i s)) = rip (gp s)" "\<forall>i \<in> set next_block_code. \<forall>s. rip (gp (i s)) = rip (gp s)"
    by (simp_all add: dec_rcx_def next_block_code_def op_x_def set_xmm_def)
qed

lemma loop_run:
  assumes clr: "acts ip clr intr intr'" and "length key = 16" "length icb = 16" "0 < m" "m < 2 ^ 64" "t0 \<le> t"
    and "rip (gp s) = ip" "between intr' t0 key icb n t s" "pos s = n" "rcx (gp s) = of_nat m" "\<not> in_place s"
    and "n + m \<le> length (outp s)" "n + m \<le> length (inp s)"
  shows "\<exists>t' s' r. enc_block_loop clr intr t s = Some (t', s') \<and> t < t' \<and> r \<le> m \<and> rcx (gp s') = of_nat r \<and> rip (gp s') = ip
    \<and> gctr_done key icb (inp s) n m r (outp s) (outp s') \<and> (r \<noteq> 0 \<longrightarrow> interrupted intr' t0 t')"
  using assms(4-)
proof (induction m arbitrary: n t s)
  case (Suc m)
  obtain t1 s1 where e1: "exec cleared intr' block_code t s = (t1, s1)" by fastforce
  note b = block_exec[OF Suc.prems(5,3) assms(2,3) e1]
  have x1: "exec clr intr block_code t s = exec cleared intr' block_code t s" and ip1: "rip (gp s1) = ip"
    using exec_acts[OF clr rip_code(2) Suc.prems(4), of t] e1 by simp_all
  have in_range: "\<not> (pos s \<ge> length (outp s) \<or> \<not> in_place s \<and> pos s \<ge> length (inp s))" using Suc.prems by simp
  note loop = enc_block_loop.simps[of clr intr t s, unfolded if_not_P[OF in_range] x1 e1 Let_def prod.case]
  have k: "rcx (gp s1) = of_nat (Suc m)" "pos s1 = n" "inp s1 = inp s" "\<not> in_place s1" "length (outp s1) = length (outp s)"
    "\<And>j. j \<noteq> n \<Longrightarrow> outp s1 ! j = outp s ! j" using b(1) Suc.prems by (simp_all add: keeps_def)
  show ?case
  proof (cases "marked s1")
    case True
    then have "enc_block_loop clr intr t s = Some (t1, s1)" using loop by (simp add: marked_def)
    moreover have "gctr_done key icb (inp s) n (Suc m) (Suc m) (outp s) (outp s1)" using k(5,6) by (auto simp: gctr_done_def)
    ultimately show ?thesis using b(2,4) True k(1) ip1 by blast
  next
    case False
    from b(3)[OF this] Suc.prems(6,8) have c: "clean key icb n s1"
      and o: "outp s1 = (outp s)[n := xor_block (inp s ! n) (aes128 key (ctr_add icb n))]" by simp_all
    obtain t2 s2 where e2: "exec cleared intr' [dec_rcx] t1 s1 = (t2, s2)" by fastforce
    obtain t3 s3 where e3: "exec cleared intr' next_block_code t2 s2 = (t3, s3)" by fastforce
    note x = next_exec[OF c assms(3) e2 e3]
    have x2: "exec clr intr [dec_rcx] t1 s1 = exec cleared intr' [dec_rcx] t1 s1" and ip2: "rip (gp s2) = ip"
      using exec_acts[OF clr rip_code(3) ip1, of t1] e2 by simp_all
    have x3: "exec clr intr next_block_code t2 s2 = exec cleared intr' next_block_code t2 s2" and ip3: "rip (gp s3) = ip"
      using exec_acts[OF clr rip_code(4) ip2, of t2] e3 by simp_all
    have rcx: "rcx (gp s2) = of_nat m" using x(2) k(1) by simp
    have loop2: "enc_block_loop clr intr t s = (if rcx (gp s2) = 0 then Some (t2, s2) else enc_block_loop clr intr t3 s3)"
      using loop False by (simp only: marked_def x2 x3 e2 e3 prod.case if_False not_not simp_thms)
    show ?thesis
    proof (cases "m = 0")
      case True
      have "gctr_done key icb (inp s) n (Suc m) 0 (outp s) (outp s2)" unfolding x(3) o True using Suc.prems(9)
        by (auto simp: gctr_done_def less_Suc_eq)
      then show ?thesis using loop2 rcx True b(2) x(1) ip2 by (intro exI[of _ t2] exI[of _ s2] exI[of _ 0]) simp
    next
      case m: False
      then have "rcx (gp s2) \<noteq> 0" unfolding rcx using Suc.prems(2) by (simp add: word_unat_eq_iff unat_of_nat)
      then have l: "enc_block_loop clr intr t s = enc_block_loop clr intr t3 s3" using loop2 by simp
      have le: "t0 \<le> t1" "t0 \<le> t3" using Suc.prems(3) b(2) x(4) by simp_all
      have "between intr' t0 key icb (Suc n) t3 s3" using x(10) interrupted_mono[OF _ le(1) order_refl] by (auto simp: between_def)
      moreover have "pos s3 = Suc n" "rcx (gp s3) = of_nat m" "\<not> in_place s3" "inp s3 = inp s" "outp s3 = outp s1"
        using x k by simp_all
      moreover from this k(5) Suc.prems(9,10) have "Suc n + m \<le> length (outp s3)" "Suc n + m \<le> length (inp s3)" by simp_all
      ultimately obtain t' s' r where ih: "enc_block_loop clr intr t3 s3 = Some (t', s')" "t3 < t'" "r \<le> m" "rcx (gp s') = of_nat r" "rip (gp s') = ip"
        "gctr_done key icb (inp s) (Suc n) m r (outp s1) (outp s')" "r \<noteq> 0 \<longrightarrow> interrupted intr' t0 t'"
        using Suc.IH[of t3 s3 "Suc n"] m Suc.prems(2) le(2) ip3 by auto
      have "gctr_done key icb (inp s) n (Suc m) r (outp s) (outp s')"
        using ih(3,6) Suc.prems(9) unfolding o by (intro gctr_done_Suc) simp_all
      then show ?thesis using l ih b(2) x(4) by (intro exI[of _ t'] exI[of _ s'] exI[of _ r]) simp
    qed
  qed
qed simp

text \<open>The end of the routine leaves no key material in the vector registers.\<close>

lemma zero_run:
  "\<forall>i \<in> insert 0 S. xmm s i = replicate 16 0 \<Longrightarrow>
   (\<forall>i \<in> insert 0 (S \<union> set js). xmm (snd (exec cleared intr (map (mov_x 0) js) t s)) i = replicate 16 0)
   \<and> outp (snd (exec cleared intr (map (mov_x 0) js) t s)) = outp s"
proof (induction js arbitrary: S t s)
  case (Cons j js)
  let ?s = "if intr t then cleared (mov_x 0 j s) else mov_x 0 j s"
  have "\<forall>i \<in> insert 0 (insert j S). xmm ?s i = replicate 16 0" "outp ?s = outp s"
    using Cons.prems by (auto simp: mov_x_def set_xmm_def cleared_def)
  with Cons.IH[of "insert j S" ?s "t + 1"] show ?case by simp
qed simp

lemma done_run:
  assumes "exec cleared intr done_code t s = (t', s')"
  shows "t < t'" "rcx (gp s') = rcx (gp s)" "outp s' = outp s" "\<And>i. i \<notin> {2, 15} \<Longrightarrow> i < 16 \<Longrightarrow> xmm s' i = replicate 16 0"
proof -
  let ?s = "if intr t then cleared (set_xmm 0 (replicate 16 0) s) else set_xmm 0 (replicate 16 0) s"
  have "keeps s s' \<and> t' = t + length done_code" using exec_keeps[OF quiet_code(6), of s intr t] assms by simp
  then show "t < t'" "rcx (gp s') = rcx (gp s)" by (simp_all add: done_code_def keeps_def)
  have s: "\<forall>i \<in> insert 0 {}. xmm ?s i = replicate 16 0" "outp ?s = outp s" by (simp_all add: set_xmm_def cleared_def)
  have s': "s' = snd (exec cleared intr (map (mov_x 0) (1 # [3..<15])) (t + 1) ?s)"
    using assms by (simp only: done_code_def exec.simps snd_conv)
  from zero_run[OF s(1), where js = "1 # [3..<15]" and intr = intr and t = "t + 1"] s(2)
  show "outp s' = outp s" unfolding s' by (simp only:)
  fix i :: nat assume "i \<notin> {2, 15}" "i < 16"
  then have "i = 0 \<or> i = 1 \<or> 3 \<le> i \<and> i < 15" by auto
  then have "i \<in> insert 0 ({} \<union> set (1 # [3..<15]))"
    by (simp only: list.set set_upt atLeastLessThan_iff insert_iff Un_iff empty_iff) blast
  with zero_run[OF s(1), where js = "1 # [3..<15]" and intr = intr and t = "t + 1"] show "xmm s' i = replicate 16 0" unfolding s' by blast
qed

text \<open>The routine, for interruptions that clear the registers.\<close>

lemma exec_outp:
  "\<forall>i \<in> set is. \<forall>s. outp (i s) = outp s \<Longrightarrow> outp (snd (exec cleared intr is t s)) = outp s"
  by (induction "is" arbitrary: t s) (simp_all add: cleared_def)

lemma prologue_exec:
  assumes "length icb = 16" "exec cleared intr (mask_code @ key_code lo hi @ key_schedule_code @ counter_code icb) t s = (t', s')"
  shows "between intr t (key_block lo hi) icb 0 t' s'" "t < t'" "rcx (gp s') = rcx (gp s)" "pos s' = pos s" "inp s' = inp s"
    "outp s' = outp s" "in_place s' = in_place s"
proof -
  let ?rest = "tl mask_code @ key_code lo hi @ key_schedule_code @ counter_code icb"
  let ?s = "if intr t then cleared (xor_r15 s) else xor_r15 s"
  have code: "mask_code @ key_code lo hi @ key_schedule_code @ counter_code icb = xor_r15 # ?rest" by (simp add: mask_code_def)
  have q: "\<forall>i \<in> set ?rest. quiet i" using quiet_code(1-4) by auto
  have e: "exec cleared intr ?rest (t + 1) ?s = (t', s')" using assms(2) unfolding code by simp
  have k: "keeps ?s s'" "t' = t + 1 + length ?rest" using exec_keeps[OF q, of ?s intr "t + 1"] unfolding e by simp_all
  have "rcx (gp ?s) = rcx (gp s)" "pos ?s = pos s" "inp ?s = inp s" "in_place ?s = in_place s" "outp ?s = outp s"
    by (simp_all add: xor_r15_def cleared_def)
  with k show "t < t'" "rcx (gp s') = rcx (gp s)" "pos s' = pos s" "inp s' = inp s" "in_place s' = in_place s"
    unfolding keeps_def by simp_all
  have "\<forall>i \<in> set ?rest. \<forall>s. outp (i s) = outp s"
    by (auto simp: mask_code_def key_code_def key_schedule_code_def round_key_code_def counter_code_def set_xmm_def mov_r8_def mov_r14_def
        movq_r8_def movq_r14_def op_x_def upd_x_def mov_x_def)
  from exec_outp[OF this, of intr "t + 1" ?s] show "outp s' = outp s" unfolding e using \<open>outp ?s = outp s\<close> by simp
  show "between intr t (key_block lo hi) icb 0 t' s'"
  proof (cases "\<forall>u. t \<le> u \<and> u < t + length (xor_r15 # ?rest) \<longrightarrow> \<not> intr u")
    case True
    from exec_clean[OF True, of cleared s] assms(2) have "s' = fold (\<lambda>i. i) (mask_code @ key_code lo hi @ key_schedule_code @ counter_code icb) s"
      unfolding code by simp
    with prologue_clean[OF assms(1), of lo hi s] show ?thesis by (simp add: between_def)
  next
    case False
    then obtain u where u: "t \<le> u" "u < t + 1 + length ?rest" "intr u" by auto
    then have "interrupted intr t t'" using k(2) by (auto simp: interrupted_def)
    moreover have "r15 (gp ?s) AND 0xFF \<noteq> 0 \<or> (\<exists>u \<ge> t + 1. u < t + 1 + length ?rest \<and> intr u)"
    proof (cases "intr t")
      case False
      with u(3) have "u \<noteq> t" by auto
      with u show ?thesis by (intro disjI2 exI[of _ u]) simp
    qed (simp add: cleared_def)
    from exec_dirty[OF q this] have "marked s'" unfolding e by (simp add: marked_def)
    ultimately show ?thesis by (simp add: between_def)
  qed
qed

lemma gctr_run:
  assumes "acts (rip (gp s)) clr intr intr'" "length icb = 16" "0 < n" "n < 2 ^ 64" "pos s = 0" "rcx (gp s) = of_nat n" "\<not> in_place s"
    and "n \<le> length (outp s)" "n \<le> length (inp s)"
  shows "\<exists>r t' s'. aes_aesni_gctr_linear clr intr lo hi icb t s = Some (of_nat r, t', s') \<and> t < t' \<and> r \<le> n
    \<and> gctr_done (key_block lo hi) icb (inp s) 0 n r (outp s) (outp s') \<and> (r \<noteq> 0 \<longrightarrow> interrupted intr' t t')
    \<and> (\<forall>i < 16. i \<notin> {2, 15} \<longrightarrow> xmm s' i = replicate 16 0)"
proof -
  let ?pre = "mask_code @ key_code lo hi @ key_schedule_code @ counter_code icb" and ?ip = "rip (gp s)"
  obtain t1 s1 where e1: "exec cleared intr' ?pre t s = (t1, s1)" by fastforce
  note p = prologue_exec[OF assms(2) e1]
  have x1: "exec clr intr ?pre t s = (t1, s1)" "rip (gp s1) = ?ip"
    using exec_acts[OF assms(1) rip_code(1)[of lo hi icb] refl, of t] e1 by simp_all
  have pre: "t \<le> t1" "pos s1 = 0" "rcx (gp s1) = of_nat n" "\<not> in_place s1" "0 + n \<le> length (outp s1)" "0 + n \<le> length (inp s1)"
    using p assms(5-9) by simp_all
  from loop_run[OF assms(1) length_key_block assms(2-4) pre(1) x1(2) p(1) pre(2-6)] obtain t2 s2 r where
    l: "enc_block_loop clr intr t1 s1 = Some (t2, s2)" "t1 < t2" "r \<le> n" "rcx (gp s2) = of_nat r" "rip (gp s2) = ?ip"
    "gctr_done (key_block lo hi) icb (inp s) 0 n r (outp s) (outp s2)" "r \<noteq> 0 \<longrightarrow> interrupted intr' t t2"
    unfolding p(5,6) by blast
  obtain t3 s3 where e3: "exec cleared intr' done_code t2 s2 = (t3, s3)" by fastforce
  note d = done_run[OF e3]
  have x3: "exec clr intr done_code t2 s2 = (t3, s3)" using exec_acts[OF assms(1) rip_code(5) l(5), of t2] e3 by simp
  have "aes_aesni_gctr_linear clr intr lo hi icb t s = Some (of_nat r, t3, s3)"
    unfolding aes_aesni_gctr_linear_def x1(1) Let_def prod.case l(1) bind.simps x3 d(2) l(4) ..
  moreover have "r \<noteq> 0 \<longrightarrow> interrupted intr' t t3" using l(7) interrupted_mono[OF _ order_refl, of intr' t t2 t3] d(1) by auto
  ultimately show ?thesis using p(2) l(2,3,6) d by (intro exI[of _ r] exI[of _ t3] exI[of _ s3]) simp
qed

text \<open>A page marked for clearing the vector registers, and a unit that zeroes them.\<close>

definition vector_page :: "(nat \<Rightarrow> block) vec_unit \<Rightarrow> 'e xom_domain \<Rightarrow> u64 \<Rightarrow> (u64 \<Rightarrow> u64) \<Rightarrow> u64 \<Rightarrow> bool" where
  "vector_page vu d cs_base gva_to_gfn ip \<longleftrightarrow> get_reg_clear_type d True cs_base gva_to_gfn (Some ip) = of_nat REG_CLEAR_TYPE_VECTOR
     \<and> (\<forall>v. clear_vector_regs vu v = (\<lambda>_. replicate 16 0))"

lemma reg_clear_cleared: "vector_page vu d cs_base gva_to_gfn ip \<Longrightarrow> clears_at ip (reg_clear vu d cs_base gva_to_gfn)"
  by (simp add: vector_page_def clears_at_def reg_clear_def handle_register_clear_def cleared_def Let_def)

subsection \<open>Interrupted blocks\<close>

text \<open>
  States that agree in all that the routine uses but the vector registers, r14 and the current block of the output, and states that agree in all but that block.
\<close>

definition similar :: "gctr_state \<Rightarrow> gctr_state \<Rightarrow> bool" where
  "similar s s' \<longleftrightarrow> r8 (gp s') = r8 (gp s) \<and> r15 (gp s') = r15 (gp s) \<and> rcx (gp s') = rcx (gp s) \<and> rip (gp s') = rip (gp s) \<and> pos s' = pos s \<and> inp s' = inp s \<and> in_place s' = in_place s
     \<and> (outp s')[pos s := []] = (outp s)[pos s := []]"

definition same_but_block :: "gctr_state \<Rightarrow> gctr_state \<Rightarrow> bool" where
  "same_but_block s s' \<longleftrightarrow> similar s s' \<and> r14 (gp s') = r14 (gp s) \<and> xmm s' = xmm s"

definition keeps_similar :: "instr \<Rightarrow> instr \<Rightarrow> bool" where
  "keeps_similar i j \<longleftrightarrow> (\<forall>s s'. similar s s' \<longrightarrow> similar (i s) (j s'))"

definition keeps_same :: "bool \<Rightarrow> instr \<Rightarrow> bool" where
  "keeps_same ip i \<longleftrightarrow> (\<forall>s s'. in_place s = ip \<longrightarrow> same_but_block s s' \<longrightarrow> same_but_block (i s) (i s') \<and> in_place (i s) = ip)"

lemma cleared_similar: "similar s s' \<Longrightarrow> same_but_block (cleared s) (cleared s')"
  by (simp add: similar_def same_but_block_def cleared_def)

lemma similar_instrs:
  "keeps_similar xor_r15 xor_r15" "keeps_similar (mov_r8 v) (mov_r8 v)" "keeps_similar (mov_r14 a) (mov_r14 b)" "keeps_similar (movq_r8 n) (movq_r8 n)"
  "keeps_similar (movq_r14 n) (movq_r14 n)" "keeps_similar (mov_x m n) (mov_x m n)" "keeps_similar (op_x f m n) (op_x f m n)"
  "keeps_similar (upd_x g n) (upd_x g n)" "keeps_similar (load_block n) (load_block n)" "keeps_similar (\<lambda>s. set_xmm n (h s) s) (\<lambda>s. set_xmm n (h s) s)"
  "keeps_similar (set_xmm n x) (set_xmm n x)"
  by (simp_all add: keeps_similar_def similar_def xor_r15_def mov_r8_def mov_r14_def movq_r8_def movq_r14_def mov_x_def op_x_def upd_x_def
      load_block_def set_xmm_def)

lemma same_instrs:
  "keeps_same ip (mov_r8 v)" "keeps_same ip (mov_r14 a)" "keeps_same ip (movq_r8 n)"
  "keeps_same ip (movq_r14 n)" "keeps_same ip (mov_x m n)" "keeps_same ip (op_x f m n)"
  "keeps_same ip (upd_x g n)" "keeps_same False (load_block n)" "keeps_same ip (set_xmm n x)"
  "keeps_same ip (\<lambda>s. set_xmm n (aeskeygenassist rc (xmm s m)) s)"
  by (simp_all add: keeps_same_def same_but_block_def similar_def mov_r8_def mov_r14_def movq_r8_def movq_r14_def mov_x_def op_x_def upd_x_def
      load_block_def set_xmm_def)

lemma similar_code:
  "list_all2 keeps_similar (mask_code @ take 3 (key_code lo hi)) (mask_code @ take 3 (key_code lo' hi'))"
  "\<forall>i \<in> set (drop 3 (key_code lo hi) @ key_schedule_code @ counter_code icb @ butlast block_code). keeps_similar i i"
  by (auto simp: mask_code_def key_code_def key_schedule_code_def round_key_code_def counter_code_def block_code_def encrypt_code_def similar_instrs)

lemma same_code:
  "\<forall>i \<in> set (drop 3 (key_code lo hi) @ key_schedule_code @ counter_code icb @ butlast block_code). keeps_same False i"
  "\<forall>i \<in> set (drop 3 (butlast block_code)). keeps_same ip i"
  by (auto simp: key_code_def key_schedule_code_def round_key_code_def counter_code_def block_code_def encrypt_code_def same_instrs)

lemma exec_append: "exec clr intr (is @ js) t s = (let (t, s) = exec clr intr is t s in exec clr intr js t s)"
  by (induction "is" arbitrary: t s) simp_all

lemma exec_then: "exec clr intr is t s = (t', s') \<Longrightarrow> exec clr intr (is @ js) t s = exec clr intr js t' s'"
  by (simp add: exec_append)

lemma same_similar: "same_but_block s s' \<Longrightarrow> similar s s'"
  by (simp add: same_but_block_def)

lemma exec_similar:
  "list_all2 keeps_similar is js \<Longrightarrow> similar s s' \<Longrightarrow>
   similar (snd (exec cleared intr is t s)) (snd (exec cleared intr js t s')) \<and> fst (exec cleared intr is t s) = fst (exec cleared intr js t s')"
proof (induction "is" js arbitrary: t s s' rule: list_all2_induct)
  case (Cons i "is" j js)
  have "similar (i s) (j s')" using Cons.hyps(1) Cons.prems by (simp add: keeps_similar_def)
  then have "similar (if intr t then cleared (i s) else i s) (if intr t then cleared (j s') else j s')"
    using cleared_similar same_similar by simp
  from Cons.IH[OF this, of "t + 1"] show ?case by simp
qed simp

lemma exec_same:
  "\<forall>i \<in> set is. keeps_same ip i \<Longrightarrow> in_place s = ip \<Longrightarrow> same_but_block s s' \<Longrightarrow>
   same_but_block (snd (exec cleared intr is t s)) (snd (exec cleared intr is t s')) \<and> fst (exec cleared intr is t s) = fst (exec cleared intr is t s')"
proof (induction "is" arbitrary: t s s')
  case (Cons i "is")
  let ?c = "\<lambda>s. if intr t then cleared (i s) else i s"
  have i: "same_but_block (i s) (i s')" "in_place (i s) = ip" using Cons.prems by (simp_all add: keeps_same_def)
  then have "same_but_block (?c s) (?c s')" "in_place (?c s) = ip"
    using cleared_similar[OF same_similar[OF i(1)]] by (simp_all add: cleared_def)
  from Cons.IH[OF _ this(2,1), of "t + 1"] Cons.prems(1) show ?case by simp
qed simp

text \<open>An interruption makes the difference vanish.\<close>

lemma exec_merge:
  "\<forall>i \<in> set is. keeps_similar i i \<and> keeps_same ip i \<Longrightarrow> in_place s = ip \<Longrightarrow> similar s s' \<Longrightarrow> interrupted intr t (t + length is) \<Longrightarrow>
   same_but_block (snd (exec cleared intr is t s)) (snd (exec cleared intr is t s')) \<and> fst (exec cleared intr is t s) = fst (exec cleared intr is t s')"
proof (induction "is" arbitrary: t s s')
  case (Cons i "is")
  have q: "\<forall>i \<in> set is. keeps_similar i i \<and> keeps_same ip i" "similar (i s) (i s')"
    using Cons.prems by (simp_all add: keeps_similar_def)
  have "same_but_block s s" by (simp add: same_but_block_def similar_def)
  with Cons.prems(1,2) have ip: "in_place (i s) = ip" by (auto simp: keeps_same_def)
  show ?case
  proof (cases "intr t")
    case True
    have "in_place (cleared (i s)) = ip" using ip by (simp add: cleared_def)
    from exec_same[OF _ this cleared_similar[OF q(2)], of "is" intr "t + 1"] q(1) True show ?thesis by simp
  next
    case False
    from Cons.prems(4) obtain u where u: "t \<le> u" "u < t + length (i # is)" "intr u" unfolding interrupted_def by blast
    with False have "u \<noteq> t" by auto
    with u have "interrupted intr (t + 1) (t + 1 + length is)" unfolding interrupted_def by (intro exI[of _ u]) simp
    from Cons.IH[OF q(1) ip q(2) this] False show ?thesis by simp
  qed
qed (auto simp: interrupted_def)

text \<open>A call that is interrupted before the first block is stored.\<close>

lemma block_code_store: "block_code = butlast block_code @ [store_block 0]"
  by (simp add: block_code_def butlast_append)

lemma interrupted_call:
  assumes "clears_at (rip (gp s)) clr" "pos s < length (outp s)" "in_place s \<or> pos s < length (inp s)" "length icb = 16"
    and "exec cleared intr (mask_code @ key_code lo hi @ key_schedule_code @ counter_code icb) t s = (t0, s0)"
    and "exec cleared intr (butlast block_code) t0 s0 = (t1, s1)" "marked s1"
  shows "\<exists>t' s'. aes_aesni_gctr_linear clr intr lo hi icb t s = Some (rcx (gp s), t', s')
    \<and> exec cleared intr ([store_block 0] @ done_code) t1 s1 = (t', s')"
proof -
  let ?ip = "rip (gp s)"
  note p = prologue_exec[OF assms(4,5)]
  have x0: "exec clr intr (mask_code @ key_code lo hi @ key_schedule_code @ counter_code icb) t s = (t0, s0)" "rip (gp s0) = ?ip"
    using exec_clr[OF assms(1) rip_code(1)[of lo hi icb] refl, of intr t] assms(5) by simp_all
  obtain t2 s2 where e2: "exec cleared intr [store_block 0] t1 s1 = (t2, s2)" by fastforce
  have e: "exec cleared intr block_code t0 s0 = (t2, s2)"
    unfolding arg_cong[OF block_code_store, of "\<lambda>c. exec cleared intr c t0 s0"] exec_append assms(6) Let_def prod.case e2 ..
  then have x2: "exec clr intr block_code t0 s0 = (t2, s2)" "rip (gp s2) = ?ip"
    using exec_clr[OF assms(1) rip_code(2) x0(2), of intr t0] by simp_all
  have "marked s2" using exec_dirty[of "[store_block 0]" s1 t1 intr] assms(7) e2 by (simp add: marked_def quiet_instrs)
  then have m: "r15 (gp s2) AND 0xFF \<noteq> 0" by (simp add: marked_def)
  have "\<not> (pos s0 \<ge> length (outp s0) \<or> \<not> in_place s0 \<and> pos s0 \<ge> length (inp s0))" using p assms(2,3) by auto
  note loop = enc_block_loop.simps[of clr intr t0 s0, unfolded if_not_P[OF this] x2(1) Let_def prod.case if_P[OF m]]
  obtain t3 s3 where e3: "exec cleared intr done_code t2 s2 = (t3, s3)" by fastforce
  have x3: "exec clr intr done_code t2 s2 = (t3, s3)" using exec_clr[OF assms(1) rip_code(5) x2(2), of intr t2] e3 by simp
  have "rcx (gp s2) = rcx (gp s0)" using exec_keeps[OF quiet_code(5), of s0 intr t0] e by (simp add: keeps_def)
  then have "rcx (gp s3) = rcx (gp s)" using done_run(2)[OF e3] p(3) by simp
  then have "aes_aesni_gctr_linear clr intr lo hi icb t s = Some (rcx (gp s), t3, s3)"
    unfolding aes_aesni_gctr_linear_def x0(1) Let_def prod.case loop bind.simps x3 by simp
  moreover have "exec cleared intr ([store_block 0] @ done_code) t1 s1 = (t3, s3)"
    unfolding exec_append e2 Let_def prod.case e3 ..
  ultimately show ?thesis by blast
qed

text \<open>What two calls have in common when their states agreed in all but the block before it was stored.\<close>

lemma store_same:
  assumes "same_but_block s s'" "exec cleared intr ([store_block 0] @ done_code) t s = (t1, s1)" "exec cleared intr ([store_block 0] @ done_code) t s' = (t2, s2)"
  shows "t1 = t2 \<and> outp s1 = outp s2 \<and> xmm s1 = xmm s2 \<and> r14 (gp s1) = r14 (gp s2)"
proof -
  let ?c = "\<lambda>s. if intr t then cleared (store_block 0 s) else store_block 0 s"
  have "(outp s')[pos s := []] = (outp s)[pos s := []]" using assms(1) by (simp add: same_but_block_def similar_def)
  then have o: "(outp s')[pos s := b] = (outp s)[pos s := b]" for b by (metis list_update_overwrite)
  have b: "same_but_block (?c s) (?c s')" "outp (?c s) = outp (?c s')"
    using assms(1) o by (simp_all add: same_but_block_def similar_def store_block_def cleared_def)
  have q: "\<forall>i \<in> set done_code. keeps_same (in_place (?c s)) i" "\<forall>i \<in> set done_code. \<forall>s. outp (i s) = outp s"
    by (auto simp: done_code_def same_instrs set_xmm_def mov_x_def)
  have e: "exec cleared intr done_code (t + 1) (?c s) = (t1, s1)" "exec cleared intr done_code (t + 1) (?c s') = (t2, s2)"
    using assms(2,3) by simp_all
  from exec_same[OF q(1) refl b(1), of intr "t + 1"] have "same_but_block s1 s2" "t1 = t2" unfolding e by simp_all
  moreover have "outp s1 = outp s2" using exec_outp[OF q(2), of intr "t + 1"] b(2) e by (metis snd_conv)
  ultimately show ?thesis by (simp add: same_but_block_def)
qed

text \<open>Two calls that have become the same by the time the first block is stored.\<close>

lemma same_call:
  assumes "clears_at (rip (gp s)) clr" "rip (gp s') = rip (gp s)" "rcx (gp s') = rcx (gp s)" "length icb = 16"
    and "pos s < length (outp s)" "in_place s \<or> pos s < length (inp s)" "pos s' < length (outp s')" "in_place s' \<or> pos s' < length (inp s')"
    and "\<And>t0 s0 t0' s0'. exec cleared intr (mask_code @ key_code lo hi @ key_schedule_code @ counter_code icb) t s = (t0, s0) \<Longrightarrow>
      exec cleared intr (mask_code @ key_code lo' hi' @ key_schedule_code @ counter_code icb) t s' = (t0', s0') \<Longrightarrow>
      marked (snd (exec cleared intr (butlast block_code) t0 s0))
      \<and> same_but_block (snd (exec cleared intr (butlast block_code) t0 s0)) (snd (exec cleared intr (butlast block_code) t0' s0'))
      \<and> fst (exec cleared intr (butlast block_code) t0 s0) = fst (exec cleared intr (butlast block_code) t0' s0')"
  shows "\<exists>t' s1 s2. aes_aesni_gctr_linear clr intr lo hi icb t s = Some (rcx (gp s), t', s1)
    \<and> aes_aesni_gctr_linear clr intr lo' hi' icb t s' = Some (rcx (gp s), t', s2)
    \<and> outp s1 = outp s2 \<and> xmm s1 = xmm s2 \<and> r14 (gp s1) = r14 (gp s2)"
proof -
  obtain t0 s0 where e: "exec cleared intr (mask_code @ key_code lo hi @ key_schedule_code @ counter_code icb) t s = (t0, s0)" by fastforce
  obtain t0' s0' where e': "exec cleared intr (mask_code @ key_code lo' hi' @ key_schedule_code @ counter_code icb) t s' = (t0', s0')" by fastforce
  obtain t1 s1 where b: "exec cleared intr (butlast block_code) t0 s0 = (t1, s1)" by fastforce
  obtain t1' s1' where b': "exec cleared intr (butlast block_code) t0' s0' = (t1', s1')" by fastforce
  from assms(9)[OF e e'] have m: "marked s1" "same_but_block s1 s1'" "t1 = t1'" unfolding b b' by simp_all
  then have m': "marked s1'" by (simp add: marked_def same_but_block_def similar_def)
  have c: "clears_at (rip (gp s')) clr" using assms(1,2) by simp
  from interrupted_call[OF assms(1,5,6,4) e b m(1)] obtain t2 s2 where r: "aes_aesni_gctr_linear clr intr lo hi icb t s = Some (rcx (gp s), t2, s2)"
    "exec cleared intr ([store_block 0] @ done_code) t1 s1 = (t2, s2)" by blast
  from interrupted_call[OF c assms(7,8,4) e' b' m'] obtain t2' s2' where r': "aes_aesni_gctr_linear clr intr lo' hi' icb t s' = Some (rcx (gp s), t2', s2')"
    "exec cleared intr ([store_block 0] @ done_code) t1 s1' = (t2', s2')" unfolding assms(3) m(3) by blast
  from store_same[OF m(2) r(2) r'(2)] r(1) r'(1) show ?thesis by auto
qed

lemma lengths_code:
  "length (mask_code @ take 3 (key_code lo hi)) = 9"
  "length (drop 3 (key_code lo hi) @ key_schedule_code @ counter_code icb @ butlast block_code) = 134"
  "length (mask_code @ key_code lo hi @ key_schedule_code @ counter_code icb @ take 3 block_code) = 131"
  "length (drop 3 (butlast block_code)) = 12"
  by (simp_all add: mask_code_def key_code_def key_schedule_code_def round_key_code_def counter_code_def block_code_def encrypt_code_def)

lemma quiet_rest:
  "\<forall>i \<in> set (drop 3 (key_code lo hi) @ key_schedule_code @ counter_code icb @ butlast block_code). quiet i"
  "\<forall>i \<in> set (drop 3 (butlast block_code)). quiet i"
  using quiet_code(2-4) quiet_code(5)[THEN bspec, OF in_set_butlastD] by (auto dest: in_set_dropD)

lemma exec_time: "fst (exec clr intr is t s) = t + length is"
  by (induction "is" arbitrary: t s) simp_all

lemma interrupted_dirty:
  "\<forall>i \<in> set is. quiet i \<Longrightarrow> interrupted intr t (t + length is) \<Longrightarrow> marked (snd (exec cleared intr is t s))"
  using exec_dirty[of "is" s t intr] by (auto simp: marked_def interrupted_def)

lemma exec_in_place:
  "\<forall>i \<in> set is. \<forall>s. in_place (i s) = in_place s \<Longrightarrow> in_place (snd (exec cleared intr is t s)) = in_place s"
  by (induction "is" arbitrary: t s) (simp_all add: cleared_def)

lemma interrupted_key:
  assumes "clears_at (rip (gp s)) clr" "length icb = 16" "pos s < length (outp s)" "pos s < length (inp s)" "\<not> in_place s"
    and "interrupted intr (t + 9) (t + 143)"
  shows "\<exists>t' s1 s2. aes_aesni_gctr_linear clr intr lo hi icb t s = Some (rcx (gp s), t', s1)
    \<and> aes_aesni_gctr_linear clr intr lo' hi' icb t s = Some (rcx (gp s), t', s2)
    \<and> outp s1 = outp s2 \<and> xmm s1 = xmm s2 \<and> r14 (gp s1) = r14 (gp s2)"
proof (rule same_call[OF assms(1) refl refl assms(2,3) disjI2[OF assms(4)] assms(3) disjI2[OF assms(4)]])
  let ?a = "\<lambda>lo hi. mask_code @ take 3 (key_code lo hi)"
  let ?r = "drop 3 (key_code lo hi) @ key_schedule_code @ counter_code icb @ butlast block_code"
  fix t0 s0 t0' s0'
  assume e: "exec cleared intr (mask_code @ key_code lo hi @ key_schedule_code @ counter_code icb) t s = (t0, s0)"
    and e': "exec cleared intr (mask_code @ key_code lo' hi' @ key_schedule_code @ counter_code icb) t s = (t0', s0')"
  obtain ta sa where a: "exec cleared intr (?a lo hi) t s = (ta, sa)" by fastforce
  obtain ta' sa' where a': "exec cleared intr (?a lo' hi') t s = (ta', sa')" by fastforce
  have ta: "ta = t + 9" "ta' = t + 9" using exec_time[of cleared intr "?a lo hi" t s] exec_time[of cleared intr "?a lo' hi'" t s]
    unfolding a a' lengths_code by simp_all
  have "similar s s" by (simp add: similar_def)
  from exec_similar[OF similar_code(1)[of lo hi lo' hi'] this, of intr t] have sim: "similar sa sa'" unfolding a a' by simp
  have "drop 3 (key_code lo' hi') = drop 3 (key_code lo hi)" by (simp add: key_code_def)
  then have split: "(?a lo hi) @ ?r = (mask_code @ key_code lo hi @ key_schedule_code @ counter_code icb) @ butlast block_code"
    "(?a lo' hi') @ ?r = (mask_code @ key_code lo' hi' @ key_schedule_code @ counter_code icb) @ butlast block_code"
    by (simp_all add: key_code_def)
  have r: "exec cleared intr (butlast block_code) t0 s0 = exec cleared intr ?r (t + 9) sa"
    "exec cleared intr (butlast block_code) t0' s0' = exec cleared intr ?r (t + 9) sa'"
    using exec_then[OF a, of ?r] exec_then[OF a', of ?r] unfolding split exec_then[OF e] exec_then[OF e'] ta by simp_all
  have i: "interrupted intr (t + 9) (t + 9 + length ?r)" using assms(6) unfolding lengths_code by (simp add: add.assoc)
  have "\<forall>i \<in> set (?a lo hi). \<forall>s. in_place (i s) = in_place s"
    by (auto simp: mask_code_def key_code_def xor_r15_def mov_r8_def mov_r14_def movq_r8_def movq_r14_def op_x_def set_xmm_def)
  from exec_in_place[OF this, of intr t s] have "in_place sa = False" using assms(5) unfolding a by simp
  from exec_merge[OF _ this sim i] similar_code(2) same_code(1) interrupted_dirty[OF quiet_rest(1) i]
  show "marked (snd (exec cleared intr (butlast block_code) t0 s0))
      \<and> same_but_block (snd (exec cleared intr (butlast block_code) t0 s0)) (snd (exec cleared intr (butlast block_code) t0' s0'))
      \<and> fst (exec cleared intr (butlast block_code) t0 s0) = fst (exec cleared intr (butlast block_code) t0' s0')"
    unfolding r by blast
qed

lemma interrupted_in_place:
  assumes "clears_at (rip (gp s)) clr" "length icb = 16" "pos s < length (outp s)" "in_place s" "interrupted intr (t + 131) (t + 143)"
    and "s' = s\<lparr>outp := (outp s)[pos s := b]\<rparr>"
  shows "\<exists>t' s1 s2. aes_aesni_gctr_linear clr intr lo hi icb t s = Some (rcx (gp s), t', s1)
    \<and> aes_aesni_gctr_linear clr intr lo hi icb t s' = Some (rcx (gp s), t', s2) \<and> outp s1 = outp s2"
proof -
  let ?p = "mask_code @ key_code lo hi @ key_schedule_code @ counter_code icb" and ?l = "take 3 block_code" and ?r = "drop 3 (butlast block_code)"
  have s': "rip (gp s') = rip (gp s)" "rcx (gp s') = rcx (gp s)" "pos s' < length (outp s')" "in_place s'" "similar s s'"
    using assms(3,4,6) by (simp_all add: similar_def)
  have merge: "marked (snd (exec cleared intr (butlast block_code) t0 s0))
      \<and> same_but_block (snd (exec cleared intr (butlast block_code) t0 s0)) (snd (exec cleared intr (butlast block_code) t0' s0'))
      \<and> fst (exec cleared intr (butlast block_code) t0 s0) = fst (exec cleared intr (butlast block_code) t0' s0')"
    if e: "exec cleared intr ?p t s = (t0, s0)" and e': "exec cleared intr ?p t s' = (t0', s0')" for t0 s0 t0' s0'
  proof -
    obtain ta sa where a: "exec cleared intr (?p @ ?l) t s = (ta, sa)" by fastforce
    obtain ta' sa' where a': "exec cleared intr (?p @ ?l) t s' = (ta', sa')" by fastforce
    have ta: "ta = t + 131" "ta' = t + 131" using exec_time[of cleared intr "?p @ ?l" t s] exec_time[of cleared intr "?p @ ?l" t s']
      unfolding a a' by (simp_all add: lengths_code(3)[simplified])
    have "list_all2 keeps_similar (?p @ ?l) (?p @ ?l)"
      by (auto simp: list_all2_same mask_code_def key_code_def key_schedule_code_def round_key_code_def counter_code_def block_code_def similar_instrs)
    from exec_similar[OF this s'(5), of intr t] have sim: "similar sa sa'" unfolding a a' by simp
    have l: "(?p @ ?l) @ ?r = ?p @ butlast block_code" by (simp add: block_code_def)
    have "\<forall>i \<in> set (?p @ ?l). \<forall>s. in_place (i s) = in_place s"
      by (auto simp: mask_code_def key_code_def key_schedule_code_def round_key_code_def counter_code_def block_code_def xor_r15_def mov_r8_def mov_r14_def
          movq_r8_def movq_r14_def op_x_def upd_x_def mov_x_def load_block_def set_xmm_def)
    from exec_in_place[OF this, of intr t s] have ip: "in_place sa = True" using assms(4) unfolding a by simp
    have i: "interrupted intr (t + 131) (t + 131 + length ?r)" using assms(5) unfolding lengths_code by (simp add: add.assoc)
    have r: "exec cleared intr (butlast block_code) t0 s0 = exec cleared intr ?r (t + 131) sa"
      "exec cleared intr (butlast block_code) t0' s0' = exec cleared intr ?r (t + 131) sa'"
      using exec_then[OF a, of ?r] exec_then[OF a', of ?r] unfolding l exec_then[OF e] exec_then[OF e'] ta by simp_all
    have "\<forall>i \<in> set ?r. keeps_similar i i \<and> keeps_same True i" using similar_code(2) same_code(2) by (auto dest: in_set_dropD)
    from exec_merge[OF this ip sim i] interrupted_dirty[OF quiet_rest(2) i] show ?thesis unfolding r by blast
  qed
  from same_call[OF assms(1) s'(1,2) assms(2,3) disjI1[OF assms(4)] s'(3) disjI1[OF s'(4)] merge] show ?thesis by blast
qed

text \<open>An interruption between the loads of the two halves of the key.\<close>

lemma low_half_prologue:
  assumes "xmm s = (\<lambda>_. replicate 16 0)" "length icb = 16"
    and "s' = fold (\<lambda>i. i) (drop 2 (key_code lo hi) @ key_schedule_code @ counter_code icb) s"
  shows "has_keys (key_block 0 hi) s'" "pshufb (xmm s' 15) (xmm s' 3) = replicate 16 (icb ! 0)"
proof -
  let ?a = "fold (\<lambda>i. i) (drop 2 (key_code lo hi)) s" and ?key = "key_block 0 hi"
  let ?b = "fold (\<lambda>i. i) key_schedule_code ?a"
  have z: "replicate 16 0 = [0, 0, 0, 0, 0, 0, 0, 0, 0, 0, 0, 0, 0, 0, 0, 0 :: u8]" by (simp add: numeral_eq_Suc)
  have key: "movlhps (movq_xmm hi) (replicate 16 0) = ?key" by (simp add: movlhps_def movq_xmm_def key_block_def z le_bytes_numeral)
  have a: "xmm ?a 1 = ?key" "xmm ?a 4 = ?key" "xmm ?a 15 = replicate 16 0" using assms(1)
    by (simp_all add: key_code_def mov_r14_def movq_r14_def op_x_def mov_x_def set_xmm_def key)
  note b = key_schedule_keys[OF a(1,2) length_key_block]
  have s': "s' = fold (\<lambda>i. i) (counter_code icb) ?b" unfolding assms(3) by simp
  have "has_keys ?key (fold (\<lambda>i. i) (counter_code icb) ?b) = has_keys ?key ?b"
    by (rule has_keys_cong) (simp add: counter_code_def set_xmm_def op_x_def mov_r8_def movq_r8_def)
  with b(1) show "has_keys ?key s'" unfolding s' by simp
  have p: "pshufb (replicate 16 0) c = replicate 16 (c ! 0)" for c :: block by (simp add: pshufb_def z map_replicate_const numeral_eq_Suc)
  have "xmm ?b 15 = replicate 16 0" using b(2)[of 15] a(3) by simp
  then have "xmm s' 15 = replicate 16 0" "xmm s' 3 = replicate 16 (icb ! 0)" unfolding s'
    by (simp_all add: counter_code_def set_xmm_def op_x_def mov_r8_def movq_r8_def p del: fold_append)
  then show "pshufb (xmm s' 15) (xmm s' 3) = replicate 16 (icb ! 0)" by (simp add: p)
qed

lemma low_half_lost:
  assumes "clears_at (rip (gp s)) clr" "length icb = 16" "pos s < length (outp s)" "in_place s \<or> pos s < length (inp s)"
    and "\<And>u. t \<le> u \<Longrightarrow> u < t + 143 \<Longrightarrow> intr u \<longleftrightarrow> u = t + 7"
  shows "\<exists>t' s'. aes_aesni_gctr_linear clr intr lo hi icb t s = Some (rcx (gp s), t', s')
    \<and> outp s' ! pos s = xor_block ((if in_place s then outp s else inp s) ! pos s) (aes128 (key_block 0 hi) (replicate 16 (icb ! 0)))"
proof -
  let ?p = "mask_code @ key_code lo hi @ key_schedule_code @ counter_code icb"
  let ?c = "mask_code @ [mov_r14 lo]" and ?d = "drop 2 (key_code lo hi) @ key_schedule_code @ counter_code icb"
  let ?s = "cleared (movq_r14 0 (fold (\<lambda>i. i) ?c s))"
  define s0 where "s0 = fold (\<lambda>i. i) ?d ?s"
  have split: "?p = ?c @ [movq_r14 0] @ ?d" by (simp add: key_code_def)
  have len: "length ?c = 7" "length ?d = 120" "length (butlast block_code) = 15"
    by (simp_all add: mask_code_def key_code_def key_schedule_code_def round_key_code_def counter_code_def block_code_def encrypt_code_def)
  have c: "exec cleared intr ?c t s = (t + 7, fold (\<lambda>i. i) ?c s)"
    by (rule exec_clean[of t ?c, unfolded len]) (use assms(5) in auto)
  have m: "exec cleared intr [movq_r14 0] (t + 7) (fold (\<lambda>i. i) ?c s) = (t + 8, ?s)" using assms(5)[of "t + 7"] by simp
  have d: "exec cleared intr ?d (t + 8) ?s = (t + 128, s0)" unfolding s0_def
    using exec_clean[of "t + 8" ?d intr cleared ?s] assms(5) unfolding len by (simp add: add.assoc)
  have e: "exec cleared intr ?p t s = (t + 128, s0)" unfolding split exec_then[OF c] exec_then[OF m] by (rule d)
  have b: "exec cleared intr (butlast block_code) (t + 128) s0 = (t + 128 + 15, fold (\<lambda>i. i) (butlast block_code) s0)"
    by (rule exec_clean[of "t + 128" "butlast block_code", unfolded len]) (use assms(5) in auto)
  have "xmm ?s = (\<lambda>_. replicate 16 0)" by (simp add: cleared_def)
  note k = low_half_prologue[OF this assms(2) s0_def]
  have q: "\<forall>i \<in> set (?d @ butlast block_code). quiet i" using quiet_code(2-4) quiet_code(5)[THEN bspec, OF in_set_butlastD] by (auto dest: in_set_dropD)
  have "marked (fold (\<lambda>i. i) (butlast block_code) s0)"
    using exec_dirty[OF q, of ?s "t + 8" intr] unfolding exec_then[OF d] b by (simp add: marked_def cleared_def)
  from interrupted_call[OF assms(1,3,4,2) e b this] obtain t' s' where r: "aes_aesni_gctr_linear clr intr lo hi icb t s = Some (rcx (gp s), t', s')"
    "exec cleared intr ([store_block 0] @ done_code) (t + 128 + 15) (fold (\<lambda>i. i) (butlast block_code) s0) = (t', s')" by blast
  note p = prologue_exec[OF assms(2) e]
  have "fold (\<lambda>i. i) block_code s0 = store_block 0 (fold (\<lambda>i. i) (butlast block_code) s0)"
    by (subst block_code_store) simp
  then have "outp s' = outp (fold (\<lambda>i. i) block_code s0)" using r(2) done_run(3) by (simp add: cleared_def split: if_splits)
  then have "outp s' = (outp s)[pos s := xor_block ((if in_place s then outp s else inp s) ! pos s) (aes128 (key_block 0 hi) (replicate 16 (icb ! 0)))]"
    using p unfolding block_fold[OF k(1) length_key_block k(2) length_replicate refl] by (simp add: store_block_def op_x_def set_xmm_def)
  then show ?thesis using r(1) assms(3) by auto
qed

text \<open>The hash key of the authenticated mode.\<close>

lemma get_H_run:
  assumes "length key = 16"
  shows "fst (get_H_unprotected key s) = aes128 key (replicate 16 0)"
    and "i < 15 \<Longrightarrow> xmm (snd (get_H_unprotected key s)) i = replicate 16 0"
proof -
  let ?a = "fold (\<lambda>i. i) [set_xmm 1 key, mov_x 1 4] s"
  let ?c = "fold (\<lambda>i. i) [set_xmm 0 (replicate 16 0)] (fold (\<lambda>i. i) key_schedule_code ?a)"
  have a: "xmm ?a 1 = key" "xmm ?a 4 = key" by (simp_all add: set_xmm_def mov_x_def)
  have "has_keys key ?c" using key_schedule_keys(1)[OF a assms] has_keys_cong[of ?c "fold (\<lambda>i. i) key_schedule_code ?a" key]
    by (simp add: set_xmm_def)
  from encrypt_run[OF this assms] have "xmm (fold (\<lambda>i. i) encrypt_code ?c) 0 = aes128 key (replicate 16 0)" by (simp add: set_xmm_def)
  moreover have "snd (exec id (\<lambda>_. False) (get_H_code key) 0 s) = fold (\<lambda>i. i) encrypt_code ?c"
    using exec_clean[of 0 "get_H_code key" "\<lambda>_. False" id s] by (simp add: get_H_code_def)
  ultimately show "fst (get_H_unprotected key s) = aes128 key (replicate 16 0)" by (simp add: get_H_unprotected_def)
  show "xmm (snd (get_H_unprotected key s)) i = replicate 16 0" if "i < 15"
  proof -
    have z: "xmm s 0 = replicate 16 0 \<Longrightarrow> xmm (fold (\<lambda>i. i) (map (mov_x 0) js) s) i = (if i \<in> set js then replicate 16 0 else xmm s i)" for js s
      by (induction js arbitrary: s) (auto simp: mov_x_def set_xmm_def)
    have "i = 0 \<or> i \<in> set [1..<15]" using that by auto
    then show ?thesis using exec_clean[of 0 get_H_clear_code "\<lambda>_. False" id] z[of _ "[1..<15]"]
      by (auto simp: get_H_unprotected_def get_H_clear_code_def set_xmm_def Let_def simp del: upt_rec_numeral)
  qed
qed

subsection \<open>Properties of the routine\<close>

text \<open>A state before a call: user code in page 2 of the sample machine, which is marked for clearing of the vector registers.\<close>

definition sample_vec :: "(nat \<Rightarrow> block) vec_unit" where
  "sample_vec = \<lparr>has_avx512f = False, has_avx = True, has_sse3 = True, clear_avx512 = (\<lambda>_ _. replicate 16 0), clear_avx = (\<lambda>_ _. replicate 16 0),
     clear_sse = (\<lambda>_ _. replicate 16 0)\<rparr>"

definition sample_call :: "bool \<Rightarrow> gctr_state" where
  "sample_call same = \<lparr>gp = regs_zero\<lparr>rip := 0x2040, rcx := 2\<rparr>, xmm = (\<lambda>_. replicate 16 7), pos = 0, inp = replicate 2 (replicate 16 3),
     outp = replicate 2 (replicate 16 9), in_place = same\<rparr>"

lemma sample_vector_page: "vector_page sample_vec sample_dom 0 (\<lambda>a. drop_bit 12 a) (rip (gp (sample_call b)))"
  by (simp add: vector_page_def get_reg_clear_type_def gfn_of_rip_def sample_dom_def sample_vec_def sample_call_def clear_vector_regs_def
      get_page_info_entry_def)

text \<open>
  C9: counter mode is computed correctly whatever the interruptions. The routine returns; with \<open>r\<close> the returned number of remaining blocks, every
  block before the last \<open>r\<close> is the input block XOR the AES-128 encryption of its counter block under the key in the code, at most one more
  block was touched, blocks remain only if there was an interruption, and no vector register but the two that hold constants keeps a value.
\<close>

theorem aesni_gctr_correct:
  assumes "vector_page vu d cs_base gva_to_gfn (rip (gp s))" "length icb = 16" "0 < n" "n < 2 ^ 64" "pos s = 0" "rcx (gp s) = of_nat n"
    and "\<not> in_place s" "n \<le> length (outp s)" "n \<le> length (inp s)"
  shows "\<exists>r t' s'. aes_aesni_gctr_linear (reg_clear vu d cs_base gva_to_gfn) intr lo hi icb t s = Some (of_nat r, t', s') \<and> r \<le> n
    \<and> (\<forall>j < n - r. outp s' ! j = xor_block (inp s ! j) (aes128 (key_block lo hi) (ctr_add icb j)))
    \<and> (\<forall>j > n - r. outp s' ! j = outp s ! j)
    \<and> (r \<noteq> 0 \<longrightarrow> (\<exists>u. t \<le> u \<and> u < t' \<and> intr u))
    \<and> (\<forall>i < 16. i \<notin> {2, 15} \<longrightarrow> xmm s' i = replicate 16 0)"
proof -
  obtain r t' s' where r: "aes_aesni_gctr_linear (reg_clear vu d cs_base gva_to_gfn) intr lo hi icb t s = Some (of_nat r, t', s')" "r \<le> n"
    "gctr_done (key_block lo hi) icb (inp s) 0 n r (outp s) (outp s')" "r \<noteq> 0 \<longrightarrow> interrupted intr t t'"
    "\<forall>i < 16. i \<notin> {2, 15} \<longrightarrow> xmm s' i = replicate 16 0"
    using gctr_run[OF clears_acts[OF reg_clear_cleared[OF assms(1)]] assms(2-9), of intr lo hi t] by blast
  from r(3) have "\<forall>j < n - r. outp s' ! j = xor_block (inp s ! j) (aes128 (key_block lo hi) (ctr_add icb j))" "\<forall>j > n - r. outp s' ! j = outp s ! j"
    by (simp_all add: gctr_done_def)
  with r(1,2,4,5) show ?thesis unfolding interrupted_def by blast
qed

theorem aesni_gctr_correct_witness:
  "\<exists>r t' s'. aes_aesni_gctr_linear (reg_clear sample_vec sample_dom 0 (\<lambda>a. drop_bit 12 a)) (\<lambda>u. u = 150) 5 6 (replicate 16 1) 0 (sample_call False)
       = Some (of_nat r, t', s') \<and> r \<le> 2
     \<and> (\<forall>j < 2 - r. outp s' ! j = xor_block (inp (sample_call False) ! j) (aes128 (key_block 5 6) (ctr_add (replicate 16 1) j)))"
proof -
  have "0 < (2 :: nat)" "(2 :: nat) < 2 ^ 64" "pos (sample_call False) = 0" "rcx (gp (sample_call False)) = of_nat 2"
    "\<not> in_place (sample_call False)" "2 \<le> length (outp (sample_call False))" "2 \<le> length (inp (sample_call False))"
    by (simp_all add: sample_call_def)
  from aesni_gctr_correct[OF sample_vector_page _ this, of "replicate 16 1" "\<lambda>u. u = 150" 5 6 0] show ?thesis by auto
qed

text \<open>
  C10: an interrupted block gives nothing away about the key. If the routine is interrupted anywhere from the load of the second
  half of the key until the first block is stored, then the count it returns, the whole output buffer with the garbage block in it, the
  vector registers and r14 are the same for every key.
\<close>

theorem interrupted_block_hides_key:
  assumes "vector_page vu d cs_base gva_to_gfn (rip (gp s))" "length icb = 16" "pos s < length (outp s)" "pos s < length (inp s)" "\<not> in_place s"
    and "t + 9 \<le> u" "u < t + 143" "intr u"
  shows "\<exists>t' s1 s2. aes_aesni_gctr_linear (reg_clear vu d cs_base gva_to_gfn) intr lo hi icb t s = Some (rcx (gp s), t', s1)
    \<and> aes_aesni_gctr_linear (reg_clear vu d cs_base gva_to_gfn) intr lo' hi' icb t s = Some (rcx (gp s), t', s2)
    \<and> outp s1 = outp s2 \<and> xmm s1 = xmm s2 \<and> r14 (gp s1) = r14 (gp s2)"
proof -
  have "interrupted intr (t + 9) (t + 143)" using assms(6-8) by (auto simp: interrupted_def)
  from interrupted_key[OF reg_clear_cleared[OF assms(1)] assms(2-5) this] show ?thesis .
qed

theorem interrupted_block_hides_key_witness:
  "\<exists>t' s1 s2. aes_aesni_gctr_linear (reg_clear sample_vec sample_dom 0 (\<lambda>a. drop_bit 12 a)) (\<lambda>u. u = 100) 5 6 (replicate 16 1) 0 (sample_call False)
       = Some (2, t', s1)
     \<and> aes_aesni_gctr_linear (reg_clear sample_vec sample_dom 0 (\<lambda>a. drop_bit 12 a)) (\<lambda>u. u = 100) 7 8 (replicate 16 1) 0 (sample_call False)
       = Some (2, t', s2) \<and> outp s1 = outp s2"
proof -
  have "pos (sample_call False) < length (outp (sample_call False))" "pos (sample_call False) < length (inp (sample_call False))"
    "\<not> in_place (sample_call False)" "0 + 9 \<le> (100 :: nat)" "100 < 0 + (143 :: nat)" "rcx (gp (sample_call False)) = 2"
    by (simp_all add: sample_call_def)
  from interrupted_block_hides_key[OF sample_vector_page _ this(1-5), of "replicate 16 1" "\<lambda>u. u = 100" 5 6 7 8] this(6) show ?thesis by auto
qed

text \<open>
  Between the loads of the two halves of the key there is a window. An interruption right after the low half has been moved into a vector register zeroes
  it, the routine goes on, and the block it stores is the input XOR an encryption under a key of which only the high 64 bits are secret, not an encryption under the whole key.
\<close>

lemma interrupted_half_key:
  assumes "vector_page vu d cs_base gva_to_gfn (rip (gp s))" "length icb = 16" "pos s < length (outp s)" "in_place s \<or> pos s < length (inp s)"
    and "\<And>u. t \<le> u \<Longrightarrow> u < t + 143 \<Longrightarrow> intr u \<longleftrightarrow> u = t + 7"
  shows "\<exists>t' s'. aes_aesni_gctr_linear (reg_clear vu d cs_base gva_to_gfn) intr lo hi icb t s = Some (rcx (gp s), t', s')
    \<and> outp s' ! pos s = xor_block ((if in_place s then outp s else inp s) ! pos s) (aes128 (key_block 0 hi) (replicate 16 (icb ! 0)))"
  using low_half_lost[OF reg_clear_cleared[OF assms(1)] assms(2-4), of t intr lo hi] assms(5) by blast

end
