(* ===== verification/Subpage_Pool.thy ===== *)
theory Subpage_Pool
  imports Libxom_Main
begin

text \<open>
  The pool of execute-only memory of the OpenSSL provider, \<^verbatim>\<open>openssl-provider/src/xom_subpage_pool.cpp\<close>: a vector of subpage buffers of 64 KB in
  which the code that holds a key is placed. Access to a buffer that was already freed is \<^const>\<open>None\<close>.
\<close>

subsection \<open>State\<close>

record subpage_list_entry =
  subpages :: subpages_ptr
  last_page_marked :: u64
  subpages_used :: u64
  buffers_used :: "u64 set"

definition new_entry :: "xom_subpages \<Rightarrow> subpage_list_entry" where
  "new_entry sp = \<lparr>subpages = Sp_live sp, last_page_marked = 0, subpages_used = 0, buffers_used = {}\<rparr>"

abbreviation (input) POOL_BUFFER_SIZE :: u64 where "POOL_BUFFER_SIZE \<equiv> 0x10000"
abbreviation (input) POOL_SUBPAGES :: u64 where "POOL_SUBPAGES \<equiv> 512"
abbreviation (input) POOL_FREE_THRESHOLD :: u64 where "POOL_FREE_THRESHOLD \<equiv> 409"

definition page_addr :: "u64 \<Rightarrow> u64" where
  "page_addr a = a AND NOT 0xFFF"

definition bytes_to_subpages :: "u64 \<Rightarrow> u64" where
  "bytes_to_subpages x = x div 128 + (if x AND 127 \<noteq> 0 then 128 else 0)"

subsection \<open>Operations\<close>

text \<open>The result of marking the page is ignored.\<close>

definition update_entry ::
  "'w os \<Rightarrow> subpage_list_entry \<Rightarrow> xom_subpages \<Rightarrow> u64 \<Rightarrow> u64 \<Rightarrow> 'w libxom \<Rightarrow> subpage_list_entry \<times> 'w libxom" where
  "update_entry os e sp sz ret l =
     (let e = e\<lparr>subpages_used := subpages_used e + bytes_to_subpages sz\<rparr>;
          (mode, l) = get_xom_mode os l;
          (e, l) = (if mode = int XOM_MODE_SLAT \<and> last_page_marked e < page_addr ret
                    then let (_, l) = xom_mark_register_clear_subpage os sp False ((ret - sp_address sp) div 4096) l
                         in (e\<lparr>last_page_marked := page_addr ret\<rparr>, l)
                    else (e, l))
      in (e\<lparr>buffers_used := insert ret (buffers_used e)\<rparr>, l))"

text \<open>Filling the buffer of an entry; the entry keeps a pointer, so what the library changes in the buffer is seen through it.\<close>

definition fill_entry ::
  "'w os \<Rightarrow> subpage_list_entry \<Rightarrow> u64 \<Rightarrow> u64 \<Rightarrow> 'w libxom \<Rightarrow> (u64 \<times> subpage_list_entry \<times> 'w libxom) option" where
  "fill_entry os e sz data l =
     (case subpages e of
        Sp_live sp \<Rightarrow> do {
          (ret, sp, l) \<leftarrow> xom_fill_and_lock_subpages os sp sz data l;
          (let e = e\<lparr>subpages := Sp_live sp\<rparr>
           in if ret \<noteq> 0 then let (e, l) = update_entry os e sp sz ret l in Some (ret, e, l) else Some (0, e, l))
        }
      | _ \<Rightarrow> None)"

text \<open>The loop over the existing buffers, from the last to the first; the argument is the reversed vector.\<close>

fun try_entries ::
  "'w os \<Rightarrow> u64 \<Rightarrow> u64 \<Rightarrow> subpage_list_entry list \<Rightarrow> 'w libxom \<Rightarrow> (u64 \<times> subpage_list_entry list \<times> 'w libxom) option" where
  "try_entries os sz data [] l = Some (0, [], l)"
| "try_entries os sz data (e # es) l =
     (if POOL_SUBPAGES - subpages_used e < bytes_to_subpages sz
      then do { (ret, es, l) \<leftarrow> try_entries os sz data es l; Some (ret, e # es, l) }
      else do {
        (ret, e, l) \<leftarrow> fill_entry os e sz data l;
        (if ret \<noteq> 0 then Some (ret, e # es, l)
         else do { (ret, es, l) \<leftarrow> try_entries os sz data es l; Some (ret, e # es, l) })
      })"

text \<open>The part after the loop: a new buffer.\<close>

definition grow_pool ::
  "'w os \<Rightarrow> u64 \<Rightarrow> u64 \<Rightarrow> subpage_list_entry list \<Rightarrow> 'w libxom \<Rightarrow> (u64 \<times> subpage_list_entry list \<times> 'w libxom) option" where
  "grow_pool os data sz pool l = do {
     (p, l) \<leftarrow> xom_alloc_subpages os POOL_BUFFER_SIZE l;
     (case p of
        Sp_null \<Rightarrow> Some (0, pool, l)
      | Sp_dangling \<Rightarrow> None
      | Sp_live sp \<Rightarrow> do {
          (ret, e, l) \<leftarrow> fill_entry os (new_entry sp) sz data l;
          (if ret \<noteq> 0 then Some (ret, pool @ [e], l)
           else case subpages e of
                  Sp_live sp \<Rightarrow> Some (0, pool, xom_free_all_subpages os sp l)
                | _ \<Rightarrow> None)
        })
   }"

definition subpage_pool_lock_into_xom ::
  "'w os \<Rightarrow> u64 \<Rightarrow> u64 \<Rightarrow> subpage_list_entry list \<Rightarrow> 'w libxom \<Rightarrow> (u64 \<times> subpage_list_entry list \<times> 'w libxom) option" where
  "subpage_pool_lock_into_xom os data sz pool l = do {
     (ret, rpool, l) \<leftarrow> try_entries os sz data (rev pool) l;
     (if ret \<noteq> 0 then Some (ret, rev rpool, l) else grow_pool os data sz (rev rpool) l)
   }"

text \<open>The predicate of the search is true of the entries that do not hold the address.\<close>

fun free_in_pool ::
  "'w os \<Rightarrow> u64 \<Rightarrow> subpage_list_entry list \<Rightarrow> 'w libxom \<Rightarrow> (subpage_list_entry list \<times> 'w libxom) option" where
  "free_in_pool os data [] l = Some ([], l)"
| "free_in_pool os data (e # es) l =
     (if data \<notin> buffers_used e
      then let e = e\<lparr>buffers_used := buffers_used e - {data}\<rparr>
           in case subpages e of
                Sp_live sp \<Rightarrow>
                  (let (r, sp, l) = xom_free_subpages os sp data l;
                       e = e\<lparr>subpages := (case sp of Some sp \<Rightarrow> Sp_live sp | None \<Rightarrow> Sp_dangling)\<rparr>
                   in Some (if r = 1 \<and> subpages_used e \<ge> POOL_FREE_THRESHOLD then es else e # es, l))
              | _ \<Rightarrow> None
      else do { (es, l) \<leftarrow> free_in_pool os data es l; Some (e # es, l) })"

definition subpage_pool_free ::
  "'w os \<Rightarrow> u64 \<Rightarrow> subpage_list_entry list \<Rightarrow> 'w libxom \<Rightarrow> (subpage_list_entry list \<times> 'w libxom) option" where
  "subpage_pool_free os data pool l = (if data = 0 then Some (pool, l) else free_in_pool os data pool l)"

fun free_entries :: "'w os \<Rightarrow> subpage_list_entry list \<Rightarrow> 'w libxom \<Rightarrow> 'w libxom option" where
  "free_entries os [] l = Some l"
| "free_entries os (e # es) l =
     (case subpages e of Sp_live sp \<Rightarrow> free_entries os es (xom_free_all_subpages os sp l) | _ \<Rightarrow> None)"

definition destroy_subpage_pool ::
  "'w os \<Rightarrow> subpage_list_entry list \<Rightarrow> 'w libxom \<Rightarrow> (subpage_list_entry list \<times> 'w libxom) option" where
  "destroy_subpage_pool os pool l = do { l \<leftarrow> free_entries os pool l; Some ([], l) }"

subsection \<open>Invariant\<close>

text \<open>
  Every entry has a live buffer of 512 subpages whose addresses do not wrap, and the addresses handed out from it are subpages in it that are
  locked; the buffers of different entries are disjoint.
\<close>

definition pool_buffer :: "xom_subpages \<Rightarrow> bool" where
  "pool_buffer sp \<longleftrightarrow> subpages_ok sp \<and> sp_num_subpages sp = 512 \<and> unat (sp_address sp) + 0x10000 < 2 ^ 64"

definition used_in :: "xom_subpages \<Rightarrow> u64 \<Rightarrow> bool" where
  "used_in sp a \<longleftrightarrow> (\<exists>p < 16. \<exists>s < 32. a = sp_address sp + of_nat p * 4096 + of_nat s * 128 \<and> bit (sp_lock_status sp ! p) s)"

definition entry_ok :: "subpage_list_entry \<Rightarrow> bool" where
  "entry_ok e \<longleftrightarrow> (\<exists>sp. subpages e = Sp_live sp \<and> pool_buffer sp \<and> (\<forall>a \<in> buffers_used e. used_in sp a))"

definition apart :: "subpages_ptr \<Rightarrow> subpages_ptr \<Rightarrow> bool" where
  "apart p q \<longleftrightarrow> (\<forall>sp sq. p = Sp_live sp \<longrightarrow> q = Sp_live sq \<longrightarrow>
     unat (sp_address sp) + 0x10000 \<le> unat (sp_address sq) \<or> unat (sp_address sq) + 0x10000 \<le> unat (sp_address sp))"

definition pool_ok :: "subpage_list_entry list \<Rightarrow> bool" where
  "pool_ok pool \<longleftrightarrow> (\<forall>e \<in> set pool. entry_ok e) \<and> sorted_wrt (\<lambda>e e'. apart (subpages e) (subpages e')) pool"

definition pool_addrs :: "subpage_list_entry list \<Rightarrow> u64 set" where
  "pool_addrs pool = (\<Union>e \<in> set pool. buffers_used e)"

text \<open>What the pool relies on: a new buffer does not overlap with those in use.\<close>

definition alloc_apart :: "'w os \<Rightarrow> subpage_list_entry list \<Rightarrow> bool" where
  "alloc_apart os pool \<longleftrightarrow> (\<forall>l. \<exists>p l'. xom_alloc_subpages os POOL_BUFFER_SIZE l = Some (p, l') \<and> p \<noteq> Sp_dangling
     \<and> (\<forall>sp. p = Sp_live sp \<longrightarrow> unat (sp_address sp) + 0x10000 < 2 ^ 64 \<and> (\<forall>e \<in> set pool. apart (subpages e) p)))"

subsection \<open>Preservation\<close>

lemma pool_address_inj:
  assumes "p < 16" "s < 32" "p' < 16" "s' < 32" "(of_nat p :: u64) * 4096 + of_nat s * 128 = of_nat p' * 4096 + of_nat s' * 128"
  shows "p = p'" "s = s'"
proof -
  have u: "unat ((of_nat x :: u64) * 4096 + of_nat y * 128) = (x * 32 + y) * 128" if "x < 16" "y < 32" for x y
    using that by (simp add: unat_word_ariths unat_of_nat)
  have "(p * 32 + s) * 128 = (p' * 32 + s') * 128" using u[OF assms(1,2)] u[OF assms(3,4)] assms(5) by metis
  then have e: "p * 32 + s = p' * 32 + s'" by simp
  then have "(p * 32 + s) div 32 = (p' * 32 + s') div 32" by simp
  then show "p = p'" using assms(2,4) by simp
  with e show "s = s'" by simp
qed

lemma fill_pool_buffer:
  assumes "pool_buffer sp" "os_malloc os 4"
  shows "\<exists>ret sp' l'. xom_fill_and_lock_subpages os sp sz data l = Some (ret, sp', l') \<and> pool_buffer sp' \<and> sp_address sp' = sp_address sp
    \<and> (\<forall>a. used_in sp a \<longrightarrow> used_in sp' a) \<and> (ret \<noteq> 0 \<longrightarrow> used_in sp' ret \<and> \<not> used_in sp ret)"
proof -
  have ok: "subpages_ok sp" "fill_pages sp = 16" using assms(1) by (simp_all add: pool_buffer_def fill_pages_def)
  show ?thesis
  proof (rule fill_cases[OF ok(1) assms(2), of sz data "libxom_prologue os l"])
    fix l' assume "xom_fill_and_lock_subpages_internal os sp sz data (libxom_prologue os l) = Some (0, sp, l')"
    with assms(1) show ?thesis by (auto simp: xom_fill_and_lock_subpages_def)
  next
    fix n p s l'
    let ?a = "sp_address sp + of_nat p * 4096 + of_nat s * 128" and ?sp = "add_run sp n p s"
    assume n: "1 \<le> n" "p < fill_pages sp" "s + n \<le> 32" "run_free (sp_lock_status sp) n p s"
      and r: "xom_fill_and_lock_subpages_internal os sp sz data (libxom_prologue os l) = Some (?a, ?sp, l')"
    have l: "16 \<le> length (sp_lock_status sp)" using fill_pages_code(2)[OF ok(1)] ok(2) by simp
    have ps: "p < 16" "s < 32" using n ok(2) by simp_all
    have b: "pool_buffer ?sp" "sp_address ?sp = sp_address sp" using assms(1) by (auto simp: pool_buffer_def add_run_def subpages_ok_def)
    have bits: "q < 16 \<Longrightarrow> bit (sp_lock_status ?sp ! q) i \<longleftrightarrow> bit (sp_lock_status sp ! q) i \<or> q = p \<and> s \<le> i \<and> i < s + n" for q i
      using add_run_bits[OF n(3)] l ps(1) by simp
    have "used_in ?sp a" if "used_in sp a" for a using that bits unfolding used_in_def b(2) by blast
    moreover have "used_in ?sp ?a" unfolding used_in_def b(2) using ps bits n(1) by (intro exI[of _ p] conjI exI[of _ s]) simp_all
    moreover have "\<not> bit (sp_lock_status sp ! p) s" using n(1,4) by (auto simp: run_free_def dest: spec[of _ 0])
    then have "\<not> used_in sp ?a" unfolding used_in_def using pool_address_inj[OF ps] by (auto simp: add.assoc)
    ultimately show ?thesis using r b by (auto simp: xom_fill_and_lock_subpages_def)
  qed
qed

lemma update_entry_fields:
  assumes "update_entry os e sp sz ret l = (e', l')"
  shows "subpages e' = subpages e" "buffers_used e' = insert ret (buffers_used e)"
  using assms by (auto simp: update_entry_def Let_def case_prod_unfold split: if_splits)

text \<open>Filling one entry hands out an address that was not in use in it.\<close>

lemma fill_entry_ok:
  assumes "entry_ok e" "os_malloc os 4"
  shows "\<exists>ret e' l'. fill_entry os e sz data l = Some (ret, e', l') \<and> entry_ok e'
    \<and> (\<exists>sp sp'. subpages e = Sp_live sp \<and> subpages e' = Sp_live sp' \<and> sp_address sp' = sp_address sp \<and> (ret \<noteq> 0 \<longrightarrow> used_in sp' ret))
    \<and> buffers_used e' = (if ret = 0 then buffers_used e else insert ret (buffers_used e)) \<and> (ret \<noteq> 0 \<longrightarrow> ret \<notin> buffers_used e)"
proof -
  from assms(1) obtain sp where sp: "subpages e = Sp_live sp" "pool_buffer sp" "\<forall>a \<in> buffers_used e. used_in sp a" by (auto simp: entry_ok_def)
  from fill_pool_buffer[OF sp(2) assms(2), of sz data l] obtain ret sp' l1 where
    f: "xom_fill_and_lock_subpages os sp sz data l = Some (ret, sp', l1)" "pool_buffer sp'" "sp_address sp' = sp_address sp"
    "\<forall>a. used_in sp a \<longrightarrow> used_in sp' a" "ret \<noteq> 0 \<longrightarrow> used_in sp' ret \<and> \<not> used_in sp ret" by blast
  obtain e2 l2 where u: "update_entry os (e\<lparr>subpages := Sp_live sp'\<rparr>) sp' sz ret l1 = (e2, l2)" by fastforce
  note e2 = update_entry_fields[OF u, simplified]
  have c: "fill_entry os e sz data l = (if ret = 0 then Some (0, e\<lparr>subpages := Sp_live sp'\<rparr>, l1) else Some (ret, e2, l2))"
    using sp(1) f(1) u by (simp add: fill_entry_def)
  show ?thesis
  proof (cases "ret = 0")
    case True
    have "entry_ok (e\<lparr>subpages := Sp_live sp'\<rparr>)" using sp(3) f(2,4) by (simp add: entry_ok_def)
    moreover have "fill_entry os e sz data l = Some (ret, e\<lparr>subpages := Sp_live sp'\<rparr>, l1)" using c True by simp
    ultimately show ?thesis using True sp(1) f(3) by (intro exI[of _ ret] exI[of _ "e\<lparr>subpages := Sp_live sp'\<rparr>"] exI[of _ l1]) simp
  next
    case False
    then have "entry_ok e2" "ret \<notin> buffers_used e" using e2 sp(3) f(2,4,5) unfolding entry_ok_def by auto
    moreover have "fill_entry os e sz data l = Some (ret, e2, l2)" using c False by simp
    ultimately show ?thesis using False sp(1) f(3,5) e2 by (intro exI[of _ ret] exI[of _ e2] exI[of _ l2]) simp
  qed
qed

lemma used_in_range:
  assumes "pool_buffer sp" "used_in sp a"
  shows "unat (sp_address sp) \<le> unat a" "unat a < unat (sp_address sp) + 0x10000"
proof -
  from assms(2) obtain p s where ps: "p < 16" "s < 32" "a = sp_address sp + of_nat p * 4096 + of_nat s * 128" by (auto simp: used_in_def)
  then have "unat a = unat (sp_address sp) + (p * 32 + s) * 128" using assms(1) by (simp add: pool_buffer_def unat_word_ariths unat_of_nat)
  then show "unat (sp_address sp) \<le> unat a" "unat a < unat (sp_address sp) + 0x10000" using ps by simp_all
qed

lemma apart_unused:
  assumes "entry_ok e" "subpages e' = Sp_live sp" "pool_buffer sp" "used_in sp a" "apart (subpages e) (subpages e')"
  shows "a \<notin> buffers_used e"
proof
  assume a: "a \<in> buffers_used e"
  obtain sp' where sp': "subpages e = Sp_live sp'" "pool_buffer sp'" "used_in sp' a" using assms(1) a by (auto simp: entry_ok_def)
  with used_in_range[OF sp'(2,3)] used_in_range[OF assms(3,4)] assms(2,5) show False by (auto simp: apart_def)
qed

lemma apart_sym: "apart p q \<longleftrightarrow> apart q p"
  by (auto simp: apart_def)

text \<open>Entries before and after an operation have their buffers at the same address.\<close>

definition same_place :: "subpage_list_entry \<Rightarrow> subpage_list_entry \<Rightarrow> bool" where
  "same_place e e' \<longleftrightarrow> (\<exists>sp sp'. subpages e = Sp_live sp \<and> subpages e' = Sp_live sp' \<and> sp_address sp' = sp_address sp)"

lemma same_place_refl: "entry_ok e \<Longrightarrow> same_place e e"
  by (auto simp: entry_ok_def same_place_def)

lemma same_place_apart: "same_place e e' \<Longrightarrow> apart (subpages e) p \<longleftrightarrow> apart (subpages e') p"
  by (auto simp: same_place_def apart_def)

lemma sorted_same_place:
  assumes "list_all2 same_place es es'" "sorted_wrt (\<lambda>e e'. apart (subpages e) (subpages e')) es"
  shows "sorted_wrt (\<lambda>e e'. apart (subpages e) (subpages e')) es'"
proof -
  have "apart (subpages (es' ! i)) (subpages (es' ! j))" if "i < j" "j < length es'" for i j
  proof -
    have "same_place (es ! i) (es' ! i)" "same_place (es ! j) (es' ! j)" "apart (subpages (es ! i)) (subpages (es ! j))"
      using assms that by (auto simp: list_all2_conv_all_nth sorted_wrt_iff_nth_less)
    then show ?thesis using same_place_apart apart_sym by metis
  qed
  then show ?thesis by (simp add: sorted_wrt_iff_nth_less)
qed

text \<open>What placing data in one of the entries does: \<open>ret\<close> is 0 or a new address in one of them.\<close>

definition placed :: "u64 \<Rightarrow> subpage_list_entry list \<Rightarrow> subpage_list_entry list \<Rightarrow> bool" where
  "placed ret es es' \<longleftrightarrow> list_all2 same_place es es' \<and> (\<forall>e \<in> set es'. entry_ok e)
     \<and> pool_addrs es' = (if ret = 0 then pool_addrs es else insert ret (pool_addrs es))
     \<and> (ret \<noteq> 0 \<longrightarrow> ret \<notin> pool_addrs es \<and> (\<exists>e \<in> set es'. \<exists>sp. subpages e = Sp_live sp \<and> pool_buffer sp \<and> used_in sp ret))"

lemma placed_later:
  assumes "placed ret es es'" "entry_ok e" "entry_ok e'" "same_place e e'" "buffers_used e' = buffers_used e" "\<forall>f \<in> set es. apart (subpages e) (subpages f)"
  shows "placed ret (e # es) (e' # es')"
proof -
  have "ret \<notin> buffers_used e" if "ret \<noteq> 0"
  proof -
    from that assms(1) obtain f sp where f: "f \<in> set es'" "subpages f = Sp_live sp" "pool_buffer sp" "used_in sp ret" by (auto simp: placed_def)
    then obtain i where i: "f = es' ! i" "i < length es'" by (auto simp: in_set_conv_nth)
    with assms(1) have "same_place (es ! i) f" "i < length es" by (auto simp: placed_def list_all2_conv_all_nth)
    then have "apart (subpages e) (subpages f)" using assms(6) same_place_apart apart_sym by (metis nth_mem)
    from apart_unused[OF assms(2) f(2-4) this] show ?thesis .
  qed
  with assms(1,3-5) show ?thesis by (auto simp: placed_def pool_addrs_def)
qed

lemma placed_here:
  assumes "entry_ok e'" "\<forall>f \<in> set es. entry_ok f" "subpages e = Sp_live sp" "subpages e' = Sp_live sp'" "sp_address sp' = sp_address sp"
    "used_in sp' ret" "buffers_used e' = insert ret (buffers_used e)" "ret \<noteq> 0" "ret \<notin> buffers_used e" "\<forall>f \<in> set es. apart (subpages e) (subpages f)"
  shows "placed ret (e # es) (e' # es)"
proof -
  have b: "pool_buffer sp'" using assms(1,4) by (auto simp: entry_ok_def)
  have p: "same_place e e'" using assms(3-5) by (auto simp: same_place_def)
  have "ret \<notin> buffers_used f" if "f \<in> set es" for f
  proof -
    have "apart (subpages f) (subpages e')" using assms(10) that p same_place_apart apart_sym by metis
    from apart_unused[OF _ assms(4) b assms(6) this] assms(2) that show ?thesis by blast
  qed
  then have "ret \<notin> pool_addrs es" by (auto simp: pool_addrs_def)
  moreover have "list_all2 same_place es es" using assms(2) same_place_refl by (simp add: list_all2_same)
  ultimately show ?thesis using assms(1,2,4,6-9) b p by (auto simp: placed_def pool_addrs_def)
qed

lemma try_entries_ok:
  assumes "os_malloc os 4"
  shows "\<forall>e \<in> set es. entry_ok e \<Longrightarrow> sorted_wrt (\<lambda>e e'. apart (subpages e) (subpages e')) es \<Longrightarrow>
    \<exists>ret es' l'. try_entries os sz data es l = Some (ret, es', l') \<and> placed ret es es'"
proof (induction es arbitrary: l)
  case (Cons e es)
  have ok: "entry_ok e" "\<forall>f \<in> set es. entry_ok f" "\<forall>f \<in> set es. apart (subpages e) (subpages f)" using Cons.prems by simp_all
  have IH: "\<exists>ret es' l'. try_entries os sz data es l = Some (ret, es', l') \<and> placed ret es es'" for l using Cons by simp
  show ?case
  proof (cases "POOL_SUBPAGES - subpages_used e < bytes_to_subpages sz")
    case True
    from IH[of l] obtain ret es' l' where r: "try_entries os sz data es l = Some (ret, es', l')" "placed ret es es'" by blast
    from placed_later[OF r(2) ok(1,1) same_place_refl[OF ok(1)] refl ok(3)] r(1) True show ?thesis by auto
  next
    case False
    from fill_entry_ok[OF ok(1) assms, of sz data l] obtain ret e' l1 sp sp' where
      f: "fill_entry os e sz data l = Some (ret, e', l1)" "entry_ok e'" "subpages e = Sp_live sp" "subpages e' = Sp_live sp'"
      "sp_address sp' = sp_address sp" "ret \<noteq> 0 \<longrightarrow> used_in sp' ret"
      "buffers_used e' = (if ret = 0 then buffers_used e else insert ret (buffers_used e))" "ret \<noteq> 0 \<longrightarrow> ret \<notin> buffers_used e" by blast
    show ?thesis
    proof (cases "ret = 0")
      case True
      from IH[of l1] obtain r es' l' where r: "try_entries os sz data es l1 = Some (r, es', l')" "placed r es es'" by blast
      have "same_place e e'" using f(3-5) by (auto simp: same_place_def)
      from placed_later[OF r(2) ok(1) f(2) this _ ok(3)] f(7) True have "placed r (e # es) (e' # es')" by simp
      then show ?thesis using False True f(1) r(1) by auto
    next
      case ret: False
      then have "placed ret (e # es) (e' # es)" using placed_here[OF f(2) ok(2) f(3-5) _ _ ret _ ok(3)] f(6-8) by simp
      then show ?thesis using False ret f(1) by auto
    qed
  qed
qed (simp add: placed_def pool_addrs_def)

lemma new_entry_ok:
  assumes "xom_alloc_subpages os POOL_BUFFER_SIZE l = Some (Sp_live sp, l')" "unat (sp_address sp) + 0x10000 < 2 ^ 64"
  shows "entry_ok (new_entry sp)"
proof -
  from assms(1) have a: "xom_alloc_subpages_internal os POOL_BUFFER_SIZE (libxom_prologue os l) = Some (Sp_live sp, l')"
    by (simp add: xom_alloc_subpages_def)
  from alloc_subpages_new(2)[OF a] have "sp_num_subpages sp = 512" by (auto simp: new_subpages_def subpage_count_def)
  with alloc_subpages_ok[OF a] assms(2) show ?thesis by (simp add: entry_ok_def pool_buffer_def new_entry_def)
qed

lemma pool_ok_rev: "pool_ok (rev pool) \<longleftrightarrow> pool_ok pool"
  by (simp add: pool_ok_def sorted_wrt_rev apart_sym)

lemma placed_pool_ok: "pool_ok es \<Longrightarrow> placed ret es es' \<Longrightarrow> pool_ok es'"
  using sorted_same_place by (auto simp: pool_ok_def placed_def)

lemma pool_ok_push:
  assumes "pool_ok es" "entry_ok e" "\<forall>f \<in> set es. apart (subpages f) (subpages e)"
  shows "pool_ok (es @ [e])"
  using assms by (simp add: pool_ok_def sorted_wrt_append)

lemma pool_addrs_simps: "pool_addrs (rev es) = pool_addrs es" "pool_addrs (es @ es') = pool_addrs es \<union> pool_addrs es'"
  "pool_addrs [e] = buffers_used e"
  by (simp_all add: pool_addrs_def)

lemma placed_apart:
  assumes "placed ret es es'" "\<forall>e \<in> set es. apart (subpages e) p" "f \<in> set es'"
  shows "apart (subpages f) p"
proof -
  obtain i where i: "f = es' ! i" "i < length es'" using assms(3) by (auto simp: in_set_conv_nth)
  then have "same_place (es ! i) f" "es ! i \<in> set es" using assms(1) by (auto simp: placed_def list_all2_conv_all_nth)
  with assms(2) same_place_apart show ?thesis by metis
qed

text \<open>The new buffer, when no existing one had room.\<close>

lemma pool_grow:
  assumes "pool_ok es" "alloc_apart os es" "os_malloc os 4"
  shows "\<exists>ret pool' l'. grow_pool os data sz es l = Some (ret, pool', l')
    \<and> pool_ok pool' \<and> (if ret = 0 then pool_addrs pool' = pool_addrs es
       else ret \<notin> pool_addrs es \<and> pool_addrs pool' = insert ret (pool_addrs es))"
proof -
  from assms(2) obtain p l1 where a: "xom_alloc_subpages os POOL_BUFFER_SIZE l = Some (p, l1)" "p \<noteq> Sp_dangling"
    "\<And>sp. p = Sp_live sp \<Longrightarrow> unat (sp_address sp) + 0x10000 < 2 ^ 64 \<and> (\<forall>e \<in> set es. apart (subpages e) p)"
    unfolding alloc_apart_def by blast
  show ?thesis
  proof (cases p)
    case (Sp_live sp)
    note sp = a(3)[OF Sp_live]
    have new: "entry_ok (new_entry sp)" using new_entry_ok a(1) sp Sp_live by blast
    have sel: "subpages (new_entry sp) = Sp_live sp" "buffers_used (new_entry sp) = {}" by (simp_all add: new_entry_def)
    from fill_entry_ok[OF new assms(3), of sz data l1, unfolded sel] obtain ret e' l2 sp' where
      f: "fill_entry os (new_entry sp) sz data l1 = Some (ret, e', l2)" "entry_ok e'" "subpages e' = Sp_live sp'"
      "sp_address sp' = sp_address sp" "ret \<noteq> 0 \<longrightarrow> used_in sp' ret" "buffers_used e' = (if ret = 0 then {} else {ret})"
      by (metis subpages_ptr.inject)
    show ?thesis
    proof (cases "ret = 0")
      case True
      then show ?thesis using a(1) Sp_live f(1,3) assms(1) by (simp add: grow_pool_def)
    next
      case False
      have ap: "\<forall>g \<in> set es. apart (subpages g) (subpages e')" using sp f(3,4) Sp_live by (simp add: apart_def)
      have g: "entry_ok g" if "g \<in> set es" for g using assms(1) that by (simp add: pool_ok_def)
      have b: "pool_buffer sp'" using f(2,3) by (simp add: entry_ok_def)
      have "ret \<notin> buffers_used g" if "g \<in> set es" for g
        using apart_unused[OF g[OF that] f(3) b] f(5) False ap that by blast
      then have "ret \<notin> pool_addrs es" by (auto simp: pool_addrs_def)
      then show ?thesis using a(1) Sp_live f(1,6) False pool_ok_push[OF assms(1) f(2) ap] by (simp add: grow_pool_def pool_addrs_simps)
    qed
  qed (use a assms(1) in \<open>simp_all add: grow_pool_def\<close>)
qed

lemma alloc_apart_placed: "alloc_apart os es \<Longrightarrow> placed ret es es' \<Longrightarrow> alloc_apart os es'"
  unfolding alloc_apart_def by (metis (no_types, lifting) placed_apart)


text \<open>A pool with one buffer and one address in use, on a system whose mappings are all at one address elsewhere.\<close>

definition sample_pool :: "subpage_list_entry list" where
  "sample_pool = [\<lparr>subpages = Sp_live \<lparr>sp_address = 0x10000, sp_mode = XOM_MODE_SLAT, sp_lock_status = 1 # replicate 15 0, sp_num_subpages = 512,
     references = 1\<rparr>, last_page_marked = 0x10000, subpages_used = 1, buffers_used = {0x10000}\<rparr>]"

definition pool_os :: "u8 list list os" where
  "pool_os = sample_os\<lparr>os_mmap := (\<lambda>_ _ _ _ _ w. (0x420000000000, w))\<rparr>"

lemma sample_pool_ok: "pool_ok sample_pool"
proof -
  have "used_in \<lparr>sp_address = 0x10000, sp_mode = XOM_MODE_SLAT, sp_lock_status = 1 # replicate 15 0, sp_num_subpages = 512, references = 1\<rparr> 0x10000"
    unfolding used_in_def by (intro exI[of _ 0] conjI) simp_all
  then show ?thesis by (simp add: pool_ok_def sample_pool_def entry_ok_def pool_buffer_def subpages_ok_def)
qed

lemma pool_os_address: "unat (0x420000000000 :: u64) + 0x10000 < 2 ^ 64"
  by simp

lemma sample_alloc_apart: "alloc_apart pool_os sample_pool"
proof -
  have "\<exists>p l'. xom_alloc_subpages pool_os POOL_BUFFER_SIZE l = Some (p, l') \<and> (p = Sp_null \<or> (\<exists>sp. p = Sp_live sp \<and> sp_address sp = 0x420000000000))" for l
    by (simp add: xom_alloc_subpages_def xom_alloc_subpages_internal_def xomalloc_page_internal_def pool_os_def sample_os_def alloc_chunks.simps
        lib_mmap_def lib_write_def syscall_ret_def new_subpages_def Let_def)
  moreover have "apart (subpages e) (Sp_live sp)" if "e \<in> set sample_pool" "sp_address sp = 0x420000000000" for e sp
    using that by (simp add: sample_pool_def apart_def)
  ultimately show ?thesis unfolding alloc_apart_def
    by (metis (no_types, lifting) subpages_ptr.inject subpages_ptr.distinct pool_os_address)
qed


subsection \<open>Giving memory back, and marking\<close>

lemma free_outside:
  assumes "pool_buffer sp" "a < sp_address sp \<or> unat (sp_address sp) + 0x10000 \<le> unat a"
  shows "xom_free_subpages os sp a l = (- 1, Some sp, libxom_prologue os l)"
proof -
  have "unat (sp_address sp + sp_num_subpages sp * 128) = unat (sp_address sp) + 0x10000" using assms(1) by (simp add: pool_buffer_def unat_word_ariths)
  then show ?thesis using assms(2) by (auto simp: xom_free_subpages_def xom_free_subpages_internal_def word_le_nat_alt word_less_nat_alt)
qed

lemma free_in_pool_nothing:
  assumes "\<forall>e \<in> set es. entry_ok e \<and> (a \<in> buffers_used e \<or> (\<forall>sp. subpages e = Sp_live sp \<longrightarrow> a < sp_address sp \<or> unat (sp_address sp) + 0x10000 \<le> unat a))"
  shows "free_in_pool os a es l = Some (es, l) \<or> free_in_pool os a es l = Some (es, libxom_prologue os l)"
  using assms
proof (induction es)
  case (Cons e es)
  show ?case
  proof (cases "a \<in> buffers_used e")
    case False
    obtain sp where sp: "subpages e = Sp_live sp" "pool_buffer sp" using Cons.prems by (auto simp: entry_ok_def)
    with False Cons.prems have "a < sp_address sp \<or> unat (sp_address sp) + 0x10000 \<le> unat a" by simp
    moreover have "e\<lparr>buffers_used := buffers_used e - {a}, subpages := Sp_live sp\<rparr> = e" using sp(1) False by simp
    ultimately show ?thesis using free_outside[OF sp(2), of a os l] False sp(1) by simp
  qed (use Cons in auto)
qed simp

text \<open>
  C39: giving memory back to the pool gives nothing back. For an address that is in use, the search finds an entry that does not hold it, or none: the pool
  stays as it is, with the address in use and the subpages locked, and no memory is released.
\<close>

theorem pool_free_releases_nothing:
  assumes "pool_ok pool" "a \<in> pool_addrs pool"
  shows "\<exists>l'. subpage_pool_free os a pool l = Some (pool, l') \<and> l' \<in> {l, libxom_prologue os l}"
proof -
  from assms(2) obtain f where f: "f \<in> set pool" "a \<in> buffers_used f" by (auto simp: pool_addrs_def)
  with assms(1) obtain sf where sf: "subpages f = Sp_live sf" "pool_buffer sf" "used_in sf a" by (auto simp: pool_ok_def entry_ok_def)
  have "a < sp_address sp \<or> unat (sp_address sp) + 0x10000 \<le> unat a" if "e \<in> set pool" "a \<notin> buffers_used e" "subpages e = Sp_live sp" for e sp
  proof -
    have "e \<noteq> f" using f(2) that(2) by blast
    then have "apart (subpages e) (subpages f)" using assms(1) that(1) f(1) apart_sym
      by (auto simp: pool_ok_def sorted_wrt_iff_nth_less in_set_conv_nth) (metis linorder_neqE_nat)
    then show ?thesis using used_in_range[OF sf(2,3)] sf(1) that(3) by (auto simp: apart_def word_less_nat_alt)
  qed
  then have "\<forall>e \<in> set pool. entry_ok e \<and> (a \<in> buffers_used e \<or> (\<forall>sp. subpages e = Sp_live sp \<longrightarrow> a < sp_address sp \<or> unat (sp_address sp) + 0x10000 \<le> unat a))"
    using assms(1) by (auto simp: pool_ok_def)
  from free_in_pool_nothing[OF this, of os l] show ?thesis by (auto simp: subpage_pool_free_def)
qed

theorem pool_free_releases_nothing_witness:
  "subpage_pool_free sample_os 0x10000 sample_pool sample_lib = Some (sample_pool, sample_lib)"
  using pool_free_releases_nothing[OF sample_pool_ok, of "0x10000" sample_os sample_lib]
  by (simp add: pool_addrs_def sample_pool_def libxom_prologue_def sample_lib_def sample_os_def)

text \<open>
  No page of the pool is ever marked for register clearing. When data has been placed in a page that the pool takes for not yet marked, it asks the library to mark it;
  the library refuses, because the buffer it builds for the request has no process id, the pool ignores this and
  records the page as marked. No command is sent: the library and the system are as before.
\<close>

lemma pool_pages_unmarked:
  assumes "libxom_pid l = os_pid os" "os_pid os \<noteq> 0" "xom_mode l = XOM_MODE_SLAT" "last_page_marked e < page_addr ret"
  shows "\<exists>e'. update_entry os e sp sz ret l = (e', l) \<and> last_page_marked e' = page_addr ret"
proof -
  have p: "libxom_prologue os l = l" using assms(1) by (simp add: libxom_prologue_def)
  have "\<exists>r. xom_mark_register_clear_subpage os sp False n l = (r, l)" for n
    using assms(1,2) by (simp add: xom_mark_register_clear_subpage_def xom_mark_register_clear_def mark_register_clear_internal_def p Let_def)
  then have "snd (xom_mark_register_clear_subpage os sp False n l) = l" for n by (metis snd_conv)
  then show ?thesis using assms(3,4) by (simp add: update_entry_def get_xom_mode_def p case_prod_unfold)
qed

end
