(* ===== verification/Aes_Ctr.thy ===== *)
theory Aes_Ctr
  imports Aesni_Main Subpage_Pool
begin

text \<open>
  AES-128 in counter mode of the OpenSSL provider: \<^verbatim>\<open>openssl-provider/src/xom_aes_128_ctr.c\<close> and \<^verbatim>\<open>xom_aes_common.c\<close>, with the calls of the assembly routine from
  \<^verbatim>\<open>include/aes_xom.h\<close>.

  Buffers of the caller are lists of bytes with their addresses; the addresses decide whether a buffer is copied because it is not aligned, and whether
  the operation is done in place. Access outside of a buffer and use of memory that was freed are \<^const>\<open>None\<close>, and so is a loop that does not end.
\<close>

subsection \<open>Contexts\<close>

record ctr_ctx =
  oiv :: block
  iv :: block
  block :: block
  refcount :: nat
  block_offset :: u8
  aes_fun :: u64
  num :: u32
  ctr :: u32
  has_vaes :: bool
  marked_ctx :: bool

record 'w provider =
  ctr_ctxs :: "nat \<rightharpoonup> ctr_ctx"
  refcounts :: "nat \<rightharpoonup> u32"
  pool :: "subpage_list_entry list"
  xomlib :: "'w libxom"

text \<open>The addresses of new objects are arguments.\<close>

definition aes_128_ctr_newctx :: "bool \<Rightarrow> nat \<Rightarrow> nat \<Rightarrow> 'w provider \<Rightarrow> 'w provider" where
  "aes_128_ctr_newctx vaes a r st =
     st\<lparr>ctr_ctxs := (ctr_ctxs st)(a \<mapsto> \<lparr>oiv = replicate 16 0, iv = replicate 16 0, block = replicate 16 0, refcount = r, block_offset = 0,
          aes_fun = 0, num = 0, ctr = 0, has_vaes = vaes, marked_ctx = False\<rparr>),
        refcounts := (refcounts st)(r \<mapsto> 1)\<rparr>"

definition aes_128_ctr_freectx :: "'w os \<Rightarrow> nat \<Rightarrow> 'w provider \<Rightarrow> 'w provider option" where
  "aes_128_ctr_freectx os a st = do {
     ctx \<leftarrow> ctr_ctxs st a;
     n \<leftarrow> refcounts st (refcount ctx);
     st \<leftarrow> (if n - 1 = 0
       then do {
         (pl, l) \<leftarrow> subpage_pool_free os (aes_fun ctx) (pool st) (xomlib st);
         Some (st\<lparr>pool := pl, xomlib := l, refcounts := (refcounts st)(refcount ctx := None)\<rparr>)
       }
       else Some (st\<lparr>refcounts := (refcounts st)(refcount ctx \<mapsto> n - 1)\<rparr>));
     Some (st\<lparr>ctr_ctxs := (ctr_ctxs st)(a := None)\<rparr>)
   }"

definition aes_128_ctr_dupctx :: "nat \<Rightarrow> nat \<Rightarrow> 'w provider \<Rightarrow> 'w provider option" where
  "aes_128_ctr_dupctx a ret st = do {
     ctx \<leftarrow> ctr_ctxs st a;
     n \<leftarrow> refcounts st (refcount ctx);
     Some (st\<lparr>ctr_ctxs := (ctr_ctxs st)(ret \<mapsto> ctx), refcounts := (refcounts st)(refcount ctx \<mapsto> n + 1)\<rparr>)
   }"

subsection \<open>Key and initialisation\<close>

text \<open>
  The assembled routines are given by their bytes and by the offsets of the two instructions that load the key; the immediate operand starts after two bytes of opcode.
\<close>

record aes_image =
  image :: "u8 list"
  key_lo_at :: nat
  key_hi_at :: nat

definition copy_to :: "'a list \<Rightarrow> nat \<Rightarrow> 'a list \<Rightarrow> 'a list" where
  "copy_to dest off src = take off dest @ src @ drop (off + length src) dest"

definition setup_128_key :: "aes_image \<Rightarrow> u8 list \<Rightarrow> u8 list \<Rightarrow> u8 list" where
  "setup_128_key im dest key =
     copy_to (copy_to dest (key_lo_at im + 2) (take 8 key)) (key_hi_at im + 2) (take 8 (drop 8 key))"

definition load_ctr :: "block \<Rightarrow> u32" where
  "load_ctr b = of_nat (le_val (rev (drop 12 b)))"

definition store_ctr :: "u32 \<Rightarrow> block \<Rightarrow> block" where
  "store_ctr d b = take 12 b @ rev (le_bytes 4 (unat d))"

text \<open>
  The staging buffer is at an address that is an argument; its bytes after the code stay as they were. The result is the return value and the state; the
  context is changed even if memory for the code is not to be had.
\<close>

definition aes_128_ctr_init ::
  "'w os \<Rightarrow> aes_image \<Rightarrow> aes_image \<Rightarrow> u64 \<Rightarrow> nat \<Rightarrow> u8 list \<Rightarrow> u8 list \<Rightarrow> 'w provider \<Rightarrow> (int \<times> 'w provider) option" where
  "aes_128_ctr_init os vaes_im aesni_im staging a key ivec st = do {
     ctx \<leftarrow> ctr_ctxs st a;
     (if length key \<noteq> 16 \<or> length ivec \<noteq> 16 then Some (0, st)
      else let im = (if has_vaes ctx then vaes_im else aesni_im);
               code = setup_128_key im (image im) key;
               l = xomlib st;
               l = l\<lparr>world := os_store os staging code (world l)\<rparr>;
               ctx = ctx\<lparr>oiv := ivec, iv := ivec, ctr := load_ctr ivec\<rparr>
           in do {
             (f, pl, l) \<leftarrow> subpage_pool_lock_into_xom os staging (of_nat (length (image im))) (pool st) l;
             Some (if f = 0 then 0 else 1,
               st\<lparr>ctr_ctxs := (ctr_ctxs st)(a \<mapsto> ctx\<lparr>aes_fun := f\<rparr>), pool := pl, xomlib := l\<rparr>)
           })
   }"

subsection \<open>Encryption and decryption\<close>

text \<open>
  A routine for counter mode takes its own address, the counter block, the blocks at the input and at the output pointer, whether the two pointers are the
  same, the number of blocks, and the CPU; it returns the number of remaining blocks.
\<close>

type_synonym 'c aes_impl = "u64 \<Rightarrow> block \<Rightarrow> block list \<Rightarrow> block list \<Rightarrow> bool \<Rightarrow> u32 \<Rightarrow> 'c \<Rightarrow> (u64 \<times> block list \<times> 'c) option"

definition call_aes_implementation :: "'c aes_impl \<Rightarrow> 'c aes_impl \<Rightarrow> ctr_ctx \<Rightarrow> 'c aes_impl" where
  "call_aes_implementation vaes aesni ctx = (if has_vaes ctx then vaes else aesni)"

text \<open>
  The routine for AES-NI runs the code that the CPU fetches at its address; \<open>clr\<close> and \<open>intr\<close> are those of \<^const>\<open>aes_aesni_gctr_linear\<close>.
\<close>

record aes_cpu =
  cpu_regs :: cpu_user_regs
  cpu_xmm :: "nat \<Rightarrow> block"
  cpu_time :: nat

definition imm64 :: "u8 list \<Rightarrow> nat \<Rightarrow> u64" where
  "imm64 code at = of_nat (le_val (take 8 (drop (at + 2) code)))"

definition call_aesni_implementation :: "aes_image \<Rightarrow> (u64 \<Rightarrow> u8 list) \<Rightarrow> instr \<Rightarrow> (nat \<Rightarrow> bool) \<Rightarrow> aes_cpu aes_impl" where
  "call_aesni_implementation im fetch clr intr f icb x y same num_blocks c = do {
     (r, t, s) \<leftarrow> aes_aesni_gctr_linear clr intr (imm64 (fetch f) (key_lo_at im)) (imm64 (fetch f) (key_hi_at im)) icb (cpu_time c)
        \<lparr>gp = (cpu_regs c)\<lparr>rip := f, rcx := ucast num_blocks\<rparr>, xmm = cpu_xmm c, pos = 0, inp = x, outp = y, in_place = same\<rparr>;
     Some (r, outp s, \<lparr>cpu_regs = gp s, cpu_xmm = xmm s, cpu_time = t\<rparr>)
   }"

definition to_blocks :: "u8 list \<Rightarrow> block list" where
  "to_blocks bs = map (\<lambda>i. take 16 (drop (16 * i) bs)) [0..<length bs div 16]"

definition from_blocks :: "block list \<Rightarrow> u8 list \<Rightarrow> u8 list" where
  "from_blocks ys bs = concat ys @ drop (16 * length ys) bs"

text \<open>The loop of \<^verbatim>\<open>aes_128_ctr_cipher\<close>; byte offsets are computed in 32 bits.\<close>

partial_function (option) cipher_loop ::
  "'c aes_impl \<Rightarrow> bool \<Rightarrow> block list \<Rightarrow> u32 \<Rightarrow> u32 \<Rightarrow> ctr_ctx \<Rightarrow> block list \<Rightarrow> 'c \<Rightarrow> (ctr_ctx \<times> block list \<times> 'c) option" where
  "cipher_loop call same xs num_out_blocks num_in_blocks ctx ys c =
     (if num_in_blocks = 0 then Some (ctx, ys, c)
      else let k = unat ((num_out_blocks - num_in_blocks) * 16) div 16
           in do {
             (r, zs, c) \<leftarrow> call (aes_fun ctx) (iv ctx) (drop k xs) (drop k ys) same num_in_blocks c;
             (let ys = take k ys @ zs;
                  blocks_processed = num_in_blocks - ucast r
              in if blocks_processed > num_in_blocks then Some (ctx, ys, c)
                 else let d = ctr ctx + blocks_processed
                      in cipher_loop call same xs num_out_blocks (num_in_blocks - blocks_processed)
                           (ctx\<lparr>ctr := d, iv := store_ctr d (iv ctx)\<rparr>) ys c)
           })"

text \<open>
  Buffers that are not aligned to 32 bytes are copied; \<open>copies_fit\<close> says that the copies, whose size is computed in 32 bits, are not too small and that the copy of the
  output buffer does not read beyond it. The result is the return value, the number of bytes, the context, the output buffer and the CPU.
\<close>

definition copies_fit :: "nat \<Rightarrow> u8 list \<Rightarrow> nat \<Rightarrow> u32 \<Rightarrow> bool" where
  "copies_fit out outb ina num_in_blocks \<longleftrightarrow>
     (out mod 32 = 0 \<or> 16 * unat num_in_blocks = unat (num_in_blocks * 16) \<and> 16 * unat num_in_blocks \<le> length outb)
     \<and> (ina mod 32 = 0 \<or> 16 * unat num_in_blocks = unat (num_in_blocks * 16))"

definition aes_128_ctr_cipher ::
  "'c aes_impl \<Rightarrow> 'c aes_impl \<Rightarrow> ctr_ctx \<Rightarrow> nat \<Rightarrow> u8 list \<Rightarrow> nat \<Rightarrow> nat \<Rightarrow> u8 list \<Rightarrow> 'c \<Rightarrow> (int \<times> nat \<times> ctr_ctx \<times> u8 list \<times> 'c) option" where
  "aes_128_ctr_cipher vaes aesni ctx out outb outsize ina inb c =
     (let num_in_blocks = of_nat (length inb div 16) :: u32;
          n = min num_in_blocks (of_nat (outsize div 16))
      in if \<not> copies_fit out outb ina num_in_blocks then None
         else do {
           (ctx, ys, c) \<leftarrow> cipher_loop (call_aes_implementation vaes aesni ctx) (ina = out \<and> out mod 32 = 0) (to_blocks inb) n n ctx (to_blocks outb) c;
           Some (1, unat (n * 16), ctx, from_blocks ys outb, c)
         })"

text \<open>If input and output are the same buffer, what was written to the output is read as input afterwards.\<close>

definition input_now :: "nat \<Rightarrow> u8 list \<Rightarrow> nat \<Rightarrow> u8 list \<Rightarrow> u8 list" where
  "input_now out outb ina inb = (if ina = out then take (length inb) outb else inb)"

text \<open>The end of an update: all full blocks, and the rest is saved. \<open>k\<close> bytes of the input and \<open>m\<close> bytes of the output have been used.\<close>

definition update_rest ::
  "'c aes_impl \<Rightarrow> 'c aes_impl \<Rightarrow> ctr_ctx \<Rightarrow> nat \<Rightarrow> u8 list \<Rightarrow> nat \<Rightarrow> nat \<Rightarrow> u8 list \<Rightarrow> nat \<Rightarrow> nat \<Rightarrow> 'c
    \<Rightarrow> (int \<times> nat \<times> ctr_ctx \<times> u8 list \<times> 'c) option" where
  "update_rest vaes aesni ctx out outb outsize ina inb k m c = do {
     (ret, outl, ctx, rest, c) \<leftarrow>
        aes_128_ctr_cipher vaes aesni ctx (out + m) (drop m outb) (outsize - m) (ina + k) (drop k (input_now out outb ina inb)) c;
     (let outb = take m outb @ rest;
          left = drop (16 * ((length inb - k) div 16)) (drop k (input_now out outb ina inb))
      in if ret \<noteq> 1 then Some (0, m, ctx, outb, c)
         else Some (1, m + outl, ctx\<lparr>block := copy_to (block ctx) 0 left, block_offset := of_nat (length left)\<rparr>, outb, c))
   }"

definition aes_128_ctr_stream_update ::
  "'c aes_impl \<Rightarrow> 'c aes_impl \<Rightarrow> ctr_ctx \<Rightarrow> nat \<Rightarrow> u8 list \<Rightarrow> nat \<Rightarrow> nat \<Rightarrow> u8 list \<Rightarrow> 'c
    \<Rightarrow> (int \<times> nat \<times> ctr_ctx \<times> u8 list \<times> 'c) option" where
  "aes_128_ctr_stream_update vaes aesni ctx out outb outsize ina inb c =
     (let off = unat (block_offset ctx)
      in if length inb + off < 16
         then Some (1, 0, ctx\<lparr>block := copy_to (block ctx) off inb, block_offset := block_offset ctx + of_nat (length inb)\<rparr>, outb, c)
         else if off \<noteq> 0
         then if outsize < 16 then Some (0, 0, ctx, outb, c)
              else do {
                (ret, outl, ctx, outb, c) \<leftarrow>
                  aes_128_ctr_cipher vaes aesni ctx out outb 16 0 (take off (block ctx) @ take (16 - off) inb) c;
                (if ret \<noteq> 1 then Some (0, 0, ctx, outb, c)
                 else update_rest vaes aesni ctx out outb outsize ina inb (16 - off) 16 c)
              }
         else update_rest vaes aesni ctx out outb outsize ina inb 0 0 c)"

text \<open>The loop of \<^verbatim>\<open>aes_128_ctr_stream_final\<close>, with what the output block holds.\<close>

partial_function (option) final_loop ::
  "'c aes_impl \<Rightarrow> ctr_ctx \<Rightarrow> block \<Rightarrow> block \<Rightarrow> 'c \<Rightarrow> (block \<times> 'c) option" where
  "final_loop call ctx inbuf outbuf c = do {
     (r, ys, c) \<leftarrow> call (aes_fun ctx) (iv ctx) [inbuf] [outbuf] False 1 c;
     (if r \<noteq> 0 then final_loop call ctx inbuf (ys ! 0) c else Some (ys ! 0, c))
   }"

definition aes_128_ctr_stream_final ::
  "'c aes_impl \<Rightarrow> 'c aes_impl \<Rightarrow> ctr_ctx \<Rightarrow> block \<Rightarrow> u8 list \<Rightarrow> nat \<Rightarrow> 'c \<Rightarrow> (int \<times> nat \<times> u8 list \<times> 'c) option" where
  "aes_128_ctr_stream_final vaes aesni ctx outbuf outb outsize c =
     (let off = unat (block_offset ctx)
      in if off = 0 then Some (1, 0, outb, c)
         else do {
           (res, c) \<leftarrow> final_loop (call_aes_implementation vaes aesni ctx) ctx (take off (block ctx) @ replicate (16 - off) 0) outbuf c;
           (let n = min outsize off in Some (1, n, copy_to outb 0 (take n res), c))
         })"

end
