(* ===== verification/Aes_Ctr_Main.thy ===== *)
theory Aes_Ctr_Main
  imports Aes_Ctr
begin

text \<open>
  Correctness of counter mode: whatever the interruptions, the output of a sequence of updates and the final call is the input XOR the key stream. The
  contract of an assembly routine is the locale \<open>gctr_routine\<close>, which is interpreted on the routine for AES-NI.
\<close>

subsection \<open>Specification\<close>

text \<open>The bytes \<open>bs\<close> XOR the key stream from block \<open>n\<close> on.\<close>

definition ctr_xor :: "block \<Rightarrow> block \<Rightarrow> nat \<Rightarrow> u8 list \<Rightarrow> u8 list" where
  "ctr_xor key icb n bs = map (\<lambda>j. bs ! j XOR aes128 key (ctr_add icb (n + j div 16)) ! (j mod 16)) [0..<length bs]"

lemma length_ctr_xor [simp]: "length (ctr_xor key icb n bs) = length bs"
  by (simp add: ctr_xor_def)

lemma ctr_xor_append:
  assumes "length a = 16 * m"
  shows "ctr_xor key icb n (a @ b) = ctr_xor key icb n a @ ctr_xor key icb (n + m) b"
proof (rule nth_equalityI)
  fix j assume "j < length (ctr_xor key icb n (a @ b))"
  then have j: "j < length a + length b" by simp
  show "ctr_xor key icb n (a @ b) ! j = (ctr_xor key icb n a @ ctr_xor key icb (n + m) b) ! j"
  proof (cases "j < length a")
    case False
    then obtain i where i: "j = 16 * m + i" using assms by (metis le_Suc_ex not_less)
    then show ?thesis using j assms by (simp add: ctr_xor_def nth_append add.assoc)
  qed (simp add: ctr_xor_def nth_append)
qed simp

lemma ctr_xor_involution: "ctr_xor key icb n (ctr_xor key icb n bs) = bs"
  by (rule nth_equalityI) (simp_all add: ctr_xor_def xor.assoc)

lemma ctr_xor_block:
  assumes "length b = 16" "length key = 16"
  shows "ctr_xor key icb n b = xor_block b (aes128 key (ctr_add icb n))"
  by (rule nth_equalityI) (simp_all add: ctr_xor_def xor_block_def assms)

lemma ctr_xor_take: "ctr_xor key icb n (take k bs) = take k (ctr_xor key icb n bs)"
  by (rule nth_equalityI) (simp_all add: ctr_xor_def)

subsection \<open>Blocks\<close>

lemma length_to_blocks [simp]: "length (to_blocks bs) = length bs div 16"
  by (simp add: to_blocks_def)

lemma to_blocks_nth: "i < length bs div 16 \<Longrightarrow> to_blocks bs ! i = take 16 (drop (16 * i) bs)"
  by (simp add: to_blocks_def)

lemma drop_to_blocks: "drop n (to_blocks bs) = to_blocks (drop (16 * n) bs)"
proof (rule nth_equalityI)
  have "(length bs - 16 * n) div 16 = length bs div 16 - n"
  proof (cases "16 * n \<le> length bs")
    case True
    then obtain k where "length bs = 16 * n + k" using le_Suc_ex by blast
    then show ?thesis by simp
  next
    case False
    then have "length bs div 16 < n" by (simp add: div_less_iff_less_mult)
    with False show ?thesis by simp
  qed
  then show "length (drop n (to_blocks bs)) = length (to_blocks (drop (16 * n) bs))" by simp
  then show "i < length (drop n (to_blocks bs)) \<Longrightarrow> drop n (to_blocks bs) ! i = to_blocks (drop (16 * n) bs) ! i" for i
    by (simp add: to_blocks_nth algebra_simps)
qed

lemma concat_to_blocks: "n \<le> length bs div 16 \<Longrightarrow> concat (map ((!) (to_blocks bs)) [0..<n]) = take (16 * n) bs"
proof (induction n)
  case (Suc n)
  then have "concat (map ((!) (to_blocks bs)) [0..<Suc n]) = take (16 * n) bs @ take 16 (drop (16 * n) bs)" by (simp add: to_blocks_nth)
  also have "\<dots> = take (16 * n + 16) bs" by (simp add: take_add)
  finally show ?case by (simp add: add.commute)
qed simp

lemma from_to_blocks: "from_blocks (to_blocks bs) bs = bs"
proof -
  have "concat (to_blocks bs) = take (16 * (length bs div 16)) bs"
    using concat_to_blocks[of "length bs div 16" bs] map_nth[of "to_blocks bs"] by simp
  then show ?thesis by (simp add: from_blocks_def)
qed

lemma from_blocks_prefix:
  assumes "length (concat as) = 16 * length as" "ys = as @ drop (length as) (to_blocks bs)" "length as \<le> length bs div 16"
  shows "from_blocks ys bs = concat as @ drop (16 * length as) bs"
proof -
  let ?d = "drop (16 * length as) bs"
  have l: "length ys = length as + length (to_blocks ?d)" unfolding assms(2) drop_to_blocks by simp
  have "from_blocks ys bs = concat as @ concat (to_blocks ?d) @ drop (16 * length ys) bs"
    unfolding from_blocks_def assms(2) drop_to_blocks by simp
  also have "drop (16 * length ys) bs = drop (16 * length (to_blocks ?d)) ?d" unfolding l by (simp add: algebra_simps)
  finally show ?thesis using from_to_blocks[of ?d] by (simp add: from_blocks_def)
qed

text \<open>Full blocks XOR the key stream.\<close>

definition xor_blocks :: "block \<Rightarrow> block \<Rightarrow> nat \<Rightarrow> block list \<Rightarrow> nat \<Rightarrow> block list" where
  "xor_blocks key icb n xs m = map (\<lambda>j. xor_block (xs ! j) (aes128 key (ctr_add icb (n + j)))) [0..<m]"

lemma concat_xor_blocks:
  assumes "length key = 16"
  shows "m \<le> length bs div 16 \<Longrightarrow> concat (xor_blocks key icb n (to_blocks bs) m) = ctr_xor key icb n (take (16 * m) bs)"
proof (induction m)
  case (Suc m)
  let ?b = "take 16 (drop (16 * m) bs)"
  have "16 * Suc m \<le> length bs" using Suc.prems by (simp add: less_eq_div_iff_mult_less_eq)
  then have l: "length ?b = 16" "length (take (16 * m) bs) = 16 * m" by simp_all
  have "concat (xor_blocks key icb n (to_blocks bs) (Suc m)) =
      ctr_xor key icb n (take (16 * m) bs) @ xor_block ?b (aes128 key (ctr_add icb (n + m)))"
    using Suc by (simp add: xor_blocks_def to_blocks_nth)
  also have "\<dots> = ctr_xor key icb n (take (16 * m) bs @ ?b)" unfolding ctr_xor_append[OF l(2)] ctr_xor_block[OF l(1) assms] ..
  also have "take (16 * m) bs @ ?b = take (16 * m + 16) bs" by (simp add: take_add)
  also have "16 * m + 16 = 16 * Suc m" by simp
  finally show ?case .
qed (simp add: xor_blocks_def ctr_xor_def)

subsection \<open>Counters\<close>

text \<open>The context is at block \<open>n\<close> of a stream that began with the counter block \<open>icb\<close>.\<close>

definition ctx_at :: "block \<Rightarrow> nat \<Rightarrow> ctr_ctx \<Rightarrow> bool" where
  "ctx_at icb n ctx \<longleftrightarrow> iv ctx = ctr_add icb n \<and> ctr ctx = load_ctr icb + of_nat n"

lemma ctr_add_add:
  assumes "length icb = 16"
  shows "ctr_add (ctr_add icb n) m = ctr_add icb (n + m)"
proof -
  let ?v = "le_val (rev (drop 12 icb))"
  have "le_bytes 4 ((?v + n) mod 256 ^ 4 + m) = le_bytes 4 (?v + (n + m))" by (rule le_bytes_cong) (simp add: mod_add_left_eq add.assoc)
  then show ?thesis using assms by (simp add: ctr_add_def le_val_le_bytes)
qed

lemma len_32: "LENGTH(32) = 32"
  by simp

lemma store_ctr_add:
  assumes "length icb = 16"
  shows "store_ctr (load_ctr icb + of_nat n) (ctr_add icb m) = ctr_add icb n"
proof -
  let ?v = "le_val (rev (drop 12 icb))"
  have "load_ctr icb + of_nat n = of_nat (?v + n)" by (simp add: load_ctr_def)
  then have "unat (load_ctr icb + of_nat n) = (?v + n) mod 2 ^ 32" unfolding unat_of_nat by (simp only: unat_of_nat len_32)
  also have "(2 :: nat) ^ 32 = 256 ^ 4" by simp
  finally have "le_bytes 4 (unat (load_ctr icb + of_nat n)) = le_bytes 4 (?v + n)" by (intro le_bytes_cong) simp
  then show ?thesis using assms by (simp add: store_ctr_def ctr_add_def)
qed

lemma ctx_at_advance:
  assumes "ctx_at icb n ctx" "length icb = 16" "d = ctr ctx + of_nat m"
  shows "ctx_at icb (n + m) (ctx\<lparr>ctr := d, iv := store_ctr d (iv ctx)\<rparr>)"
  using assms store_ctr_add[OF assms(2), of "n + m" n] by (simp add: ctx_at_def add.assoc)

text \<open>Nothing but the counter of a context has changed.\<close>

definition same_stream :: "ctr_ctx \<Rightarrow> ctr_ctx \<Rightarrow> bool" where
  "same_stream ctx ctx' \<longleftrightarrow> ctx' = ctx\<lparr>ctr := ctr ctx', iv := iv ctx'\<rparr>"

lemma same_stream_trans: "same_stream a b \<Longrightarrow> same_stream b c \<Longrightarrow> same_stream a c"
  unfolding same_stream_def by (cases a; cases b; cases c) simp

lemma same_streamD: "same_stream a b \<Longrightarrow> aes_fun b = aes_fun a \<and> block b = block a \<and> block_offset b = block_offset a \<and> has_vaes b = has_vaes a"
  unfolding same_stream_def by (cases a; cases b) simp

text \<open>Counts of blocks in 32 bits.\<close>

lemma block_counts:
  assumes "N < 2 ^ 28" "m \<le> N" "r \<le> m"
  shows "unat ((of_nat N - of_nat m :: u32) * 16) div 16 = N - m"
    and "(of_nat m :: u32) - ucast (of_nat r :: u64) = of_nat (m - r)"
    and "\<not> (of_nat (m - r) :: u32) > of_nat m" "(of_nat m :: u32) - of_nat (m - r) = of_nat r" "(of_nat m :: u32) = 0 \<longleftrightarrow> m = 0"
proof -
  have d: "(of_nat N :: u32) - of_nat m = of_nat (N - m)" using assms(2) by (simp add: of_nat_diff)
  have "unat (of_nat (N - m) :: u32) = N - m" using assms(1) by (simp add: unat_of_nat)
  then show "unat ((of_nat N - of_nat m :: u32) * 16) div 16 = N - m" unfolding d using assms(1) by (simp add: unat_word_ariths)
  have "(ucast (of_nat r :: u64) :: u32) = of_nat r" using assms by (simp add: word_unat_eq_iff unsigned_ucast_eq unat_of_nat take_bit_nat_eq_self)
  then show "(of_nat m :: u32) - ucast (of_nat r :: u64) = of_nat (m - r)" using assms(3) by (simp add: of_nat_diff)
  have "unat (of_nat (m - r) :: u32) = m - r" "unat (of_nat m :: u32) = m" using assms by (simp_all only: unat_of_nat len_32) simp_all
  then show "\<not> (of_nat (m - r) :: u32) > of_nat m" unfolding word_less_nat_alt by (simp only: not_less diff_le_self)
  show "(of_nat m :: u32) - of_nat (m - r) = of_nat r" using assms(3) by (simp add: of_nat_diff)
  show "(of_nat m :: u32) = 0 \<longleftrightarrow> m = 0" using assms by (simp add: word_unat_eq_iff unat_of_nat)
qed

text \<open>The context is at block \<open>n\<close> and \<open>p\<close> are the bytes that wait for a full block.\<close>

definition stream_at :: "block \<Rightarrow> nat \<Rightarrow> u8 list \<Rightarrow> ctr_ctx \<Rightarrow> bool" where
  "stream_at icb n p ctx \<longleftrightarrow> ctx_at icb n ctx \<and> length (block ctx) = 16 \<and> length p < 16 \<and> block_offset ctx = of_nat (length p)
     \<and> take (length p) (block ctx) = p"

lemma stream_at_offset: "stream_at icb n p ctx \<Longrightarrow> unat (block_offset ctx) = length p"
  by (simp add: stream_at_def unat_of_nat)

lemma stream_at_save:
  assumes "ctx_at icb n ctx" "length (block ctx) = 16" "length p < 16"
  shows "stream_at icb n p (ctx\<lparr>block := copy_to (block ctx) 0 p, block_offset := of_nat (length p)\<rparr>)"
  using assms by (simp add: stream_at_def ctx_at_def copy_to_def)

subsection \<open>A whole stream\<close>

text \<open>One call of update: address, contents and size of the output buffer, address and contents of the input buffer.\<close>

record ctr_chunk =
  ch_out :: nat
  ch_outb :: "u8 list"
  ch_outsize :: nat
  ch_in :: nat
  ch_data :: "u8 list"

text \<open>The caller's part of the contract: disjoint buffers and room for one block more than the input.\<close>

definition chunk_ok :: "ctr_chunk \<Rightarrow> bool" where
  "chunk_ok ch \<longleftrightarrow> length (ch_data ch) < 0xFFFFFFF0 \<and> length (ch_data ch) + 16 \<le> ch_outsize ch \<and> ch_outsize ch \<le> length (ch_outb ch)
     \<and> ch_outsize ch < 2 ^ 36 \<and> ch_out ch \<noteq> 0 \<and> (ch_in ch + length (ch_data ch) \<le> ch_out ch \<or> ch_out ch + length (ch_outb ch) \<le> ch_in ch)"

text \<open>A sequence of updates, and the final call; the result is all that was written. A call that fails ends it.\<close>

fun ctr_updates :: "'c aes_impl \<Rightarrow> 'c aes_impl \<Rightarrow> ctr_ctx \<Rightarrow> ctr_chunk list \<Rightarrow> 'c \<Rightarrow> (u8 list \<times> ctr_ctx \<times> 'c) option" where
  "ctr_updates vaes aesni ctx [] c = Some ([], ctx, c)"
| "ctr_updates vaes aesni ctx (ch # chs) c = do {
     (ret, outl, ctx, outb, c) \<leftarrow> aes_128_ctr_stream_update vaes aesni ctx (ch_out ch) (ch_outb ch) (ch_outsize ch) (ch_in ch) (ch_data ch) c;
     (if ret \<noteq> 1 then None else do { (res, ctx, c) \<leftarrow> ctr_updates vaes aesni ctx chs c; Some (take outl outb @ res, ctx, c) })
   }"

definition ctr_process ::
  "'c aes_impl \<Rightarrow> 'c aes_impl \<Rightarrow> ctr_ctx \<Rightarrow> ctr_chunk list \<Rightarrow> block \<Rightarrow> u8 list \<Rightarrow> nat \<Rightarrow> 'c \<Rightarrow> (u8 list \<times> 'c) option" where
  "ctr_process vaes aesni ctx chs ob outb outsize c = do {
     (res, ctx, c) \<leftarrow> ctr_updates vaes aesni ctx chs c;
     (ret, n, outb, c) \<leftarrow> aes_128_ctr_stream_final vaes aesni ctx ob outb outsize c;
     (if ret \<noteq> 1 then None else Some (res @ take n outb, c))
   }"

subsection \<open>The contract of a routine\<close>

text \<open>
  \<open>ready f\<close> says that there is code at \<open>f\<close> with the key \<open>key f\<close> and that interruptions of it clear the registers. A call may stop after an interruption; then it has finished the first blocks,
  and at most the next block is garbage.
\<close>

locale gctr_routine =
  fixes call :: "'c aes_impl" and ready :: "u64 \<Rightarrow> bool" and key :: "u64 \<Rightarrow> block" and now :: "'c \<Rightarrow> nat" and intr :: "nat \<Rightarrow> bool"
  assumes length_key: "ready f \<Longrightarrow> length (key f) = 16"
    and call_spec: "ready f \<Longrightarrow> length icb = 16 \<Longrightarrow> 0 < n \<Longrightarrow> n < 2 ^ 32 \<Longrightarrow> n \<le> length xs \<Longrightarrow> n \<le> length ys \<Longrightarrow>
      \<exists>r zs c'. call f icb xs ys False (of_nat n) c = Some (of_nat r, zs, c') \<and> r \<le> n
        \<and> gctr_done (key f) icb xs 0 n r ys zs \<and> now c \<le> now c' \<and> (r \<noteq> 0 \<longrightarrow> interrupted intr (now c) (now c'))"
begin

text \<open>The interruptions still to come.\<close>

definition pending :: "'c \<Rightarrow> nat" where
  "pending c = card {u. now c \<le> u \<and> intr u}"

lemma pending_less:
  assumes "finite {u. intr u}" "now c \<le> now c'" "interrupted intr (now c) (now c')"
  shows "pending c' < pending c"
  unfolding pending_def
proof (rule psubset_card_mono)
  show "finite {u. now c \<le> u \<and> intr u}" using assms(1) by simp
  obtain u where "now c \<le> u" "u < now c'" "intr u" using assms(3) by (auto simp: interrupted_def)
  then have "u \<in> {u. now c \<le> u \<and> intr u}" "u \<notin> {u. now c' \<le> u \<and> intr u}" by simp_all
  moreover have "{u. now c' \<le> u \<and> intr u} \<subseteq> {u. now c \<le> u \<and> intr u}" using assms(2) by auto
  ultimately show "{u. now c' \<le> u \<and> intr u} \<subset> {u. now c \<le> u \<and> intr u}" by blast
qed

lemma final_loop_run:
  assumes "finite {u. intr u}" "ready (aes_fun ctx)" "length (iv ctx) = 16"
  shows "\<exists>c'. final_loop call ctx b o1 c = Some (xor_block b (aes128 (key (aes_fun ctx)) (iv ctx)), c') \<and> now c \<le> now c'"
proof (induction "pending c" arbitrary: c o1 rule: less_induct)
  case less
  from call_spec[OF assms(2,3), of 1 "[b]" "[o1]" c] obtain r zs c1 where
    r: "call (aes_fun ctx) (iv ctx) [b] [o1] False 1 c = Some (of_nat r, zs, c1)" "r \<le> 1" "gctr_done (key (aes_fun ctx)) (iv ctx) [b] 0 1 r [o1] zs"
    "now c \<le> now c1" "r \<noteq> 0 \<longrightarrow> interrupted intr (now c) (now c1)" by auto
  note loop = final_loop.simps[of call ctx b o1 c, unfolded r(1) bind.simps prod.case]
  show ?case
  proof (cases "r = 0")
    case True
    with r(3) have "zs ! 0 = xor_block b (aes128 (key (aes_fun ctx)) (iv ctx))" using ctr_add_0[OF assms(3)] by (simp add: gctr_done_def)
    with True loop r(4) show ?thesis by simp
  next
    case False
    then have "r = 1" using r(2) by simp
    from False r(4,5) pending_less[OF assms(1)] have "pending c1 < pending c" by blast
    from less[OF this, of "zs ! 0"] obtain c' where "final_loop call ctx b (zs ! 0) c1 = Some (xor_block b (aes128 (key (aes_fun ctx)) (iv ctx)), c')"
      "now c1 \<le> now c'" by blast
    with loop \<open>r = 1\<close> r(4) show ?thesis by simp
  qed
qed

text \<open>What the loop for \<open>N\<close> blocks has done when \<open>m\<close> of them remained.\<close>

definition loop_done :: "block \<Rightarrow> block \<Rightarrow> nat \<Rightarrow> block list \<Rightarrow> nat \<Rightarrow> nat \<Rightarrow> block list \<Rightarrow> block list \<Rightarrow> bool" where
  "loop_done k icb n xs N m ys ys' \<longleftrightarrow> length ys' = length ys \<and> (\<forall>j. j < N - m \<or> N \<le> j \<longrightarrow> ys' ! j = ys ! j)
     \<and> (\<forall>j. N - m \<le> j \<and> j < N \<longrightarrow> ys' ! j = xor_block (xs ! j) (aes128 k (ctr_add icb (n + j))))"

lemma loop_done_step:
  assumes "gctr_done k (ctr_add icb (n + (N - m))) (drop (N - m) xs) 0 m r (drop (N - m) ys) zs" "r \<le> m" "m \<le> N" "N \<le> length xs" "N \<le> length ys"
    and "length icb = 16" "loop_done k icb n xs N r (take (N - m) ys @ zs) ys'"
  shows "loop_done k icb n xs N m ys ys'"
proof -
  let ?k = "N - m"
  have z: "length zs = length ys - ?k" "\<And>j. j < m - r \<Longrightarrow> zs ! j = xor_block (xs ! (?k + j)) (aes128 k (ctr_add icb (n + (?k + j))))"
    "\<And>j. j > m - r \<or> r = 0 \<and> j = m \<Longrightarrow> zs ! j = ys ! (?k + j)"
    using assms(1,3-6) by (auto simp: gctr_done_def ctr_add_add add.assoc)
  let ?y = "take ?k ys @ zs"
  have low: "j < ?k \<Longrightarrow> ?y ! j = ys ! j" for j using assms(5) by (simp add: nth_append)
  have at: "?y ! (?k + j) = zs ! j" for j using assms(5) by (simp add: nth_append)
  have d: "length ys' = length ys" "\<And>j. j < N - r \<or> N \<le> j \<Longrightarrow> ys' ! j = ?y ! j"
    "\<And>j. N - r \<le> j \<Longrightarrow> j < N \<Longrightarrow> ys' ! j = xor_block (xs ! j) (aes128 k (ctr_add icb (n + j)))"
    using assms(3,5,7) z(1) by (auto simp: loop_done_def)
  have "ys' ! j = ys ! j" if "j < ?k \<or> N \<le> j" for j
  proof (cases "j < ?k")
    case True
    then have "j < N - r" using assms(2) by simp
    then show ?thesis using d(2)[of j] low[OF True] by simp
  next
    case False
    with that have j: "N \<le> j" by simp
    then have "?k + (j - ?k) = j" "j - ?k > m - r \<or> r = 0 \<and> j - ?k = m" using assms(2,3) by auto
    then show ?thesis using d(2)[of j] at[of "j - ?k"] z(3)[of "j - ?k"] j by simp
  qed
  moreover have "ys' ! j = xor_block (xs ! j) (aes128 k (ctr_add icb (n + j)))" if "?k \<le> j" "j < N" for j
  proof (cases "j < N - r")
    case True
    then have "?k + (j - ?k) = j" "j - ?k < m - r" using that assms(2,3) by auto
    then show ?thesis using d(2)[of j] at[of "j - ?k"] z(2)[of "j - ?k"] True by simp
  qed (use d(3) that in simp)
  ultimately show ?thesis using d(1) by (simp add: loop_done_def)
qed

lemma cipher_loop_run:
  assumes "finite {u. intr u}" "ready f" "length icb = 16" "N < 2 ^ 28" "N \<le> length xs"
  shows "m \<le> N \<Longrightarrow> N \<le> length ys \<Longrightarrow> ctx_at icb (n + (N - m)) ctx \<Longrightarrow> aes_fun ctx = f \<Longrightarrow>
    \<exists>ctx' ys' c'. cipher_loop call False xs (of_nat N) (of_nat m) ctx ys c = Some (ctx', ys', c') \<and> ctx_at icb (n + N) ctx'
      \<and> same_stream ctx ctx' \<and> loop_done (key f) icb n xs N m ys ys' \<and> now c \<le> now c'"
proof (induction "pending c" arbitrary: m ys ctx c rule: less_induct)
  case less
  let ?k = "N - m"
  have iv: "iv ctx = ctr_add icb (n + ?k)" using less.prems(3) by (simp add: ctx_at_def)
  note loop = cipher_loop.simps[of call False xs "of_nat N" "of_nat m" ctx ys c]
  show ?case
  proof (cases "m = 0")
    case True
    then show ?thesis using loop less.prems(3) by (auto simp: same_stream_def loop_done_def)
  next
    case False
    have len: "length (ctr_add icb (n + ?k)) = 16" "0 < m" "m < 2 ^ 32" "m \<le> length (drop ?k xs)" "m \<le> length (drop ?k ys)"
      using assms(3-5) less.prems(1,2) False by simp_all
    from call_spec[OF assms(2) len, of c] obtain r zs c1 where
      r: "call f (ctr_add icb (n + ?k)) (drop ?k xs) (drop ?k ys) False (of_nat m) c = Some (of_nat r, zs, c1)" "r \<le> m"
      "gctr_done (key f) (ctr_add icb (n + ?k)) (drop ?k xs) 0 m r (drop ?k ys) zs" "now c \<le> now c1"
      "r \<noteq> 0 \<longrightarrow> interrupted intr (now c) (now c1)" by blast
    note b = block_counts[OF assms(4) less.prems(1) r(2)]
    let ?ctx = "ctx\<lparr>ctr := ctr ctx + of_nat (m - r), iv := store_ctr (ctr ctx + of_nat (m - r)) (iv ctx)\<rparr>" and ?ys = "take ?k ys @ zs"
    have nx: "cipher_loop call False xs (of_nat N) (of_nat m) ctx ys c = cipher_loop call False xs (of_nat N) (of_nat r) ?ctx ?ys c1"
      using loop False unfolding b(1) Let_def less.prems(4) iv r(1) bind.simps prod.case b(2,4,5) if_not_P[OF b(3)] by simp
    have at: "ctx_at icb (n + (N - r)) ?ctx" using ctx_at_advance[OF less.prems(3) assms(3) refl, of "m - r"] less.prems(1) r(2) by simp
    have same: "same_stream ctx ?ctx" "aes_fun ?ctx = f" using less.prems(4) by (simp_all add: same_stream_def)
    have "length zs = length ys - ?k" using r(3) by (simp add: gctr_done_def)
    then have rN: "r \<le> N" "N \<le> length ?ys" using less.prems(1,2) r(2) by simp_all
    have step: "\<And>ys'. loop_done (key f) icb n xs N r ?ys ys' \<Longrightarrow> loop_done (key f) icb n xs N m ys ys'"
      using loop_done_step[OF r(3,2) less.prems(1) assms(5) less.prems(2) assms(3)] .
    show ?thesis
    proof (cases "r = 0")
      case True
      have "cipher_loop call False xs (of_nat N) (of_nat r) ?ctx ?ys c1 = Some (?ctx, ?ys, c1)" using True by (simp add: cipher_loop.simps)
      moreover have "loop_done (key f) icb n xs N m ys ?ys" by (rule step) (auto simp: loop_done_def True)
      ultimately show ?thesis using nx at True same(1) r(4) by auto
    next
      case False
      with r(4,5) pending_less[OF assms(1)] have "pending c1 < pending c" by blast
      from less.hyps[OF this rN at same(2)] obtain ctx' ys' c' where ih:
        "cipher_loop call False xs (of_nat N) (of_nat r) ?ctx ?ys c1 = Some (ctx', ys', c')" "ctx_at icb (n + N) ctx'"
        "same_stream ?ctx ctx'" "loop_done (key f) icb n xs N r ?ys ys'" "now c1 \<le> now c'" by blast
      from step[OF ih(4)] same_stream_trans[OF same(1) ih(3)] le_trans[OF r(4) ih(5)] ih(1,2) show ?thesis unfolding nx by blast
    qed
  qed
qed

lemma cipher_run:
  assumes "finite {u. intr u}" "ready (aes_fun ctx)" "length icb = 16" "ctx_at icb n ctx" "\<not> has_vaes ctx"
    and "N = length inb div 16" "N < 2 ^ 28" "16 * N \<le> outsize" "outsize < 2 ^ 36" "16 * N \<le> length outb" "ina \<noteq> out"
  shows "\<exists>ctx' c'. aes_128_ctr_cipher vaes call ctx out outb outsize ina inb c =
      Some (1, 16 * N, ctx', ctr_xor (key (aes_fun ctx)) icb n (take (16 * N) inb) @ drop (16 * N) outb, c')
    \<and> ctx_at icb (n + N) ctx' \<and> same_stream ctx ctx' \<and> now c \<le> now c'"
proof -
  let ?k = "key (aes_fun ctx)"
  have N: "N \<le> outsize div 16" "outsize div 16 < 2 ^ 32" "N \<le> length outb div 16" using assms(8-10) by auto
  have u: "unat (of_nat N :: u32) = N" "unat (of_nat (outsize div 16) :: u32) = outsize div 16" "unat ((of_nat N :: u32) * 16) = 16 * N"
    using assms(7) N(2) by (simp_all add: unat_of_nat unat_word_ariths)
  then have mn: "min (of_nat N :: u32) (of_nat (outsize div 16)) = of_nat N" using N(1) by (simp add: min_def word_le_nat_alt)
  have fit: "copies_fit out outb ina (of_nat N)" using u assms(10) by (simp add: copies_fit_def)
  have call: "call_aes_implementation vaes call ctx = call" using assms(5) by (simp add: call_aes_implementation_def)
  from cipher_loop_run[OF assms(1,2,3,7), of "to_blocks inb" N "to_blocks outb" n ctx c] assms(4,6) N(3) obtain ctx' ys' c' where
    l: "cipher_loop call False (to_blocks inb) (of_nat N) (of_nat N) ctx (to_blocks outb) c = Some (ctx', ys', c')" "ctx_at icb (n + N) ctx'"
    "same_stream ctx ctx'" "loop_done ?k icb n (to_blocks inb) N N (to_blocks outb) ys'" "now c \<le> now c'" by auto
  let ?a = "xor_blocks ?k icb n (to_blocks inb) N"
  have la: "length ?a = N" by (simp add: xor_blocks_def)
  have "ys' = ?a @ drop N (to_blocks outb)"
  proof (rule nth_equalityI)
    show "length ys' = length (?a @ drop N (to_blocks outb))" using l(4) N(3) la by (simp add: loop_done_def)
    fix j assume "j < length ys'"
    then show "ys' ! j = (?a @ drop N (to_blocks outb)) ! j" using l(4) N(3) la
      by (cases "j < N") (auto simp: loop_done_def nth_append xor_blocks_def)
  qed
  moreover have c: "concat ?a = ctr_xor ?k icb n (take (16 * N) inb)" using concat_xor_blocks[OF length_key[OF assms(2)]] assms(6) by simp
  moreover have "length (concat ?a) = 16 * length ?a" unfolding c using assms(6) la by simp
  ultimately have "from_blocks ys' outb = ctr_xor ?k icb n (take (16 * N) inb) @ drop (16 * N) outb"
    using from_blocks_prefix[of ?a ys' outb] N(3) la by simp
  moreover have same: "(ina = out \<and> out mod 32 = 0) = False" using assms(11) by simp
  have "aes_128_ctr_cipher vaes call ctx out outb outsize ina inb c = Some (1, unat ((of_nat N :: u32) * 16), ctx', from_blocks ys' outb, c')"
    unfolding aes_128_ctr_cipher_def Let_def assms(6)[symmetric] call mn same if_not_P[OF not_not[THEN iffD2, OF fit]] l(1) bind.simps prod.case ..
  ultimately show ?thesis using l(2,3,5) unfolding u(3) by simp
qed

lemma update_rest_run:
  assumes "finite {u. intr u}" "ready (aes_fun ctx)" "length icb = 16" "ctx_at icb n ctx" "\<not> has_vaes ctx" "length (block ctx) = 16"
    and "k \<le> length inb" "N = (length inb - k) div 16" "N < 2 ^ 28" "m + 16 * N \<le> outsize" "outsize < 2 ^ 36" "m + 16 * N \<le> length outb"
    and "ina \<noteq> out" "ina + k \<noteq> out + m"
  shows "\<exists>ctx' c'. update_rest vaes call ctx out outb outsize ina inb k m c =
      Some (1, m + 16 * N, ctx', take m outb @ ctr_xor (key (aes_fun ctx)) icb n (take (16 * N) (drop k inb)) @ drop (m + 16 * N) outb, c')
    \<and> stream_at icb (n + N) (drop (16 * N) (drop k inb)) ctx' \<and> aes_fun ctx' = aes_fun ctx \<and> \<not> has_vaes ctx' \<and> now c \<le> now c'"
proof -
  let ?x = "drop k inb"
  have pre: "N = length ?x div 16" "16 * N \<le> outsize - m" "outsize - m < 2 ^ 36" "16 * N \<le> length (drop m outb)"
    using assms(8,10-12) by simp_all
  from cipher_run[OF assms(1-5) pre(1) assms(9) pre(2-4) assms(14), of vaes c] obtain ctx1 c1 where
    r: "aes_128_ctr_cipher vaes call ctx (out + m) (drop m outb) (outsize - m) (ina + k) ?x c =
      Some (1, 16 * N, ctx1, ctr_xor (key (aes_fun ctx)) icb n (take (16 * N) ?x) @ drop (16 * N) (drop m outb), c1)"
    "ctx_at icb (n + N) ctx1" "same_stream ctx ctx1" "now c \<le> now c1" by blast
  note s = same_streamD[OF r(3)]
  let ?left = "drop (16 * N) ?x"
  have "length ?left < 16" unfolding pre(1) by (simp add: minus_mult_div_eq_mod)
  with stream_at_save[OF r(2), of ?left] s assms(6)
  have "stream_at icb (n + N) ?left (ctx1\<lparr>block := copy_to (block ctx1) 0 ?left, block_offset := of_nat (length ?left)\<rparr>)" by simp
  moreover have i: "input_now out outb' ina inb = inb" for outb' using assms(13) by (simp add: input_now_def)
  moreover have "update_rest vaes call ctx out outb outsize ina inb k m c = Some (1, m + 16 * N,
      ctx1\<lparr>block := copy_to (block ctx1) 0 ?left, block_offset := of_nat (length ?left)\<rparr>,
      take m outb @ ctr_xor (key (aes_fun ctx)) icb n (take (16 * N) ?x) @ drop (16 * N) (drop m outb), c1)"
    unfolding update_rest_def i r(1) bind.simps prod.case Let_def assms(8)[symmetric] by simp
  ultimately show ?thesis using r(4) s assms(5) by (simp add: add.commute)
qed

lemma update_run:
  assumes "finite {u. intr u}" "ready (aes_fun ctx)" "length icb = 16" "stream_at icb n p ctx" "\<not> has_vaes ctx"
    and "M = (length p + length inb) div 16" "length inb < 0xFFFFFFF0" "16 * M \<le> outsize" "outsize < 2 ^ 36" "16 * M \<le> length outb"
    and "out \<noteq> 0" "ina + length inb \<le> out \<or> out + length outb \<le> ina"
  shows "\<exists>ctx' c'. aes_128_ctr_stream_update vaes call ctx out outb outsize ina inb c =
      Some (1, 16 * M, ctx', ctr_xor (key (aes_fun ctx)) icb n (take (16 * M) (p @ inb)) @ drop (16 * M) outb, c')
    \<and> stream_at icb (n + M) (drop (16 * M) (p @ inb)) ctx' \<and> aes_fun ctx' = aes_fun ctx \<and> \<not> has_vaes ctx' \<and> now c \<le> now c'"
proof -
  let ?key = "key (aes_fun ctx)"
  have p: "ctx_at icb n ctx" "length (block ctx) = 16" "length p < 16" "take (length p) (block ctx) = p" "block_offset ctx = of_nat (length p)"
    using assms(4) by (simp_all add: stream_at_def)
  note off = stream_at_offset[OF assms(4)]
  note code = aes_128_ctr_stream_update_def[of vaes call ctx out outb outsize ina inb c, unfolded off Let_def]
  consider (save) "length inb + length p < 16" | (full) "\<not> length inb + length p < 16" "p = []" | (part) "\<not> length inb + length p < 16" "p \<noteq> []" by blast
  then show ?thesis
  proof cases
    case save
    then have M: "M = 0" using assms(6) by simp
    have "take (length p + length inb) (copy_to (block ctx) (length p) inb) = p @ inb" using p save by (simp add: copy_to_def)
    with save p have "stream_at icb n (p @ inb) (ctx\<lparr>block := copy_to (block ctx) (length p) inb, block_offset := block_offset ctx + of_nat (length inb)\<rparr>)"
      by (simp add: stream_at_def ctx_at_def copy_to_def)
    then show ?thesis unfolding code if_P[OF save] M using assms(5) by (simp add: ctr_xor_def)
  next
    case full
    then have big: "0 < length inb" "M = (length inb - 0) div 16" "0 < M" using assms(6) by auto
    then have "ina \<noteq> out" "ina + 0 \<noteq> out + 0" using assms(10,12) by auto
    from update_rest_run[OF assms(1-3) p(1) assms(5) p(2) le0 big(2) _ _ assms(9) _ this, of outb vaes c] assms(7,8,10) big(2) full(2)
    show ?thesis unfolding code if_not_P[OF full(1)] by simp
  next
    case part
    define k where "k = 16 - length p"
    have k: "0 < k" "k < 16" "k \<le> length inb" "length p + k = 16" using part p(3) by (auto simp: k_def)
    define N where "N = (length inb - k) div 16"
    have "length p + length inb = 16 + (length inb - k)" using k by simp
    then have M: "M = N + 1" unfolding assms(6) N_def by simp
    then have m: "16 * 1 \<le> outsize" "16 * 1 \<le> length outb" using assms(8,10) by simp_all
    have l: "length (p @ take k inb) = 16" using k by simp
    have x: "1 = length (p @ take k inb) div 16" "take (16 * 1) (p @ take k inb) = p @ take k inb" "\<not> outsize < 16"
      using m(1) p(3) by (simp_all only: l) (simp_all add: k_def)
    from cipher_run[OF assms(1-3) p(1) assms(5) x(1) _ _ _ m(2), of 16 0 out vaes c] assms(11) x(2) obtain ctx1 c1 where
      r: "aes_128_ctr_cipher vaes call ctx out outb 16 0 (p @ take k inb) c =
        Some (1, 16, ctx1, ctr_xor ?key icb n (p @ take k inb) @ drop 16 outb, c1)"
      "ctx_at icb (n + 1) ctx1" "same_stream ctx ctx1" "now c \<le> now c1" by auto
    let ?o = "ctr_xor ?key icb n (p @ take k inb) @ drop 16 outb"
    note s = same_streamD[OF r(3)]
    have o: "length ?o = length outb" "take 16 ?o = ctr_xor ?key icb n (p @ take k inb)" "drop (16 + 16 * N) ?o = drop (16 + 16 * N) outb"
      using k m(2) by (simp_all add: add.commute)
    have d: "N < 2 ^ 28" "16 + 16 * N \<le> outsize" "16 + 16 * N \<le> length ?o" "ina \<noteq> out" "ina + k \<noteq> out + 16"
      using assms(7,8,10,12) M k m(2) o(1) unfolding N_def by auto
    have pre: "ready (aes_fun ctx1)" "\<not> has_vaes ctx1" "length (block ctx1) = 16" using s assms(2,5) p(2) by simp_all
    from update_rest_run[OF assms(1) pre(1) assms(3) r(2) pre(2,3) k(3) N_def d(1,2) assms(9) d(3-5), of vaes c1] obtain ctx' c' where
      q: "update_rest vaes call ctx1 out ?o outsize ina inb k 16 c1 =
        Some (1, 16 + 16 * N, ctx', take 16 ?o @ ctr_xor (key (aes_fun ctx1)) icb (n + 1) (take (16 * N) (drop k inb)) @ drop (16 + 16 * N) ?o, c')"
      "stream_at icb (n + 1 + N) (drop (16 * N) (drop k inb)) ctx'" "aes_fun ctx' = aes_fun ctx1" "\<not> has_vaes ctx'" "now c1 \<le> now c'" by blast
    have "take (16 * M) (p @ inb) = (p @ take k inb) @ take (16 * N) (drop k inb)" "drop (16 * M) (p @ inb) = drop (16 * N) (drop k inb)"
      using k M by (simp_all add: take_add[symmetric] k_def add.commute)
    moreover have "ctr_xor ?key icb n ((p @ take k inb) @ take (16 * N) (drop k inb)) =
        ctr_xor ?key icb n (p @ take k inb) @ ctr_xor ?key icb (n + 1) (take (16 * N) (drop k inb))"
      using k by (intro ctr_xor_append) simp
    moreover have "aes_128_ctr_stream_update vaes call ctx out outb outsize ina inb c = update_rest vaes call ctx1 out ?o outsize ina inb k 16 c1"
      unfolding code if_not_P[OF part(1)] p(4) k_def[symmetric] r(1) bind.simps prod.case if_not_P[OF x(3)] using part(2) by simp
    ultimately show ?thesis using q r(4) s M unfolding o by (simp add: add.commute add.left_commute)
  qed
qed

lemma final_run:
  assumes "finite {u. intr u}" "ready (aes_fun ctx)" "length icb = 16" "stream_at icb n p ctx" "\<not> has_vaes ctx" "length p \<le> outsize"
  shows "\<exists>c'. aes_128_ctr_stream_final vaes call ctx ob outb outsize c =
      Some (1, length p, ctr_xor (key (aes_fun ctx)) icb n p @ drop (length p) outb, c') \<and> now c \<le> now c'"
proof -
  let ?key = "key (aes_fun ctx)" and ?b = "p @ replicate (16 - length p) 0"
  have p: "iv ctx = ctr_add icb n" "length p < 16" "take (length p) (block ctx) = p" using assms(4) by (simp_all add: stream_at_def ctx_at_def)
  note off = stream_at_offset[OF assms(4)]
  have call: "call_aes_implementation vaes call ctx = call" using assms(5) by (simp add: call_aes_implementation_def)
  have "length (iv ctx) = 16" using p(1) assms(3) by simp
  from final_loop_run[OF assms(1,2) this, of ?b ob c] obtain c' where
    c: "final_loop call ctx ?b ob c = Some (xor_block ?b (aes128 ?key (ctr_add icb n)), c')" "now c \<le> now c'" unfolding p(1) by blast
  have "length ?b = 16" using p(2) by simp
  from ctr_xor_block[OF this length_key[OF assms(2)]] have "take (length p) (xor_block ?b (aes128 ?key (ctr_add icb n))) = ctr_xor ?key icb n p"
    using ctr_xor_take[of ?key icb n "length p" ?b] by simp
  moreover have "min outsize (length p) = length p" using assms(6) by simp
  ultimately have "p \<noteq> [] \<Longrightarrow> aes_128_ctr_stream_final vaes call ctx ob outb outsize c = Some (1, length p, ctr_xor ?key icb n p @ drop (length p) outb, c')"
    unfolding aes_128_ctr_stream_final_def off Let_def p(3) call c(1) bind.simps prod.case by (simp add: copy_to_def)
  moreover have "p = [] \<Longrightarrow> aes_128_ctr_stream_final vaes call ctx ob outb outsize c = Some (1, length p, ctr_xor ?key icb n p @ drop (length p) outb, c)"
    unfolding aes_128_ctr_stream_final_def off by (simp add: ctr_xor_def)
  ultimately show ?thesis using c(2) by blast
qed

lemma updates_run:
  assumes "finite {u. intr u}" "length icb = 16" "ready f"
  shows "\<forall>ch \<in> set chs. chunk_ok ch \<Longrightarrow> stream_at icb n p ctx \<Longrightarrow> \<not> has_vaes ctx \<Longrightarrow> aes_fun ctx = f \<Longrightarrow>
    \<exists>res n' p' ctx' c'. ctr_updates vaes call ctx chs c = Some (res, ctx', c') \<and> stream_at icb n' p' ctx' \<and> \<not> has_vaes ctx' \<and> aes_fun ctx' = f
      \<and> ctr_xor (key f) icb n (p @ concat (map ch_data chs)) = res @ ctr_xor (key f) icb n' p'"
proof (induction chs arbitrary: n p ctx c)
  case Nil
  then show ?case by auto
next
  case (Cons ch chs)
  let ?M = "(length p + length (ch_data ch)) div 16" and ?x = "p @ ch_data ch" and ?rest = "concat (map ch_data chs)"
  have f: "ready (aes_fun ctx)" using assms(3) Cons.prems(4) by simp
  have ok: "chunk_ok ch" "length p < 16" using Cons.prems(1,2) by (simp_all add: stream_at_def)
  have M: "16 * ?M \<le> length ?x" by simp
  have c: "length (ch_data ch) < 0xFFFFFFF0" "16 * ?M \<le> ch_outsize ch" "ch_outsize ch < 2 ^ 36" "16 * ?M \<le> length (ch_outb ch)" "ch_out ch \<noteq> 0"
    "ch_in ch + length (ch_data ch) \<le> ch_out ch \<or> ch_out ch + length (ch_outb ch) \<le> ch_in ch"
    using ok M unfolding chunk_ok_def by auto
  from update_run[OF assms(1) f assms(2) Cons.prems(2,3) refl c, of vaes] obtain ctx1 c1 where
    u: "aes_128_ctr_stream_update vaes call ctx (ch_out ch) (ch_outb ch) (ch_outsize ch) (ch_in ch) (ch_data ch) c =
      Some (1, 16 * ?M, ctx1, ctr_xor (key f) icb n (take (16 * ?M) ?x) @ drop (16 * ?M) (ch_outb ch), c1)"
    "stream_at icb (n + ?M) (drop (16 * ?M) ?x) ctx1" "aes_fun ctx1 = f" "\<not> has_vaes ctx1" unfolding Cons.prems(4) by blast
  from Cons.IH[OF _ u(2,4,3), of c1] Cons.prems(1) obtain res n' p' ctx' c' where
    r: "ctr_updates vaes call ctx1 chs c1 = Some (res, ctx', c')" "stream_at icb n' p' ctx'" "\<not> has_vaes ctx'" "aes_fun ctx' = f"
    "ctr_xor (key f) icb (n + ?M) (drop (16 * ?M) ?x @ ?rest) = res @ ctr_xor (key f) icb n' p'" by auto
  let ?y = "ctr_xor (key f) icb n (take (16 * ?M) ?x)"
  have "p @ concat (map ch_data (ch # chs)) = take (16 * ?M) ?x @ (drop (16 * ?M) ?x @ ?rest)"
    unfolding append_assoc[symmetric] append_take_drop_id by simp
  moreover have "ctr_xor (key f) icb n (take (16 * ?M) ?x @ (drop (16 * ?M) ?x @ ?rest)) = ?y @ ctr_xor (key f) icb (n + ?M) (drop (16 * ?M) ?x @ ?rest)"
    using M by (intro ctr_xor_append) simp
  ultimately have e: "ctr_xor (key f) icb n (p @ concat (map ch_data (ch # chs))) = (?y @ res) @ ctr_xor (key f) icb n' p'"
    unfolding r(5) append_assoc by (simp only:)
  have "length ?y = 16 * ?M" using M by simp
  then have "take (16 * ?M) (?y @ drop (16 * ?M) (ch_outb ch)) = ?y" by (metis append_eq_conv_conj)
  then have "ctr_updates vaes call ctx (ch # chs) c = Some (?y @ res, ctx', c')"
    unfolding ctr_updates.simps u(1) bind.simps prod.case r(1) by (simp only: refl not_True_eq_False if_False simp_thms)
  with e r(2-4) show ?case by blast
qed

lemma process_run:
  assumes "finite {u. intr u}" "length icb = 16" "ready (aes_fun ctx)" "\<forall>ch \<in> set chs. chunk_ok ch" "stream_at icb 0 q ctx" "\<not> has_vaes ctx" "16 \<le> outsize"
  shows "\<exists>c'. ctr_process vaes call ctx chs ob outb outsize c = Some (ctr_xor (key (aes_fun ctx)) icb 0 (q @ concat (map ch_data chs)), c')"
proof -
  from updates_run[OF assms(1-6) refl, of vaes c] obtain res n p ctx' c1 where
    u: "ctr_updates vaes call ctx chs c = Some (res, ctx', c1)" "stream_at icb n p ctx'" "\<not> has_vaes ctx'" "aes_fun ctx' = aes_fun ctx"
    "ctr_xor (key (aes_fun ctx)) icb 0 (q @ concat (map ch_data chs)) = res @ ctr_xor (key (aes_fun ctx)) icb n p" by auto
  have "ready (aes_fun ctx')" "length p \<le> outsize" using assms(3,7) u(2,4) by (simp_all add: stream_at_def)
  from final_run[OF assms(1) this(1) assms(2) u(2,3) this(2), of vaes ob outb c1] obtain c' where
    "aes_128_ctr_stream_final vaes call ctx' ob outb outsize c1 = Some (1, length p, ctr_xor (key (aes_fun ctx)) icb n p @ drop (length p) outb, c')"
    unfolding u(4) by blast
  then show ?thesis unfolding ctr_process_def u(1) u(5) by simp
qed

end

subsection \<open>The AES-NI routine\<close>

text \<open>A page that is marked for clearing the vector registers, or not marked at all.\<close>

definition aes_page :: "(nat \<Rightarrow> block) vec_unit \<Rightarrow> 'e xom_domain \<Rightarrow> u64 \<Rightarrow> (u64 \<Rightarrow> u64) \<Rightarrow> u64 \<Rightarrow> bool" where
  "aes_page vu d cs_base gva_to_gfn ip \<longleftrightarrow> vector_page vu d cs_base gva_to_gfn ip
     \<or> get_reg_clear_type d True cs_base gva_to_gfn (Some ip) = of_nat REG_CLEAR_TYPE_NONE"

lemma aes_page_acts:
  assumes "aes_page vu d cs_base gva_to_gfn ip"
  shows "\<exists>intr'. acts ip (reg_clear vu d cs_base gva_to_gfn) intr intr' \<and> (\<forall>u. intr' u \<longrightarrow> intr u)"
proof (cases "vector_page vu d cs_base gva_to_gfn ip")
  case True
  with clears_acts[OF reg_clear_cleared] show ?thesis by blast
next
  case False
  with assms have "acts ip (reg_clear vu d cs_base gva_to_gfn) intr (\<lambda>_. False)"
    by (simp add: aes_page_def acts_def reg_clear_def handle_register_clear_def)
  then show ?thesis by blast
qed

abbreviation (input) code_key :: "aes_image \<Rightarrow> (u64 \<Rightarrow> u8 list) \<Rightarrow> u64 \<Rightarrow> block" where
  "code_key im fetch f \<equiv> key_block (imm64 (fetch f) (key_lo_at im)) (imm64 (fetch f) (key_hi_at im))"

interpretation aesni: gctr_routine "call_aesni_implementation im fetch (reg_clear vu d cs_base gva_to_gfn) intr"
  "aes_page vu d cs_base gva_to_gfn" "code_key im fetch" cpu_time intr
  for im fetch vu d cs_base gva_to_gfn intr
proof unfold_locales
  fix f n and icb :: block and xs ys :: "block list" and c :: aes_cpu
  assume a: "aes_page vu d cs_base gva_to_gfn f" "length icb = (16 :: nat)" "0 < n" "n < 2 ^ 32" "n \<le> length xs" "n \<le> length ys"
  let ?s = "\<lparr>gp = (cpu_regs c)\<lparr>rip := f, rcx := ucast (of_nat n :: u32)\<rparr>, xmm = cpu_xmm c, pos = 0, inp = xs, outp = ys, in_place = False\<rparr>"
  have n: "ucast (of_nat n :: u32) = (of_nat n :: u64)" "n < 2 ^ 64" using a(4) by (simp_all add: word_unat_eq_iff unsigned_ucast_eq unat_of_nat take_bit_nat_eq_self)
  from aes_page_acts[OF a(1)] obtain intr' where i: "acts f (reg_clear vu d cs_base gva_to_gfn) intr intr'" "\<forall>u. intr' u \<longrightarrow> intr u" by blast
  have pre: "acts (rip (gp ?s)) (reg_clear vu d cs_base gva_to_gfn) intr intr'" "pos ?s = 0" "rcx (gp ?s) = of_nat n" "\<not> in_place ?s"
    "n \<le> length (outp ?s)" "n \<le> length (inp ?s)" using i(1) n(1) a(5,6) by simp_all
  from gctr_run[OF pre(1) a(2,3) n(2) pre(2-6), of "imm64 (fetch f) (key_lo_at im)" "imm64 (fetch f) (key_hi_at im)" "cpu_time c"]
  obtain r t s where r: "aes_aesni_gctr_linear (reg_clear vu d cs_base gva_to_gfn) intr (imm64 (fetch f) (key_lo_at im)) (imm64 (fetch f) (key_hi_at im))
      icb (cpu_time c) ?s = Some (of_nat r, t, s)" "cpu_time c < t" "r \<le> n"
    "gctr_done (code_key im fetch f) icb xs 0 n r ys (outp s)" "r \<noteq> 0 \<longrightarrow> interrupted intr' (cpu_time c) t" by auto
  have "call_aesni_implementation im fetch (reg_clear vu d cs_base gva_to_gfn) intr f icb xs ys False (of_nat n) c =
      Some (of_nat r, outp s, \<lparr>cpu_regs = gp s, cpu_xmm = xmm s, cpu_time = t\<rparr>)"
    unfolding call_aesni_implementation_def r(1) bind.simps prod.case ..
  moreover have "r \<noteq> 0 \<longrightarrow> interrupted intr (cpu_time c) t" using r(5) i(2) by (auto simp: interrupted_def)
  ultimately show "\<exists>r zs c'. call_aesni_implementation im fetch (reg_clear vu d cs_base gva_to_gfn) intr f icb xs ys False (of_nat n) c = Some (of_nat r, zs, c')
      \<and> r \<le> n \<and> gctr_done (code_key im fetch f) icb xs 0 n r ys zs \<and> cpu_time c \<le> cpu_time c' \<and> (r \<noteq> 0 \<longrightarrow> interrupted intr (cpu_time c) (cpu_time c'))"
    using r(2-4) by (intro exI conjI) auto
qed simp

text \<open>The key is in the immediate operands of the code that is staged.\<close>

definition image_ok :: "aes_image \<Rightarrow> bool" where
  "image_ok im \<longleftrightarrow> key_lo_at im + 10 \<le> key_hi_at im + 2 \<and> key_hi_at im + 10 \<le> length (image im)"

lemma length_copy_to [simp]: "off + length src \<le> length dest \<Longrightarrow> length (copy_to dest off src) = length dest"
  by (simp add: copy_to_def)

lemma copy_to_there: "off + length src \<le> length dest \<Longrightarrow> take (length src) (drop off (copy_to dest off src)) = src"
  by (simp add: copy_to_def)

lemma copy_to_before: "i + n \<le> off \<Longrightarrow> off \<le> length dest \<Longrightarrow> take n (drop i (copy_to dest off src)) = take n (drop i dest)"
  by (auto simp: copy_to_def drop_take min_def)

lemma le_val_less: "le_val bs < 256 ^ length bs"
proof (induction bs)
  case (Cons b bs)
  have "unat b < 256" using unsigned_less[of b] by simp
  with Cons show ?case by simp
qed simp

lemma setup_key:
  assumes "image_ok im" "length k = 16" "fetch f = setup_128_key im (image im) k"
  shows "code_key im fetch f = k"
proof -
  let ?a = "key_lo_at im + 2" and ?b = "key_hi_at im + 2" and ?i = "image im"
  have l: "?a + 8 \<le> ?b" "?b + 8 \<le> length ?i" using assms(1) by (simp_all add: image_ok_def)
  let ?d = "copy_to ?i ?a (take 8 k)"
  have h: "length (take 8 k) = 8" "length (take 8 (drop 8 k)) = 8" "take 8 (drop 8 k) = drop 8 k" using assms(2) by simp_all
  have d: "length ?d = length ?i" using l h(1) by simp
  have "take 8 (drop ?a (fetch f)) = take 8 (drop ?a ?d)" unfolding assms(3) setup_128_key_def using l d by (intro copy_to_before) simp_all
  also have "\<dots> = take 8 k" using copy_to_there[of ?a "take 8 k" ?i] l h(1) by simp
  finally have "take 8 (drop ?a (fetch f)) = take 8 k" .
  moreover have "take 8 (drop ?b (fetch f)) = drop 8 k"
    unfolding assms(3) setup_128_key_def using copy_to_there[of ?b "take 8 (drop 8 k)" ?d] l d h by simp
  moreover have "le_bytes 8 (unat (of_nat (le_val bs) :: u64)) = bs" if "length bs = 8" for bs :: "u8 list"
    using le_val_less[of bs] le_bytes_le_val[of bs] that by (simp add: unat_of_nat)
  ultimately show ?thesis using assms(2) by (simp add: key_block_def imm64_def)
qed

subsection \<open>Streams\<close>

text \<open>A successful initialisation; bytes that wait in the context stay there.\<close>

lemma init_stream:
  assumes "aes_128_ctr_init os vaes_im im staging a k ivec st = Some (1, st')" "ctr_ctxs st a = Some ctx" "\<not> has_vaes ctx"
    and "ctr_ctxs st' a = Some ctx'" "length (block ctx) = 16" "length p < 16" "block_offset ctx = of_nat (length p)" "take (length p) (block ctx) = p"
  shows "stream_at ivec 0 p ctx'" "\<not> has_vaes ctx'" "length k = 16" "length ivec = 16"
proof -
  show k: "length k = 16" "length ivec = 16" using assms(1,2) by (auto simp: aes_128_ctr_init_def split: if_splits)
  have "\<exists>f. ctx' = ctx\<lparr>oiv := ivec, iv := ivec, ctr := load_ctr ivec, aes_fun := f\<rparr>"
    using assms(1-4) k by (auto simp: aes_128_ctr_init_def Let_def split: bind_splits)
  then show "stream_at ivec 0 p ctx'" "\<not> has_vaes ctx'" using assms(3,5-8) ctr_add_0[OF k(2)] by (auto simp: stream_at_def ctx_at_def)
qed

text \<open>A small instance: code of 40 bytes, a pool with one page, and a context with one byte that waits or none.\<close>

definition sample_image :: aes_image where
  "sample_image = \<lparr>image = replicate 40 0x90, key_lo_at = 2, key_hi_at = 20\<rparr>"

definition sample_provider :: "u8 \<Rightarrow> u8 list list provider" where
  "sample_provider off = \<lparr>ctr_ctxs = [1 \<mapsto> \<lparr>oiv = replicate 16 0, iv = replicate 16 0, block = 7 # replicate 15 0, refcount = 1, block_offset = off,
       aes_fun = 0, num = 0, ctr = 0, has_vaes = False, marked_ctx = False\<rparr>], refcounts = [1 \<mapsto> 1],
     pool = [\<lparr>subpages = Sp_live \<lparr>sp_address = 0x2000, sp_mode = XOM_MODE_SLAT, sp_lock_status = [0], sp_num_subpages = 32, references = 0\<rparr>,
       last_page_marked = 0, subpages_used = 0, buffers_used = {}\<rparr>], xomlib = sample_lib\<rparr>"

definition sample_chunk :: ctr_chunk where
  "sample_chunk = \<lparr>ch_out = 0x100, ch_outb = replicate 50 0, ch_outsize = 50, ch_in = 0x200, ch_data = replicate 20 3\<rparr>"

abbreviation (input) sample_init :: "u8 \<Rightarrow> (int \<times> u8 list list provider) option" where
  "sample_init off \<equiv> aes_128_ctr_init sample_os sample_image sample_image 0x9000 1 (replicate 16 1) (replicate 16 2) (sample_provider off)"

lemma sample_init_ok: "\<exists>st' ctx'. sample_init off = Some (1, st') \<and> ctr_ctxs st' 1 = Some ctx' \<and> aes_fun ctx' = 0x2000"
proof -
  have f: "xom_fill_and_lock_subpages_internal sample_os \<lparr>sp_address = 0x2000, sp_mode = XOM_MODE_SLAT, sp_lock_status = [0], sp_num_subpages = 32,
      references = 0\<rparr> 40 src l = Some (0x2000, \<lparr>sp_address = 0x2000, sp_mode = XOM_MODE_SLAT, sp_lock_status = [1], sp_num_subpages = 32,
      references = 1\<rparr>, snd (lib_write sample_os (fill_cmd sample_os \<lparr>sp_address = 0x2000, sp_mode = XOM_MODE_SLAT, sp_lock_status = [0], sp_num_subpages = 32,
      references = 0\<rparr> 1 src 0 0 (world l)) l))" for src l
    by (simp add: xom_fill_and_lock_subpages_internal_def subpage_count_def subpage_positions_def position_free_def write_into_subpages_def fill_cmd_def
        sample_os_def lib_write_def syscall_ret_def Let_def upt_rec)
  show ?thesis
    by (simp add: aes_128_ctr_init_def sample_provider_def sample_image_def setup_128_key_def subpage_pool_lock_into_xom_def fill_entry_def
        bytes_to_subpages_def xom_fill_and_lock_subpages_def f Let_def case_prod_unfold)
qed

lemma sample_aes_page: "aes_page sample_vec sample_dom 0 (\<lambda>a. drop_bit 12 a) 0x2000"
  by (simp add: aes_page_def vector_page_def get_reg_clear_type_def gfn_of_rip_def sample_dom_def sample_vec_def clear_vector_regs_def
      get_page_info_entry_def)

lemma sample_stream_ok: "image_ok sample_image" "\<forall>ch \<in> set [sample_chunk, sample_chunk]. chunk_ok ch" "finite {u. u = (150 :: nat)}" "16 \<le> (16 :: nat)"
  by (simp_all add: image_ok_def sample_image_def chunk_ok_def sample_chunk_def)

text \<open>
  C8: counter mode of the provider is correct. After the initialisation of a fresh context for AES-NI, and given that the CPU executes the staged code at the address the pool returned, any sequence of
  updates on disjoint buffers with room for one more block, and the final call, return and have written exactly the input XOR the key stream
  of the key and the initial counter block; this holds for every finite number of interruptions, with register clearing on the page or without.
\<close>

theorem ctr_stream_correct:
  assumes "aes_128_ctr_init os vaes_im im staging a k ivec st = Some (1, st')"
    and "ctr_ctxs st a = Some ctx" "\<not> has_vaes ctx" "block_offset ctx = 0" "length (block ctx) = 16" "ctr_ctxs st' a = Some ctx'"
    and "image_ok im" "fetch (aes_fun ctx') = setup_128_key im (image im) k" "aes_page vu d cs_base gva_to_gfn (aes_fun ctx')"
    and "finite {u. intr u}" "\<forall>ch \<in> set chs. chunk_ok ch" "16 \<le> outsize"
  shows "\<exists>c'. ctr_process vaes (call_aesni_implementation im fetch (reg_clear vu d cs_base gva_to_gfn) intr) ctx' chs ob outb outsize c
    = Some (ctr_xor k ivec 0 (concat (map ch_data chs)), c')"
proof -
  have "block_offset ctx = of_nat (length [])" "length [] < (16 :: nat)" "take (length []) (block ctx) = []" using assms(4) by simp_all
  note i = init_stream[OF assms(1-3,6,5) this(2,1,3)]
  from aesni.process_run[OF assms(10) i(4) assms(9,11) i(1,2) assms(12), where im = im and fetch = fetch] setup_key[of im k fetch "aes_fun ctx'", OF assms(7) i(3) assms(8)] show ?thesis by simp
qed

theorem ctr_stream_correct_witness:
  "\<exists>ctx' c'. ctr_process (\<lambda>_ _ _ _ _ _ _. None) (call_aesni_implementation sample_image (\<lambda>_. setup_128_key sample_image (image sample_image) (replicate 16 1))
       (reg_clear sample_vec sample_dom 0 (\<lambda>a. drop_bit 12 a)) (\<lambda>u. u = 150)) ctx' [sample_chunk, sample_chunk] [] (replicate 16 0) 16
       \<lparr>cpu_regs = regs_zero, cpu_xmm = (\<lambda>_. []), cpu_time = 0\<rparr> = Some (ctr_xor (replicate 16 1) (replicate 16 2) 0 (replicate 40 3), c')"
proof -
  obtain st' ctx' where i: "sample_init 0 = Some (1, st')" "ctr_ctxs st' 1 = Some ctx'" "aes_fun ctx' = 0x2000" using sample_init_ok by blast
  have "ctr_ctxs (sample_provider 0) 1 = Some (the (ctr_ctxs (sample_provider 0) 1))" "\<not> has_vaes (the (ctr_ctxs (sample_provider 0) 1))"
    "block_offset (the (ctr_ctxs (sample_provider 0) 1)) = 0" "length (block (the (ctr_ctxs (sample_provider 0) 1))) = 16"
    by (simp_all add: sample_provider_def)
  from ctr_stream_correct[OF i(1) this i(2) sample_stream_ok(1) refl _ sample_stream_ok(3,2,4)] sample_aes_page i(3) show ?thesis
    by (fastforce simp: sample_chunk_def replicate_add[symmetric])
qed

text \<open>
  Bytes of an earlier stream get into the next one. Neither the final call nor the initialisation resets the bytes that wait for a full block: if a context has such bytes when it is
  initialised again, the output of the new stream is that of these bytes followed by the new input.
\<close>

lemma ctr_reinit_keeps_rest:
  assumes "aes_128_ctr_init os vaes_im im staging a k ivec st = Some (1, st')"
    and "ctr_ctxs st a = Some ctx" "\<not> has_vaes ctx" "length (block ctx) = 16" "ctr_ctxs st' a = Some ctx'"
    and "length p < 16" "block_offset ctx = of_nat (length p)" "take (length p) (block ctx) = p"
    and "image_ok im" "fetch (aes_fun ctx') = setup_128_key im (image im) k" "aes_page vu d cs_base gva_to_gfn (aes_fun ctx')"
    and "finite {u. intr u}" "\<forall>ch \<in> set chs. chunk_ok ch" "16 \<le> outsize"
  shows "\<exists>c'. ctr_process vaes (call_aesni_implementation im fetch (reg_clear vu d cs_base gva_to_gfn) intr) ctx' chs ob outb outsize c
    = Some (ctr_xor k ivec 0 (p @ concat (map ch_data chs)), c')"
proof -
  note i = init_stream[OF assms(1-3,5,4,6-8)]
  from aesni.process_run[OF assms(12) i(4) assms(11,13) i(1,2) assms(14), where im = im and fetch = fetch] setup_key[of im k fetch "aes_fun ctx'", OF assms(9) i(3) assms(10)] show ?thesis by simp
qed

text \<open>
  Retrying in place loses data. If the routine works in place, for a page marked for register clearing, and is interrupted between the load of the first block and its store, then it
  returns the full count, which asks the caller to do the same call again, but the buffer no longer depends on the block that was in it.
\<close>

lemma in_place_retry_loses_data:
  assumes "vector_page vu d cs_base gva_to_gfn f" "length icb = 16" "cpu_time c + 131 \<le> u" "u < cpu_time c + 143" "intr u"
  shows "\<exists>zs c1 c2. call_aesni_implementation im fetch (reg_clear vu d cs_base gva_to_gfn) intr f icb xs (b # ys) True n c = Some (ucast n, zs, c1)
    \<and> call_aesni_implementation im fetch (reg_clear vu d cs_base gva_to_gfn) intr f icb xs (b' # ys) True n c = Some (ucast n, zs, c2)"
proof -
  let ?s = "\<lambda>b. \<lparr>gp = (cpu_regs c)\<lparr>rip := f, rcx := ucast n\<rparr>, xmm = cpu_xmm c, pos = 0, inp = xs, outp = b # ys, in_place = True\<rparr>"
  let ?lo = "imm64 (fetch f) (key_lo_at im)" and ?hi = "imm64 (fetch f) (key_hi_at im)"
  have i: "interrupted intr (cpu_time c + 131) (cpu_time c + 143)" using assms(3-5) by (auto simp: interrupted_def)
  have pre: "clears_at (rip (gp (?s b))) (reg_clear vu d cs_base gva_to_gfn)" "pos (?s b) < length (outp (?s b))" "in_place (?s b)"
    "?s b' = (?s b)\<lparr>outp := (outp (?s b))[pos (?s b) := b']\<rparr>" "rcx (gp (?s b)) = ucast n"
    using reg_clear_cleared[OF assms(1)] by simp_all
  from interrupted_in_place[OF pre(1) assms(2) pre(2,3) i pre(4), of ?lo ?hi, unfolded pre(5)] obtain t s1 s2 where
    r: "aes_aesni_gctr_linear (reg_clear vu d cs_base gva_to_gfn) intr ?lo ?hi icb (cpu_time c) (?s b) = Some (ucast n, t, s1)"
    "aes_aesni_gctr_linear (reg_clear vu d cs_base gva_to_gfn) intr ?lo ?hi icb (cpu_time c) (?s b') = Some (ucast n, t, s2)" "outp s1 = outp s2" by blast
  then show ?thesis unfolding call_aesni_implementation_def r(1,2) bind.simps prod.case by simp
qed

subsection \<open>Contexts\<close>

text \<open>The contexts that share a reference count, and that each count is their number.\<close>

definition users :: "'w provider \<Rightarrow> nat \<Rightarrow> nat set" where
  "users st r = {a. \<exists>ctx. ctr_ctxs st a = Some ctx \<and> refcount ctx = r}"

definition ref_ok :: "u32 option \<Rightarrow> nat set \<Rightarrow> bool" where
  "ref_ok n us \<longleftrightarrow> (case n of None \<Rightarrow> us = {} | Some n \<Rightarrow> n = of_nat (card us) \<and> 0 < card us \<and> card us < 2 ^ 32)"

definition refs_ok :: "'w provider \<Rightarrow> bool" where
  "refs_ok st \<longleftrightarrow> finite (dom (ctr_ctxs st)) \<and> (\<forall>r. ref_ok (refcounts st r) (users st r))"

lemma finite_users: "refs_ok st \<Longrightarrow> finite (users st r)"
  by (rule finite_subset[of _ "dom (ctr_ctxs st)"]) (auto simp: users_def refs_ok_def)

lemma refs_okD:
  assumes "refs_ok st" "ctr_ctxs st a = Some ctx" "us = users st (refcount ctx)"
  shows "refcounts st (refcount ctx) = Some (of_nat (card us))" "a \<in> us" "card us < 2 ^ 32" "0 < card us"
proof -
  show a: "a \<in> us" using assms(2,3) by (auto simp: users_def)
  have "ref_ok (refcounts st (refcount ctx)) us" using assms(1,3) by (simp add: refs_ok_def)
  with a show "refcounts st (refcount ctx) = Some (of_nat (card us))" "card us < 2 ^ 32" "0 < card us"
    by (auto simp: ref_ok_def split: option.splits)
qed

lemma refs_ok_change:
  assumes "refs_ok st" "finite (dom (ctr_ctxs st'))" "ref_ok (refcounts st' r) (users st' r)"
    and "\<And>q. q \<noteq> r \<Longrightarrow> refcounts st' q = refcounts st q \<and> users st' q = users st q"
  shows "refs_ok st'"
  unfolding refs_ok_def
proof (intro conjI allI)
  show "ref_ok (refcounts st' q) (users st' q)" for q using assms by (cases "q = r") (simp_all add: refs_ok_def)
qed (rule assms(2))

lemma newctx_refs:
  assumes "refs_ok st" "ctr_ctxs st a = None" "refcounts st r = None"
  shows "refs_ok (aes_128_ctr_newctx v a r st)"
proof (rule refs_ok_change[OF assms(1), of _ r])
  have "ref_ok (refcounts st r) (users st r)" using assms(1) by (simp add: refs_ok_def)
  then have "users st r = {}" using assms(3) by (simp add: ref_ok_def)
  then have "users (aes_128_ctr_newctx v a r st) r = {a}" by (auto simp: users_def aes_128_ctr_newctx_def)
  then show "ref_ok (refcounts (aes_128_ctr_newctx v a r st) r) (users (aes_128_ctr_newctx v a r st) r)"
    by (simp add: ref_ok_def aes_128_ctr_newctx_def)
  show "finite (dom (ctr_ctxs (aes_128_ctr_newctx v a r st)))" using assms(1) by (simp add: refs_ok_def aes_128_ctr_newctx_def)
  show "refcounts (aes_128_ctr_newctx v a r st) q = refcounts st q \<and> users (aes_128_ctr_newctx v a r st) q = users st q" if "q \<noteq> r" for q
    using assms(2) that by (auto simp: users_def aes_128_ctr_newctx_def)
qed

lemma dupctx_refs:
  assumes "refs_ok st" "ctr_ctxs st a = Some ctx" "ctr_ctxs st b = None" "card (users st (refcount ctx)) + 1 < 2 ^ 32"
  shows "\<exists>st'. aes_128_ctr_dupctx a b st = Some st' \<and> refs_ok st'"
proof -
  note u = refs_okD[OF assms(1,2) refl]
  let ?n = "card (users st (refcount ctx))"
  let ?st = "st\<lparr>ctr_ctxs := (ctr_ctxs st)(b \<mapsto> ctx), refcounts := (refcounts st)(refcount ctx \<mapsto> of_nat ?n + 1)\<rparr>"
  have us: "users ?st q = (if q = refcount ctx then insert b (users st q) else users st q)" for q using assms(3) by (auto simp: users_def)
  have "b \<notin> users st (refcount ctx)" using assms(3) by (auto simp: users_def)
  then have "card (users ?st (refcount ctx)) = ?n + 1" unfolding us using finite_users[OF assms(1)] by simp
  then have "ref_ok (refcounts ?st (refcount ctx)) (users ?st (refcount ctx))" using assms(4) by (simp add: ref_ok_def)
  moreover have "finite (dom (ctr_ctxs ?st))" using assms(1) by (simp add: refs_ok_def)
  ultimately have "refs_ok ?st" using us by (intro refs_ok_change[OF assms(1), of ?st "refcount ctx"]) simp_all
  moreover have "aes_128_ctr_dupctx a b st = Some ?st" using assms(2) u(1) by (simp add: aes_128_ctr_dupctx_def)
  ultimately show ?thesis by blast
qed

lemma freectx_refs:
  assumes "refs_ok st" "ctr_ctxs st a = Some ctx" "subpage_pool_free os (aes_fun ctx) (pool st) (xomlib st) = Some (pl, l)"
  shows "\<exists>st'. aes_128_ctr_freectx os a st = Some st' \<and> refs_ok st' \<and> ctr_ctxs st' = (ctr_ctxs st)(a := None)
    \<and> (if users st (refcount ctx) = {a} then pool st' = pl \<and> refcounts st' (refcount ctx) = None
       else pool st' = pool st \<and> xomlib st' = xomlib st)"
proof -
  note u = refs_okD[OF assms(1,2) refl]
  let ?r = "refcount ctx" let ?n = "card (users st ?r)"
  have f: "finite (users st ?r)" by (rule finite_users[OF assms(1)])
  have us: "users st' q = (if q = ?r then users st q - {a} else users st q)" if "ctr_ctxs st' = (ctr_ctxs st)(a := None)" for st' q
    using assms(2) that by (auto simp: users_def)
  have c: "card (users st ?r - {a}) = ?n - 1" using u(2) f by simp
  have d: "(of_nat ?n :: u32) - 1 = of_nat (?n - 1)" using u(4) by (simp add: of_nat_diff)
  have "unat (of_nat (?n - 1) :: u32) = (?n - 1) mod 2 ^ 32" by (simp only: unat_of_nat len_32)
  also have "\<dots> = ?n - 1" using u(3) by simp
  finally have z: "(of_nat ?n :: u32) - 1 = 0 \<longleftrightarrow> ?n = 1" unfolding d word_unat_eq_iff using u(4) by (simp only: unsigned_0) arith
  have fin: "finite (dom ((ctr_ctxs st)(a := None)))" using assms(1) by (simp add: refs_ok_def)
  show ?thesis
  proof (cases "?n = 1")
    case True
    let ?st = "st\<lparr>pool := pl, xomlib := l, refcounts := (refcounts st)(?r := None), ctr_ctxs := (ctr_ctxs st)(a := None)\<rparr>"
    have e: "users st ?r = {a}" using True u(2) by (auto simp: card_1_singleton_iff)
    then have "refs_ok ?st" using us[of ?st] fin by (intro refs_ok_change[OF assms(1), of ?st ?r]) (simp_all add: ref_ok_def)
    then show ?thesis using assms(2,3) u(1) z True e by (simp add: aes_128_ctr_freectx_def)
  next
    case False
    let ?st = "st\<lparr>refcounts := (refcounts st)(?r \<mapsto> of_nat ?n - 1), ctr_ctxs := (ctr_ctxs st)(a := None)\<rparr>"
    have e: "users st ?r \<noteq> {a}" using False by auto
    have "ref_ok (refcounts ?st ?r) (users ?st ?r)" unfolding us[of ?st, simplified] using c d u(3,4) False by (simp add: ref_ok_def)
    then have "refs_ok ?st" using us[of ?st] fin by (intro refs_ok_change[OF assms(1), of ?st ?r]) simp_all
    then show ?thesis using assms(2) u(1) z False e by (simp add: aes_128_ctr_freectx_def)
  qed
qed

text \<open>
  C40: contexts share their code safely. If each reference count is the number of live contexts that point to it, then this is so after creating, duplicating and freeing a
  context; duplicating and freeing never find the count already freed; and the code is given back to the pool exactly with the last of the contexts that share it.
\<close>

theorem ctr_refcount_invariant:
  assumes "refs_ok st"
  shows "(\<forall>v a r. ctr_ctxs st a = None \<longrightarrow> refcounts st r = None \<longrightarrow> refs_ok (aes_128_ctr_newctx v a r st))
    \<and> (\<forall>a b ctx. ctr_ctxs st a = Some ctx \<longrightarrow> ctr_ctxs st b = None \<longrightarrow> card (users st (refcount ctx)) + 1 < 2 ^ 32 \<longrightarrow>
         (\<exists>st'. aes_128_ctr_dupctx a b st = Some st' \<and> refs_ok st'))
    \<and> (\<forall>a ctx pl l. ctr_ctxs st a = Some ctx \<longrightarrow> subpage_pool_free os (aes_fun ctx) (pool st) (xomlib st) = Some (pl, l) \<longrightarrow>
         (\<exists>st'. aes_128_ctr_freectx os a st = Some st' \<and> refs_ok st'
           \<and> pool st' = (if users st (refcount ctx) = {a} then pl else pool st)))"
proof (intro conjI allI impI)
  fix a ctx pl l assume "ctr_ctxs st a = Some ctx" "subpage_pool_free os (aes_fun ctx) (pool st) (xomlib st) = Some (pl, l)"
  from freectx_refs[OF assms this] show "\<exists>st'. aes_128_ctr_freectx os a st = Some st' \<and> refs_ok st'
      \<and> pool st' = (if users st (refcount ctx) = {a} then pl else pool st)" by (auto split: if_splits)
qed (use newctx_refs[OF assms] dupctx_refs[OF assms] in blast)+

theorem ctr_refcount_invariant_witness:
  "(\<exists>st'. aes_128_ctr_dupctx 1 2 (sample_provider 0) = Some st' \<and> refs_ok st') \<and> (\<exists>st'. aes_128_ctr_freectx sample_os 1 (sample_provider 0) = Some st' \<and> refs_ok st')"
proof -
  have u: "users (sample_provider 0) r = (if r = 1 then {1} else {})" for r by (auto simp: users_def sample_provider_def split: if_splits)
  have ok: "refs_ok (sample_provider 0)" unfolding refs_ok_def u by (auto simp: ref_ok_def sample_provider_def)
  let ?ctx = "the (ctr_ctxs (sample_provider 0) 1)"
  have c: "ctr_ctxs (sample_provider 0) 1 = Some ?ctx" "ctr_ctxs (sample_provider 0) 2 = None" "refcount ?ctx = 1" "aes_fun ?ctx = 0"
    by (simp_all add: sample_provider_def)
  have "subpage_pool_free sample_os (aes_fun ?ctx) (pool (sample_provider 0)) (xomlib (sample_provider 0)) = Some (pool (sample_provider 0), xomlib (sample_provider 0))"
    unfolding c(4) by (simp add: subpage_pool_free_def)
  moreover have "card (users (sample_provider 0) (refcount ?ctx)) + 1 < 2 ^ 32" unfolding c(3) u by simp
  ultimately show ?thesis using ctr_refcount_invariant[OF ok, of sample_os] c(1,2) by blast
qed

end
