(* ===== verification/Arm_P2m.thy ===== *)
theory Arm_P2m
  imports P2m
begin

text \<open>
  The stage-2 page tables of the ARM port: \<^verbatim>\<open>xen/xen/arch/arm/mmu/p2m.c\<close>, the entry format of
  \<^verbatim>\<open>asm/lpae.h\<close>, the types of \<^verbatim>\<open>asm/p2m.h\<close> and the look-ups of \<^verbatim>\<open>xen/xen/arch/arm/p2m.c\<close>.

  ARM numbers the levels from the root down to level 3; here a table has a height, which is 3 minus its
  level, so that height 0 holds the 4K pages. A table is a function from its 512 indices to nodes; a
  node is an entry together with the table it points to when it is a table entry. Entries have no room
  for the access right, which the code keeps in the radix tree \<^verbatim>\<open>mem_access_settings\<close>; the radix tree
  is a map. The statistics, the cache maintenance and the reference counts of foreign pages are not
  part of the state.
\<close>

subsection \<open>Entries\<close>

datatype arm_type =
    arm_invalid | arm_ram_rw | arm_ram_ro | arm_mmio_direct_dev | arm_mmio_direct_nc
  | arm_mmio_direct_c | arm_map_foreign_rw | arm_map_foreign_ro | arm_grant_map_rw
  | arm_grant_map_ro | arm_iommu_map_rw | arm_iommu_map_ro

definition arm_is_ram :: "arm_type \<Rightarrow> bool" where
  "arm_is_ram t \<longleftrightarrow> t \<in> {arm_ram_rw, arm_ram_ro}"

definition arm_is_foreign :: "arm_type \<Rightarrow> bool" where
  "arm_is_foreign t \<longleftrightarrow> t \<in> {arm_map_foreign_rw, arm_map_foreign_ro}"

definition arm_is_any_ram :: "arm_type \<Rightarrow> bool" where
  "arm_is_any_ram t \<longleftrightarrow> arm_is_ram t \<or> t \<in> {arm_grant_map_rw, arm_grant_map_ro} \<or> arm_is_foreign t"

record lpae_t =
  l_valid :: bool
  l_table :: bool
  l_mattr :: nat
  l_read :: bool
  l_write :: bool
  l_sh :: nat
  l_af :: bool
  l_base :: u64
  l_xn :: bool
  l_type :: arm_type

definition lpae_zero :: lpae_t where
  "lpae_zero = \<lparr>l_valid = False, l_table = False, l_mattr = 0, l_read = False, l_write = False, l_sh = 0,
     l_af = False, l_base = 0, l_xn = False, l_type = arm_invalid\<rparr>"

definition arm_is_valid :: "lpae_t \<Rightarrow> bool" where
  "arm_is_valid e \<longleftrightarrow> l_type e \<noteq> arm_invalid"

text \<open>\<^verbatim>\<open>lpae_is_mapping\<close> by height: a 4K entry has the table bit set, a superpage has it clear.\<close>

definition lpae_is_mapping :: "lpae_t \<Rightarrow> nat \<Rightarrow> bool" where
  "lpae_is_mapping e h = (if h = 0 then l_table e else \<not> l_table e)"

text \<open>\<^verbatim>\<open>lpae_set_mfn\<close>: the base field has 36 bits.\<close>

definition lpae_set_mfn :: "lpae_t \<Rightarrow> u64 \<Rightarrow> lpae_t" where
  "lpae_set_mfn e mfn = e\<lparr>l_base := take_bit 36 mfn\<rparr>"

text \<open>\<^verbatim>\<open>P2M_CLEAR_PERM\<close>: the entry without its three permission bits.\<close>

definition P2M_CLEAR_PERM :: "lpae_t \<Rightarrow> lpae_t" where
  "P2M_CLEAR_PERM e = e\<lparr>l_read := False, l_write := False, l_xn := False\<rparr>"

text \<open>\<^verbatim>\<open>p2m_set_permission\<close>: the permissions of the type, then the restriction by access.\<close>

definition arm_type_perms :: "arm_type \<Rightarrow> lpae_t \<Rightarrow> lpae_t" where
  "arm_type_perms t e =
     (if t = arm_ram_rw then e\<lparr>l_xn := False, l_write := True\<rparr>
      else if t = arm_ram_ro then e\<lparr>l_xn := False, l_write := False\<rparr>
      else if t \<in> {arm_iommu_map_rw, arm_map_foreign_rw, arm_grant_map_rw, arm_mmio_direct_dev,
                   arm_mmio_direct_nc, arm_mmio_direct_c}
      then e\<lparr>l_xn := True, l_write := True\<rparr>
      else e\<lparr>l_xn := True, l_write := False\<rparr>)"

fun arm_access_perms :: "p2m_access_t \<Rightarrow> lpae_t \<Rightarrow> lpae_t" where
  "arm_access_perms p2m_access_rwx e = e"
| "arm_access_perms p2m_access_wx e = e\<lparr>l_read := False\<rparr>"
| "arm_access_perms p2m_access_rw e = e\<lparr>l_xn := True\<rparr>"
| "arm_access_perms p2m_access_w e = e\<lparr>l_read := False, l_xn := True\<rparr>"
| "arm_access_perms p2m_access_rx e = e\<lparr>l_write := False\<rparr>"
| "arm_access_perms p2m_access_rx2rw e = e\<lparr>l_write := False\<rparr>"
| "arm_access_perms p2m_access_x e = e\<lparr>l_write := False, l_read := False\<rparr>"
| "arm_access_perms p2m_access_r e = e\<lparr>l_write := False, l_xn := True\<rparr>"
| "arm_access_perms p2m_access_n e = e\<lparr>l_read := False, l_write := False, l_xn := True\<rparr>"
| "arm_access_perms p2m_access_n2rwx e = e\<lparr>l_read := False, l_write := False, l_xn := True\<rparr>"

definition p2m_set_permission :: "lpae_t \<Rightarrow> arm_type \<Rightarrow> p2m_access_t \<Rightarrow> lpae_t" where
  "p2m_set_permission e t a = arm_access_perms a (arm_type_perms t e)"

abbreviation (input) MATTR_DEV :: nat where "MATTR_DEV \<equiv> 1"
abbreviation (input) MATTR_MEM_NC :: nat where "MATTR_MEM_NC \<equiv> 5"
abbreviation (input) MATTR_MEM :: nat where "MATTR_MEM \<equiv> 15"
abbreviation (input) LPAE_SH_OUTER :: nat where "LPAE_SH_OUTER \<equiv> 2"
abbreviation (input) LPAE_SH_INNER :: nat where "LPAE_SH_INNER \<equiv> 3"

definition mfn_to_p2m_entry :: "u64 \<Rightarrow> arm_type \<Rightarrow> p2m_access_t \<Rightarrow> lpae_t" where
  "mfn_to_p2m_entry mfn t a =
     (let e = lpae_zero\<lparr>l_af := True, l_read := True, l_table := True, l_valid := True, l_type := t\<rparr>;
          e = (if t = arm_mmio_direct_dev then e\<lparr>l_mattr := MATTR_DEV, l_sh := LPAE_SH_OUTER\<rparr>
               else if t = arm_mmio_direct_c then e\<lparr>l_mattr := MATTR_MEM, l_sh := LPAE_SH_OUTER\<rparr>
               else if t = arm_mmio_direct_nc then e\<lparr>l_mattr := MATTR_MEM_NC, l_sh := LPAE_SH_OUTER\<rparr>
               else e\<lparr>l_mattr := MATTR_MEM, l_sh := LPAE_SH_INNER\<rparr>)
      in lpae_set_mfn (p2m_set_permission e t a) mfn)"

definition page_to_p2m_table :: "u64 \<Rightarrow> lpae_t" where
  "page_to_p2m_table page = mfn_to_p2m_entry page arm_ram_rw p2m_access_rwx"

subsection \<open>Tables and state\<close>

datatype lpae_node = Pte lpae_t | Ptab lpae_t "nat \<Rightarrow> lpae_node"

type_synonym lpae_table = "nat \<Rightarrow> lpae_node"

fun node_pte :: "lpae_node \<Rightarrow> lpae_t" where
  "node_pte (Pte e) = e"
| "node_pte (Ptab e t) = e"

text \<open>
  \<^verbatim>\<open>struct p2m_domain\<close>: the concatenated root tables, the free list the domain's page-table pages come
  from, the range of mapped frames, the pending and performed TLB flushes, and the access rights.
\<close>

record arm_p2m =
  a_root :: "nat \<Rightarrow> lpae_table"
  a_freelist :: "u64 list"
  a_max_gfn :: u64
  a_lowest_gfn :: u64
  a_need_flush :: bool
  a_flushes :: nat
  a_access_required :: bool
  a_mem_access_enabled :: bool
  a_default_access :: p2m_access_t
  a_settings :: "u64 \<rightharpoonup> p2m_access_t"

text \<open>
  What the code asks of the rest of the hypervisor: the geometry of the root (height and number of
  concatenated pages), whether the domain is dying, the IOMMU and the result of flushing it, whether a
  new node of the radix tree cannot be allocated, and references on pages.
\<close>

record arm_env =
  av_root_height :: nat
  av_root_pages :: nat
  av_is_dying :: bool
  av_iommu_enabled :: bool
  av_iotlb_flush :: "u64 \<Rightarrow> nat \<Rightarrow> int"
  av_radix_nomem :: "(u64 \<rightharpoonup> p2m_access_t) \<Rightarrow> u64 \<Rightarrow> bool"
  av_mfn_valid :: "u64 \<Rightarrow> bool"
  av_get_page :: "u64 \<Rightarrow> bool"

abbreviation (input) XEN_PT_LPAE_SHIFT :: nat where "XEN_PT_LPAE_SHIFT \<equiv> 9"
abbreviation (input) XEN_PT_LPAE_ENTRIES :: nat where "XEN_PT_LPAE_ENTRIES \<equiv> 512"
abbreviation (input) ENOENT :: int where "ENOENT \<equiv> 2"

text \<open>\<^verbatim>\<open>DECLARE_OFFSETS\<close>: the index into a table of a given height.\<close>

definition table_offset :: "nat \<Rightarrow> u64 \<Rightarrow> nat" where
  "table_offset h gfn = unat (take_bit XEN_PT_LPAE_SHIFT (drop_bit (h * XEN_PT_LPAE_SHIFT) gfn))"

definition p2m_get_root_pointer :: "arm_env \<Rightarrow> u64 \<Rightarrow> nat option" where
  "p2m_get_root_pointer env gfn =
     (let root_table = unat (drop_bit (av_root_height env * XEN_PT_LPAE_SHIFT + XEN_PT_LPAE_SHIFT) gfn)
      in if root_table \<ge> av_root_pages env then None else Some root_table)"

definition p2m_force_tlb_flush_sync :: "arm_p2m \<Rightarrow> arm_p2m" where
  "p2m_force_tlb_flush_sync p = p\<lparr>a_need_flush := False, a_flushes := Suc (a_flushes p)\<rparr>"

definition p2m_tlb_flush_sync :: "arm_p2m \<Rightarrow> arm_p2m" where
  "p2m_tlb_flush_sync p = (if a_need_flush p then p2m_force_tlb_flush_sync p else p)"

definition p2m_mem_access_radix_get :: "arm_p2m \<Rightarrow> u64 \<Rightarrow> p2m_access_t" where
  "p2m_mem_access_radix_get p gfn =
     (if \<not> a_mem_access_enabled p then a_default_access p
      else case a_settings p gfn of None \<Rightarrow> p2m_access_rwx | Some a \<Rightarrow> a)"

definition p2m_mem_access_radix_set :: "arm_env \<Rightarrow> arm_p2m \<Rightarrow> u64 \<Rightarrow> p2m_access_t \<Rightarrow> int \<times> arm_p2m" where
  "p2m_mem_access_radix_set env p gfn a =
     (if \<not> a_mem_access_enabled p then (0, p)
      else if a = p2m_access_rwx then (0, p\<lparr>a_settings := (a_settings p)(gfn := None)\<rparr>)
      else if a_settings p gfn = None \<and> av_radix_nomem env (a_settings p) gfn then (- ENOMEM, p)
      else (0, p\<lparr>a_settings := (a_settings p)(gfn \<mapsto> a)\<rparr>))"

subsection \<open>Reading an entry\<close>

text \<open>
  The walk of \<^verbatim>\<open>p2m_get_entry\<close> (\<^verbatim>\<open>p2m_next_level\<close> in read-only mode): the height of a missing table,
  or the entry the walk ends at with its height.
\<close>

primrec lpae_walk :: "nat \<Rightarrow> lpae_table \<Rightarrow> u64 \<Rightarrow> nat + (lpae_t \<times> nat)" where
  "lpae_walk 0 tbl gfn = Inr (node_pte (tbl (table_offset 0 gfn)), 0)"
| "lpae_walk (Suc h) tbl gfn =
     (let e = node_pte (tbl (table_offset (Suc h) gfn))
      in if \<not> arm_is_valid e then Inl (Suc h)
         else if lpae_is_mapping e (Suc h) then Inr (e, Suc h)
         else case tbl (table_offset (Suc h) gfn) of
           Ptab e t \<Rightarrow> lpae_walk h t gfn
         | Pte e \<Rightarrow> Inl (Suc h))"

text \<open>The loop for a frame above \<^verbatim>\<open>max_mapped_gfn\<close>: the height of the invalid range.\<close>

fun height_above :: "nat \<Rightarrow> u64 \<Rightarrow> u64 \<Rightarrow> nat" where
  "height_above 0 gfn mx = 0"
| "height_above (Suc h) gfn mx =
     (if gfn AND drop_bit PAGE_SHIFT (NOT (push_bit (Suc h * XEN_PT_LPAE_SHIFT + PAGE_SHIFT) 1 - 1)) > mx
      then Suc h else height_above h gfn mx)"

text \<open>
  \<^verbatim>\<open>p2m_get_entry\<close>: the frame, the type, the access right, the page order and the valid bit. The
  output argument for the access right is written only when the entry is valid, so it is an option.
\<close>

definition arm_get_entry ::
  "arm_env \<Rightarrow> arm_p2m \<Rightarrow> u64 \<Rightarrow> u64 \<times> arm_type \<times> p2m_access_t option \<times> nat \<times> bool" where
  "arm_get_entry env p gfn =
     (if gfn > a_max_gfn p
      then (INVALID_MFN, arm_invalid, None,
            height_above (av_root_height env) gfn (a_max_gfn p) * XEN_PT_LPAE_SHIFT, False)
      else case p2m_get_root_pointer env gfn of
        None \<Rightarrow> (INVALID_MFN, arm_invalid, None, av_root_height env * XEN_PT_LPAE_SHIFT, False)
      | Some r \<Rightarrow>
          case lpae_walk (av_root_height env) (a_root p r) gfn of
            Inl h \<Rightarrow> (INVALID_MFN, arm_invalid, None, h * XEN_PT_LPAE_SHIFT, False)
          | Inr (e, h) \<Rightarrow>
              if arm_is_valid e
              then (l_base e + take_bit (h * XEN_PT_LPAE_SHIFT) gfn, l_type e,
                    Some (p2m_mem_access_radix_get p gfn), h * XEN_PT_LPAE_SHIFT, l_valid e)
              else (INVALID_MFN, arm_invalid, None, h * XEN_PT_LPAE_SHIFT, False))"

text \<open>\<^verbatim>\<open>p2m_get_page_from_gfn\<close> for a guest: the frame of the page a reference was taken on.\<close>

definition arm_get_page_from_gfn :: "arm_env \<Rightarrow> arm_p2m \<Rightarrow> u64 \<Rightarrow> u64 option" where
  "arm_get_page_from_gfn env p gfn =
     (let (mfn, p2mt, _) = arm_get_entry env p gfn
      in if \<not> arm_is_any_ram p2mt then None
         else if \<not> av_mfn_valid env mfn then None
         else if arm_is_foreign p2mt then Some mfn
         else if av_get_page env mfn then Some mfn else None)"

subsection \<open>Writing an entry\<close>

definition p2m_create_table :: "arm_p2m \<Rightarrow> (lpae_t \<times> lpae_table \<times> arm_p2m) option" where
  "p2m_create_table p =
     (case a_freelist p of
        [] \<Rightarrow> None
      | page # rest \<Rightarrow> Some (page_to_p2m_table page, \<lambda>i. Pte lpae_zero, p\<lparr>a_freelist := rest\<rparr>))"

text \<open>\<^verbatim>\<open>p2m_free_entry\<close>: the tables below an entry, innermost first, go to the end of the free list.\<close>

primrec lpae_freed :: "lpae_node \<Rightarrow> u64 list" where
  "lpae_freed (Pte e) = []"
| "lpae_freed (Ptab e t) = concat (map (\<lambda>i. lpae_freed (t i)) [0..<XEN_PT_LPAE_ENTRIES]) @ [l_base e]"

fun p2m_free_entry :: "arm_p2m \<Rightarrow> lpae_node \<Rightarrow> arm_p2m" where
  "p2m_free_entry p (Pte e) = p"
| "p2m_free_entry p (Ptab e t) =
     (p2m_tlb_flush_sync p)\<lparr>a_freelist := a_freelist p @ lpae_freed (Ptab e t)\<rparr>"

text \<open>Entry \<open>i\<close> of the table of height \<open>h\<close> that replaces a superpage entry.\<close>

definition split_pte :: "lpae_t \<Rightarrow> nat \<Rightarrow> nat \<Rightarrow> lpae_t" where
  "split_pte e h i =
     (lpae_set_mfn e (l_base e + push_bit (h * XEN_PT_LPAE_SHIFT) (of_nat i)))\<lparr>l_table := (h = 0)\<rparr>"

text \<open>
  \<^verbatim>\<open>p2m_split_superpage\<close> for a superpage entry of the given height down to height \<open>target\<close>, along the
  path of \<open>gfn\<close>. (It is only called above the target.)
\<close>

primrec p2m_split_superpage ::
  "nat \<Rightarrow> nat \<Rightarrow> u64 \<Rightarrow> lpae_t \<Rightarrow> arm_p2m \<Rightarrow> bool \<times> lpae_node \<times> arm_p2m" where
  "p2m_split_superpage 0 target gfn e p = (True, Pte e, p)"
| "p2m_split_superpage (Suc h) target gfn e p =
     (case a_freelist p of
        [] \<Rightarrow> (False, Pte e, p)
      | page # rest \<Rightarrow>
          let p = p\<lparr>a_freelist := rest\<rparr>;
              tbl = (\<lambda>i. Pte (split_pte e h i));
              i = table_offset h gfn;
              (rv, node, p) = (if h \<noteq> target then p2m_split_superpage h target gfn (split_pte e h i) p
                               else (True, tbl i, p))
          in (rv, Ptab (page_to_p2m_table page) (tbl(i := node)), p))"

text \<open>
  The part of \<^verbatim>\<open>__p2m_set_entry\<close> after the target entry was found, at height \<open>h\<close>: the radix tree is
  updated first; then the entry is removed or replaced, and the TLB flushed at once or later.
\<close>

definition lpae_update ::
  "arm_env \<Rightarrow> nat \<Rightarrow> u64 \<Rightarrow> nat \<Rightarrow> u64 \<Rightarrow> arm_type \<Rightarrow> p2m_access_t \<Rightarrow> arm_p2m \<Rightarrow> lpae_node
    \<Rightarrow> int \<times> lpae_node \<times> arm_p2m" where
  "lpae_update env h sgfn order smfn t a p node =
     (let orig_pte = node_pte node;
          removing = (smfn = INVALID_MFN);
          (rc, p) = p2m_mem_access_radix_set env p sgfn a
      in if rc \<noteq> 0 then (rc, node, p)
         else let pte = (if removing then lpae_zero
                         else if h > 0 then (mfn_to_p2m_entry smfn t a)\<lparr>l_table := False\<rparr>
                         else mfn_to_p2m_entry smfn t a);
                  p = (if removing then p\<lparr>a_need_flush := a_need_flush p \<or> l_valid orig_pte\<rparr>
                       else let p = (if l_valid orig_pte
                                     then if \<not> a_mem_access_enabled p
                                             \<or> P2M_CLEAR_PERM pte \<noteq> P2M_CLEAR_PERM orig_pte
                                          then p2m_force_tlb_flush_sync p else p\<lparr>a_need_flush := True\<rparr>
                                     else p)
                            in p\<lparr>a_max_gfn := max (a_max_gfn p) (sgfn + (push_bit order 1 - 1)),
                                 a_lowest_gfn := min (a_lowest_gfn p) sgfn\<rparr>);
                  rc = (if av_iommu_enabled env \<and> (l_valid orig_pte \<or> l_valid pte)
                        then av_iotlb_flush env sgfn (2 ^ order) else 0);
                  p = (if arm_is_valid orig_pte \<and> l_base pte \<noteq> l_base orig_pte
                       then p2m_free_entry p node else p)
              in (rc, Pte pte, p))"

text \<open>
  The walk of \<^verbatim>\<open>__p2m_set_entry\<close> down to height \<open>target\<close>, creating missing tables unless a mapping is
  removed, and shattering a superpage on the way; \<open>upd\<close> is what happens at the target. (The last
  branch, an entry of table kind without a table, does not occur.)
\<close>

primrec lpae_walk_rw ::
  "(arm_p2m \<Rightarrow> lpae_node \<Rightarrow> int \<times> lpae_node \<times> arm_p2m) \<Rightarrow> nat \<Rightarrow> bool \<Rightarrow> nat \<Rightarrow> lpae_table \<Rightarrow> u64 \<Rightarrow> arm_p2m
    \<Rightarrow> int \<times> lpae_table \<times> arm_p2m" where
  "lpae_walk_rw upd target removing 0 tbl gfn p =
     (let i = table_offset 0 gfn; (rc, node, p) = upd p (tbl i) in (rc, tbl(i := node), p))"
| "lpae_walk_rw upd target removing (Suc h) tbl gfn p =
     (let i = table_offset (Suc h) gfn;
          e = node_pte (tbl i);
          descend = (\<lambda>e t p. let (rc, t, p) = lpae_walk_rw upd target removing h t gfn p
                             in (rc, tbl(i := Ptab e t), p))
      in if Suc h \<le> target
         then let (rc, node, p) = upd p (tbl i) in (rc, tbl(i := node), p)
         else if \<not> arm_is_valid e
         then if removing then (0, tbl, p)
              else case p2m_create_table p of
                None \<Rightarrow> (- ENOENT, tbl, p)
              | Some (e, t, p) \<Rightarrow> descend e t p
         else if lpae_is_mapping e (Suc h)
         then case p2m_split_superpage (Suc h) target gfn e p of
             (True, Ptab e t, p) \<Rightarrow> descend e t (p2m_force_tlb_flush_sync p)
           | (_, node, p) \<Rightarrow> (- ENOMEM, tbl, p2m_free_entry p node)
         else case tbl i of
           Ptab e t \<Rightarrow> descend e t p
         | Pte e \<Rightarrow> (- ENOENT, tbl, p))"

text \<open>\<^verbatim>\<open>__p2m_set_entry\<close>.\<close>

definition arm_set_entry_order ::
  "arm_env \<Rightarrow> arm_p2m \<Rightarrow> u64 \<Rightarrow> nat \<Rightarrow> u64 \<Rightarrow> arm_type \<Rightarrow> p2m_access_t \<Rightarrow> int \<times> arm_p2m" where
  "arm_set_entry_order env p sgfn order smfn t a =
     (let target = order div XEN_PT_LPAE_SHIFT
      in case p2m_get_root_pointer env sgfn of
        None \<Rightarrow> (- EINVAL, p)
      | Some r \<Rightarrow>
          let (rc, tbl, p) = lpae_walk_rw (lpae_update env target sgfn order smfn t a) target
                (smfn = INVALID_MFN) (av_root_height env) (a_root p r) sgfn p
          in (rc, p\<lparr>a_root := (a_root p)(r := tbl)\<rparr>))"

text \<open>The order of the next chunk of \<^verbatim>\<open>p2m_set_entry\<close>: 1G, 2M, or 4K.\<close>

definition arm_chunk_order :: "arm_p2m \<Rightarrow> u64 \<Rightarrow> nat \<Rightarrow> u64 \<Rightarrow> nat" where
  "arm_chunk_order p sgfn nr smfn =
     (let mask = (if smfn \<noteq> INVALID_MFN then smfn else 0) OR sgfn OR of_nat nr
      in if a_mem_access_enabled p then 0
         else if take_bit 18 mask = 0 then 18
         else if take_bit 9 mask = 0 then 9 else 0)"

function arm_set_entry_loop ::
  "arm_env \<Rightarrow> arm_p2m \<Rightarrow> u64 \<Rightarrow> nat \<Rightarrow> u64 \<Rightarrow> arm_type \<Rightarrow> p2m_access_t \<Rightarrow> int \<times> arm_p2m" where
  "arm_set_entry_loop env p sgfn nr smfn t a =
     (if nr = 0 then (0, p)
      else let order = arm_chunk_order p sgfn nr smfn;
               (rc, p) = arm_set_entry_order env p sgfn order smfn t a
           in if rc \<noteq> 0 then (rc, p)
              else arm_set_entry_loop env p (sgfn + push_bit order 1) (nr - 2 ^ order)
                     (if smfn \<noteq> INVALID_MFN then smfn + push_bit order 1 else smfn) t a)"
  by pat_completeness auto
termination
  by (relation "measure (\<lambda>(_, _, _, nr, _). nr)") auto

declare arm_set_entry_loop.simps [simp del]

definition arm_set_entry ::
  "arm_env \<Rightarrow> arm_p2m \<Rightarrow> u64 \<Rightarrow> nat \<Rightarrow> u64 \<Rightarrow> arm_type \<Rightarrow> p2m_access_t \<Rightarrow> int \<times> arm_p2m" where
  "arm_set_entry env p sgfn nr smfn t a =
     (if av_is_dying env then (- ENOMEM, p) else arm_set_entry_loop env p sgfn nr smfn t a)"

text \<open>\<^verbatim>\<open>p2m_write_unlock\<close> flushes what is pending; \<^verbatim>\<open>p2m_insert_mapping\<close> is the common mapping function.\<close>

definition p2m_write_unlock :: "arm_p2m \<Rightarrow> arm_p2m" where
  "p2m_write_unlock p = p2m_tlb_flush_sync p"

definition p2m_insert_mapping ::
  "arm_env \<Rightarrow> arm_p2m \<Rightarrow> u64 \<Rightarrow> nat \<Rightarrow> u64 \<Rightarrow> arm_type \<Rightarrow> int \<times> arm_p2m" where
  "p2m_insert_mapping env p start_gfn nr mfn t =
     (let (rc, p) = arm_set_entry env p start_gfn nr mfn t (a_default_access p)
      in (rc, p2m_write_unlock p))"

subsection \<open>Translation faults\<close>

text \<open>\<^verbatim>\<open>p2m_invalidate_table\<close>: the valid bit of every entry is cleared.\<close>

fun invalidate_node :: "lpae_node \<Rightarrow> lpae_node" where
  "invalidate_node (Pte e) = Pte (e\<lparr>l_valid := False\<rparr>)"
| "invalidate_node (Ptab e t) = Ptab (e\<lparr>l_valid := False\<rparr>) t"

definition p2m_invalidate_table :: "lpae_table \<Rightarrow> lpae_table" where
  "p2m_invalidate_table t = (\<lambda>i. invalidate_node (t i))"

text \<open>
  The walk of \<^verbatim>\<open>p2m_resolve_translation_fault\<close> and the update at the entry it stops at: whether the
  fault is resolved, the table, and whether a table was invalidated.
\<close>

primrec lpae_resolve :: "nat \<Rightarrow> lpae_table \<Rightarrow> u64 \<Rightarrow> bool \<times> lpae_table \<times> bool" where
  "lpae_resolve 0 tbl gfn =
     (let i = table_offset 0 gfn; e = node_pte (tbl i)
      in if l_valid e then (True, tbl, False)
         else if \<not> arm_is_valid e then (False, tbl, False)
         else (True, tbl(i := Pte (e\<lparr>l_valid := True\<rparr>)), False))"
| "lpae_resolve (Suc h) tbl gfn =
     (let i = table_offset (Suc h) gfn; e = node_pte (tbl i)
      in if \<not> l_valid e
         then if \<not> arm_is_valid e then (False, tbl, False)
              else case tbl i of
                Ptab e t \<Rightarrow> (True, tbl(i := Ptab (e\<lparr>l_valid := True\<rparr>) (p2m_invalidate_table t)), True)
              | Pte e \<Rightarrow> (True, tbl(i := Pte (e\<lparr>l_valid := True\<rparr>)), False)
         else if \<not> arm_is_valid e then (False, tbl, False)
         else case tbl i of
           Ptab e t \<Rightarrow> let (resolved, t, inval) = lpae_resolve h t gfn
                       in (resolved, tbl(i := Ptab e t), inval)
         | Pte e \<Rightarrow> (True, tbl, False))"

definition p2m_resolve_translation_fault :: "arm_env \<Rightarrow> arm_p2m \<Rightarrow> u64 \<Rightarrow> bool \<times> arm_p2m" where
  "p2m_resolve_translation_fault env p gfn =
     (if gfn > a_max_gfn p then (False, p2m_write_unlock p)
      else case p2m_get_root_pointer env gfn of
        None \<Rightarrow> (False, p2m_write_unlock p)
      | Some r \<Rightarrow>
          let (resolved, tbl, inval) = lpae_resolve (av_root_height env) (a_root p r) gfn
          in (resolved, p2m_write_unlock
                (p\<lparr>a_root := (a_root p)(r := tbl), a_need_flush := a_need_flush p \<or> inval\<rparr>)))"

end
