(* ===== verification/Arm_Access.thy ===== *)
theory Arm_Access
  imports Arm_P2m
begin

text \<open>
  Access rights and stage-2 aborts of the ARM port: \<^verbatim>\<open>xen/xen/arch/arm/mem_access.c\<close> and
  \<^verbatim>\<open>do_trap_stage2_abort_guest\<close> of \<^verbatim>\<open>xen/xen/arch/arm/traps.c\<close>. The tables \<^verbatim>\<open>memaccess\<close> translate
  between \<^verbatim>\<open>xenmem_access_t\<close> and \<^verbatim>\<open>p2m_access_t\<close> constructor by constructor, so both are
  \<^typ>\<open>p2m_access_t\<close> here.
\<close>

subsection \<open>mem\_access.c\<close>

definition arm_set_mem_access_single ::
  "arm_env \<Rightarrow> arm_p2m \<Rightarrow> p2m_access_t \<Rightarrow> u64 \<Rightarrow> int \<times> arm_p2m" where
  "arm_set_mem_access_single env p a gfn =
     (let (mfn, t, _) = arm_get_entry env p gfn
      in if mfn = INVALID_MFN \<or> t = arm_invalid then (- ESRCH, p)
         else arm_set_entry env (p\<lparr>a_mem_access_enabled := True\<rparr>) gfn 1 mfn t a)"

text \<open>\<^verbatim>\<open>__p2m_get_mem_access\<close>: the return code and the value of \<^verbatim>\<open>*access\<close>.\<close>

definition arm_get_mem_access :: "arm_env \<Rightarrow> arm_p2m \<Rightarrow> u64 \<Rightarrow> int \<times> p2m_access_t" where
  "arm_get_mem_access env p gfn =
     (if \<not> a_mem_access_enabled p then (0, p2m_access_rwx)
      else if gfn = INVALID_GFN then (0, a_default_access p)
      else case a_settings p gfn of
        None \<Rightarrow> if fst (arm_get_entry env p gfn) = INVALID_MFN then (- ESRCH, a_default_access p)
                else (0, p2m_access_rwx)
      | Some a \<Rightarrow> (0, a))"

text \<open>
  \<^verbatim>\<open>p2m_set_mem_access\<close>: \<open>preempt\<close> is \<^verbatim>\<open>hypercall_preempt_check\<close> at a given position, \<open>access\<close> is
  \<^const>\<open>None\<close> for \<^verbatim>\<open>XENMEM_access_default\<close>. The loop counter has 32 bits and may wrap, so the loop is a
  partial function.
\<close>

definition gfn_next_boundary :: "u64 \<Rightarrow> nat \<Rightarrow> u64" where
  "gfn_next_boundary gfn order = (gfn AND NOT (push_bit order 1 - 1)) + push_bit order 1"

partial_function (option) arm_set_mem_access_loop ::
  "arm_env \<Rightarrow> (u32 \<Rightarrow> bool) \<Rightarrow> u32 \<Rightarrow> u32 \<Rightarrow> p2m_access_t \<Rightarrow> u64 \<Rightarrow> u32 \<Rightarrow> arm_p2m \<Rightarrow> (int \<times> arm_p2m) option" where
  "arm_set_mem_access_loop env preempt nr msk a gfn start p =
     (if \<not> nr > start then Some (0, p)
      else let (mfn, t, _, order, _) = arm_get_entry env p gfn;
               order = (if mfn \<noteq> INVALID_MFN then 0 else order);
               (rc, p) = (if mfn \<noteq> INVALID_MFN then arm_set_entry env p gfn 1 mfn t a else (0, p))
           in if rc \<noteq> 0 then Some (rc, p)
              else let start = start + ucast (gfn_next_boundary gfn order - gfn)
                   in if nr > start \<and> start AND msk = 0 \<and> preempt start then Some (uint start, p)
                      else arm_set_mem_access_loop env preempt nr msk a (gfn_next_boundary gfn order) start p)"

definition arm_set_mem_access ::
  "arm_env \<Rightarrow> (u32 \<Rightarrow> bool) \<Rightarrow> arm_p2m \<Rightarrow> u64 \<Rightarrow> u32 \<Rightarrow> u32 \<Rightarrow> u32 \<Rightarrow> p2m_access_t option
    \<Rightarrow> (int \<times> arm_p2m) option" where
  "arm_set_mem_access env preempt p gfn nr start msk access =
     (let a = (case access of Some a \<Rightarrow> a | None \<Rightarrow> a_default_access p);
          p = p\<lparr>a_mem_access_enabled := True\<rparr>
      in if gfn = INVALID_GFN then Some (0, p\<lparr>a_default_access := a\<rparr>)
         else do {
           (rc, p) \<leftarrow> arm_set_mem_access_loop env preempt nr msk a (gfn + ucast start) start p;
           Some (rc, p2m_write_unlock p)
         })"

text \<open>
  \<^verbatim>\<open>p2m_mem_access_check_and_get_page\<close>, the path of hypervisor copies from and to guest memory: \<open>hw\<close> is
  the result of \<^verbatim>\<open>gva_to_ipa\<close> (none on failure), \<open>sw\<close> that of the software walk \<^verbatim>\<open>guest_walk_tables\<close> with
  whether the mapping is writable.
\<close>

definition p2m_mem_access_check_and_get_page ::
  "arm_env \<Rightarrow> u64 option \<Rightarrow> (u64 \<times> bool) option \<Rightarrow> bool \<Rightarrow> arm_p2m \<Rightarrow> u64 option" where
  "p2m_mem_access_check_and_get_page env hw sw write p = do {
     ipa \<leftarrow> (case hw of
       Some ipa \<Rightarrow> Some ipa
     | None \<Rightarrow> (case sw of
         None \<Rightarrow> None
       | Some (ipa, writable) \<Rightarrow> if write \<and> \<not> writable then None else Some ipa));
     (let gfn = drop_bit PAGE_SHIFT ipa;
          (rc, xma) = arm_get_mem_access env p gfn
      in if rc < 0 then None
         else if xma \<in> {p2m_access_rwx, p2m_access_rw} then None
         else if xma \<in> {p2m_access_wx, p2m_access_w} \<and> write then None
         else if xma \<in> {p2m_access_rx2rw, p2m_access_rx, p2m_access_r} \<and> \<not> write then None
         else let (mfn, t, _) = arm_get_entry env p gfn
              in if mfn = INVALID_MFN \<or> \<not> av_mfn_valid env mfn \<or> t \<noteq> arm_ram_rw then None
                 else if av_get_page env mfn then Some mfn else None)
   }"

definition arm_mem_event :: "u64 \<Rightarrow> u64 \<Rightarrow> npfec \<Rightarrow> mem_event" where
  "arm_mem_event gpa gla npf =
     \<lparr>ev_gfn = drop_bit PAGE_SHIFT gpa, ev_offset = gpa AND (push_bit PAGE_SHIFT 1 - 1),
      ev_flags = (if gla_valid npf
                  then MEM_ACCESS_GLA_VALID
                    OR (if npf_kind npf = npfec_kind_with_gla then MEM_ACCESS_FAULT_WITH_GLA
                        else if npf_kind npf = npfec_kind_in_gpt then MEM_ACCESS_FAULT_IN_GPT else 0)
                  else 0)
        OR (if read_access npf then MEM_ACCESS_R else 0)
        OR (if write_access npf then MEM_ACCESS_W else 0)
        OR (if insn_fetch npf then MEM_ACCESS_X else 0),
      ev_gla = (if gla_valid npf then gla else 0)\<rparr>"

text \<open>The switch of \<^verbatim>\<open>p2m_mem_access_check\<close>: does the access violate the right?\<close>

fun arm_violation :: "p2m_access_t \<Rightarrow> npfec \<Rightarrow> bool" where
  "arm_violation p2m_access_rwx npf = False"
| "arm_violation p2m_access_rw npf = insn_fetch npf"
| "arm_violation p2m_access_wx npf = read_access npf"
| "arm_violation p2m_access_rx npf = write_access npf"
| "arm_violation p2m_access_rx2rw npf = write_access npf"
| "arm_violation p2m_access_x npf = (read_access npf \<or> write_access npf)"
| "arm_violation p2m_access_w npf = (read_access npf \<or> insn_fetch npf)"
| "arm_violation p2m_access_r npf = (write_access npf \<or> insn_fetch npf)"
| "arm_violation p2m_access_n npf = True"
| "arm_violation p2m_access_n2rwx npf = True"

text \<open>
  \<^verbatim>\<open>p2m_mem_access_check\<close>: \<open>ring\<close> is \<^verbatim>\<open>vm_event_check_ring\<close>, \<open>alloc\<close> that \<^verbatim>\<open>xzalloc\<close> succeeds, \<open>traps\<close> is
  \<^verbatim>\<open>monitor_traps\<close> on the request (with its \<^verbatim>\<open>sync\<close> flag). The result has the returned value, the p2m,
  whether the domain was crashed, and the request that was sent.
\<close>

record arm_access_result =
  aa_ret :: bool
  aa_p2m :: arm_p2m
  aa_crashed :: bool
  aa_req :: "mem_event option"

definition arm_mem_access_check ::
  "arm_env \<Rightarrow> (u32 \<Rightarrow> bool) \<Rightarrow> bool \<Rightarrow> bool \<Rightarrow> (bool \<Rightarrow> mem_event \<Rightarrow> int) \<Rightarrow> arm_p2m \<Rightarrow> u64 \<Rightarrow> u64 \<Rightarrow> npfec
    \<Rightarrow> arm_access_result option" where
  "arm_mem_access_check env preempt ring alloc traps p gpa gla npf =
     (let gfn = drop_bit PAGE_SHIFT gpa;
          result = (\<lambda>ret p crashed req. \<lparr>aa_ret = ret, aa_p2m = p, aa_crashed = crashed, aa_req = req\<rparr>);
          (rc, xma) = arm_get_mem_access env p gfn;
          convert = (\<lambda>p a. map_option snd (arm_set_mem_access env preempt p gfn 1 0 (- 1) (Some a)))
      in if \<not> a_mem_access_enabled p \<or> rc \<noteq> 0 \<or> \<not> arm_violation xma npf then Some (result True p False None)
         else if write_access npf \<and> xma = p2m_access_rx2rw
         then map_option (\<lambda>p. result False p False None) (convert p p2m_access_rw)
         else do {
           p \<leftarrow> (if xma = p2m_access_n2rwx then convert p p2m_access_rwx else Some p);
           (if \<not> ring
            then if a_access_required p then Some (result False p True None)
                 else if xma \<noteq> p2m_access_n2rwx
                 then map_option (\<lambda>p. result False p False None) (convert p p2m_access_rwx)
                 else Some (result False p False None)
            else if \<not> alloc then Some (result False p False None)
            else let req = arm_mem_event gpa gla npf
                 in Some (result False p (traps (xma \<noteq> p2m_access_n2rwx) req < 0) (Some req)))
         })"

subsection \<open>Stage-2 aborts\<close>

text \<open>
  The syndrome of an abort from the guest, as \<^verbatim>\<open>do_trap_stage2_abort_guest\<close> reads it, with the fault
  address registers. \<open>ab_gva_to_ipa\<close> is the result of the hardware translation used when \<^verbatim>\<open>HPFAR_EL2\<close> is
  not valid.
\<close>

record arm_abort =
  ab_data :: bool
  ab_eat :: bool
  ab_s1ptw :: bool
  ab_fsc :: u8
  ab_write :: bool
  ab_iss_valid :: bool
  ab_far :: u64
  ab_hpfar :: u64
  ab_gva_to_ipa :: "int \<times> u64"

abbreviation (input) FSC_LL_MASK :: u8 where "FSC_LL_MASK \<equiv> 3"
abbreviation (input) FSC_FLT_TRANS :: u8 where "FSC_FLT_TRANS \<equiv> 4"
abbreviation (input) FSC_FLT_PERM :: u8 where "FSC_FLT_PERM \<equiv> 12"

text \<open>
  The rest of the machine: the CPU erratum, the interrupt controller's region, what the hardware domain
  may map, and the outcome of decoding and emulating a device access.
\<close>

datatype instr_decode_state = INSTR_ERROR | INSTR_VALID | INSTR_LDR_STR_POSTINDEXING | INSTR_CACHE

datatype io_state = IO_ABORT | IO_HANDLED | IO_UNHANDLED | IO_RETRY

record arm_machine =
  am_workaround_834220 :: bool
  am_gic_v2 :: bool
  am_vgic_cbase :: u64
  am_vgic_csize :: u64
  am_vgic_vbase :: u64
  am_acpi_disabled :: bool
  am_hardware_domain :: bool
  am_iomem_permitted :: "u64 \<Rightarrow> bool"
  am_decode :: instr_decode_state
  am_mmio :: io_state

definition get_faulting_ipa :: "u64 \<Rightarrow> u64 \<Rightarrow> u64" where
  "get_faulting_ipa hpfar gva = push_bit (12 - 4) (hpfar AND 0xFFFFFFFFF0) OR (gva AND 0xFFF)"

definition hpfar_is_valid :: "arm_machine \<Rightarrow> bool \<Rightarrow> u8 \<Rightarrow> bool" where
  "hpfar_is_valid m s1ptw fsc \<longleftrightarrow> s1ptw \<or> (fsc = FSC_FLT_TRANS \<and> \<not> am_workaround_834220 m)"

definition try_map_mmio :: "arm_env \<Rightarrow> arm_machine \<Rightarrow> arm_p2m \<Rightarrow> u64 \<Rightarrow> bool \<times> arm_p2m" where
  "try_map_mmio env m p gfn =
     (let gaddr = push_bit PAGE_SHIFT gfn
      in if am_gic_v2 m \<and> gaddr \<ge> am_vgic_cbase m \<and> gaddr - am_vgic_cbase m < am_vgic_csize m
         then let (rc, p) = p2m_insert_mapping env p gfn (unat (am_vgic_csize m) div PAGE_SIZE)
                              (drop_bit PAGE_SHIFT (am_vgic_vbase m)) arm_mmio_direct_dev
              in (rc = 0, p)
         else if am_acpi_disabled m \<or> \<not> am_hardware_domain m \<or> \<not> am_iomem_permitted m gfn then (False, p)
         else let (rc, p) = p2m_insert_mapping env p gfn 1 gfn arm_mmio_direct_c
              in (rc = 0, p))"

definition check_p2m :: "arm_env \<Rightarrow> arm_machine \<Rightarrow> bool \<Rightarrow> arm_p2m \<Rightarrow> u64 \<Rightarrow> bool \<times> arm_p2m" where
  "check_p2m env m is_data p gpa =
     (let (resolved, p) = p2m_resolve_translation_fault env p (drop_bit PAGE_SHIFT gpa)
      in if resolved then (True, p)
         else if is_data then try_map_mmio env m p (drop_bit PAGE_SHIFT gpa)
         else (False, p))"

text \<open>How the trap ends: what the guest sees when it runs again.\<close>

datatype arm_outcome = Guest_serror | Guest_retries | Guest_crashed | Guest_skips
  | Guest_data_abort | Guest_instr_abort

definition inject_abt :: "arm_abort \<Rightarrow> arm_outcome" where
  "inject_abt ab = (if ab_data ab then Guest_data_abort else Guest_instr_abort)"

text \<open>
  The branch of a translation fault. After \<^verbatim>\<open>check_p2m\<close>, decoding and the device emulation give the
  outcome.
\<close>

definition stage2_translation_fault ::
  "arm_env \<Rightarrow> arm_machine \<Rightarrow> arm_abort \<Rightarrow> u64 \<Rightarrow> arm_p2m \<Rightarrow> arm_outcome \<times> arm_p2m" where
  "stage2_translation_fault env m ab gpa p =
     (let early = (\<not> ab_data ab \<or> \<not> ab_iss_valid ab);
          (done1, p) = (if early then check_p2m env m (ab_data ab) p gpa else (False, p))
      in if done1 then (Guest_retries, p)
         else if \<not> ab_data ab then (inject_abt ab, p)
         else if am_decode m = INSTR_ERROR then (inject_abt ab, p)
         else case am_mmio m of
           IO_ABORT \<Rightarrow> (inject_abt ab, p)
         | IO_HANDLED \<Rightarrow> (Guest_skips, p)
         | IO_RETRY \<Rightarrow> (Guest_retries, p)
         | IO_UNHANDLED \<Rightarrow>
             let (done2, p) = (if am_decode m = INSTR_VALID then check_p2m env m (ab_data ab) p gpa
                               else (False, p))
             in (if done2 then Guest_retries else inject_abt ab, p))"

definition do_trap_stage2_abort_guest ::
  "arm_env \<Rightarrow> arm_machine \<Rightarrow> (u32 \<Rightarrow> bool) \<Rightarrow> bool \<Rightarrow> bool \<Rightarrow> (bool \<Rightarrow> mem_event \<Rightarrow> int) \<Rightarrow> arm_abort \<Rightarrow> arm_p2m
    \<Rightarrow> (arm_outcome \<times> arm_p2m) option" where
  "do_trap_stage2_abort_guest env m preempt ring alloc traps ab p =
     (let fsc = ab_fsc ab AND NOT FSC_LL_MASK;
          gva = ab_far ab;
          (rc, gpa) = (if hpfar_is_valid m (ab_s1ptw ab) fsc then (0, get_faulting_ipa (ab_hpfar ab) gva)
                       else ab_gva_to_ipa ab)
      in if ab_eat ab then Some (Guest_serror, p)
         else if rc = - EFAULT then Some (Guest_retries, p)
         else if fsc = FSC_FLT_PERM
         then let npf = \<lparr>read_access = ab_data ab \<and> \<not> ab_write ab, write_access = ab_data ab \<and> ab_write ab,
                         insn_fetch = \<not> ab_data ab, gla_valid = True, npf_present = False,
                         npf_kind = (if ab_s1ptw ab then npfec_kind_in_gpt else npfec_kind_with_gla)\<rparr>
              in map_option (\<lambda>r. (if aa_crashed r then Guest_crashed else Guest_retries, aa_p2m r))
                   (arm_mem_access_check env preempt ring alloc traps p gpa gva npf)
         else if fsc = FSC_FLT_TRANS then Some (stage2_translation_fault env m ab gpa p)
         else Some (inject_abt ab, p))"

end
