(* ===== verification/Arm_Seal.thy ===== *)
theory Arm_Seal
  imports Arm_Access Xom_Seal
begin

text \<open>
  The sealing hypercall of the ARM port, \<^verbatim>\<open>xen/xen/arch/arm/xom_seal.c\<close> and
  \<^verbatim>\<open>xen/xen/arch/arm/mmuext.c\<close>. The page-info trees and the format of a subpage command are the same
  code as in the x86 file and use the same definitions. The p2m lock and \<^verbatim>\<open>d->xom_page_lock\<close> make an
  operation one function. The host p2m is part of the domain, so \<^verbatim>\<open>p2m_get_hostp2m\<close> cannot be NULL.

  \<^verbatim>\<open>p2m_get_entry\<close> does not write the access right of an unmapped frame. The local variable \<^verbatim>\<open>atype\<close>
  then keeps its value from the previous page or, at first, whatever the stack held: the argument
  \<open>junk\<close>. \<^verbatim>\<open>map_domain_page(page)\<close> is read as mapping the page it names.
\<close>

record arm_domain =
  ad_p2m :: arm_p2m
  ad_mem :: "u64 \<Rightarrow> nat \<Rightarrow> u8"
  ad_subpages :: "u32 page_tree"
  ad_reg_clear :: "u8 page_tree"
  ad_heap :: nat

text \<open>ARM does not count page types.\<close>

definition arm_get_page_type :: "u64 \<Rightarrow> bool" where
  "arm_get_page_type mfn = True"

text \<open>The local variable \<^verbatim>\<open>atype\<close> after \<^verbatim>\<open>p2m_get_entry(p2m, gfn, &ptype, &atype, NULL, NULL)\<close>.\<close>

definition read_atype :: "arm_env \<Rightarrow> arm_p2m \<Rightarrow> u64 \<Rightarrow> p2m_access_t \<Rightarrow> p2m_access_t" where
  "read_atype env p gfn atype =
     (let (_, _, a, _) = arm_get_entry env p gfn in case a of Some a \<Rightarrow> a | None \<Rightarrow> atype)"

text \<open>\<^verbatim>\<open>p2m_tlb_flush_sync(p2m); p2m_write_unlock(p2m)\<close>.\<close>

definition arm_finish :: "arm_domain \<Rightarrow> arm_domain" where
  "arm_finish d = d\<lparr>ad_p2m := p2m_write_unlock (p2m_tlb_flush_sync (ad_p2m d))\<rparr>"

subsection \<open>Sealing pages\<close>

fun arm_set_loop :: "arm_env \<Rightarrow> nat \<Rightarrow> u64 \<Rightarrow> int \<Rightarrow> arm_p2m \<Rightarrow> int \<times> arm_p2m" where
  "arm_set_loop env 0 gfn ret p = (ret, p)"
| "arm_set_loop env (Suc n) gfn ret p =
     (let (ret, p) = arm_set_mem_access_single env p p2m_access_x gfn
      in if ret < 0 then (ret, p) else arm_set_loop env n (gfn + 1) ret p)"

definition arm_set_xom_seal :: "arm_env \<Rightarrow> arm_domain \<Rightarrow> u64 \<Rightarrow> u32 \<Rightarrow> int \<times> arm_domain" where
  "arm_set_xom_seal env d gfn nr_pages =
     (if nr_pages = 0 then (- EINVAL, d)
      else if gfn + ucast nr_pages > a_max_gfn (ad_p2m d) + 1 then (- EOVERFLOW, d)
      else let (ret, p) = arm_set_loop env (unat nr_pages) gfn 0 (ad_p2m d)
           in (ret, arm_finish (d\<lparr>ad_p2m := p\<rparr>)))"

subsection \<open>Unsealing pages\<close>

fun arm_clear_loop ::
  "arm_env \<Rightarrow> nat \<Rightarrow> u64 \<Rightarrow> int \<Rightarrow> p2m_access_t \<Rightarrow> arm_domain \<Rightarrow> (int \<times> arm_domain) option" where
  "arm_clear_loop env 0 gfn ret atype d = Some (ret, d)"
| "arm_clear_loop env (Suc n) gfn ret atype d =
     (let atype = read_atype env (ad_p2m d) gfn atype
      in if atype \<noteq> p2m_access_x then arm_clear_loop env n (gfn + 1) ret atype d
         else case arm_get_page_from_gfn env (ad_p2m d) gfn of
           None \<Rightarrow> Some (- EINVAL, d)
         | Some mfn \<Rightarrow>
             if \<not> arm_get_page_type mfn then Some (- EPERM, d)
             else let d = d\<lparr>ad_mem := wipe_frame (ad_mem d) mfn\<rparr>;
                      (ret, p) = arm_set_mem_access_single env (ad_p2m d) p2m_access_rwx gfn;
                      d = d\<lparr>ad_p2m := p\<rparr>
                  in if ret < 0 then Some (ret, d)
                     else do {
                       (sub, heap) \<leftarrow> forget_page (ad_subpages d) (ad_heap d) gfn;
                       (rcl, heap) \<leftarrow> forget_page (ad_reg_clear d) heap gfn;
                       arm_clear_loop env n (gfn + 1) ret atype
                         (d\<lparr>ad_subpages := sub, ad_reg_clear := rcl, ad_heap := heap\<rparr>)
                     })"

definition arm_clear_xom_seal ::
  "arm_env \<Rightarrow> p2m_access_t \<Rightarrow> arm_domain \<Rightarrow> u64 \<Rightarrow> u32 \<Rightarrow> (int \<times> arm_domain) option" where
  "arm_clear_xom_seal env junk d gfn nr_pages =
     (if nr_pages = 0 then Some (- EINVAL, d)
      else if gfn + ucast nr_pages > a_max_gfn (ad_p2m d) + 1 then Some (- EOVERFLOW, d)
      else do {
        (ret, d) \<leftarrow> arm_clear_loop env (unat nr_pages) gfn 0 junk d;
        Some (ret, arm_finish d)
      })"

subsection \<open>Subpages\<close>

fun arm_create_loop ::
  "arm_env \<Rightarrow> nat \<Rightarrow> u64 \<Rightarrow> int \<Rightarrow> p2m_access_t \<Rightarrow> arm_domain \<Rightarrow> (int \<times> arm_domain) option" where
  "arm_create_loop env 0 gfn ret atype d = Some (ret, d)"
| "arm_create_loop env (Suc n) gfn ret atype d =
     (let atype = read_atype env (ad_p2m d) gfn atype
      in if atype = p2m_access_x then Some (- EINVAL, d)
         else let (ret, p) = arm_set_mem_access_single env (ad_p2m d) p2m_access_x gfn;
                  d = d\<lparr>ad_p2m := p\<rparr>
              in if ret < 0 then Some (ret, d)
                 else do {
                   (added, sub, heap) \<leftarrow> add_page_info_entry (ad_subpages d) (ad_heap d) gfn 0;
                   (let d = d\<lparr>ad_subpages := sub, ad_heap := heap\<rparr>
                    in if \<not> added then Some (- ENOMEM, d)
                       else arm_create_loop env n (gfn + 1) ret atype d)
                 })"

definition arm_create_xom_subpages ::
  "arm_env \<Rightarrow> p2m_access_t \<Rightarrow> arm_domain \<Rightarrow> u64 \<Rightarrow> u32 \<Rightarrow> (int \<times> arm_domain) option" where
  "arm_create_xom_subpages env junk d gfn nr_pages =
     (if nr_pages = 0 then Some (- EINVAL, d)
      else if gfn + ucast nr_pages > a_max_gfn (ad_p2m d) + 1 then Some (- EOVERFLOW, d)
      else do {
        (ret, d) \<leftarrow> arm_create_loop env (unat nr_pages) gfn 0 junk d;
        Some (ret, arm_finish d)
      })"

definition arm_write_into_subpage ::
  "arm_env \<Rightarrow> arm_domain \<Rightarrow> u64 \<Rightarrow> u64 \<Rightarrow> (int \<times> arm_domain) option" where
  "arm_write_into_subpage env d gfn_dest gfn_src =
     (case get_page_info_entry (ad_subpages d) gfn_dest of
        None \<Rightarrow> Some (- EINVAL, d)
      | Some subpage_info \<Rightarrow>
        if gfn_src > a_max_gfn (ad_p2m d) then Some (- EOVERFLOW, d)
        else case arm_get_page_from_gfn env (ad_p2m d) gfn_src of
          None \<Rightarrow> Some (- EINVAL, d)
        | Some src \<Rightarrow>
          let command = read_write_command (ad_mem d src);
              wis = take (unat (num_subpages command)) (write_info command)
          in if unat (num_subpages command) > MAX_SUBPAGES_PER_CMD then Some (- EINVAL, d)
             else do {
               lock_status \<leftarrow> page_info_get subpage_info;
               (if \<not> valid_targets lock_status wis then Some (- EINVAL, d)
                else case arm_get_page_from_gfn env (ad_p2m d) gfn_dest of
                  None \<Rightarrow> Some (- EINVAL, d)
                | Some dest \<Rightarrow>
                    if \<not> arm_get_page_type dest then Some (- EPERM, d)
                    else let (pg, lock_status) = write_subpages wis (ad_mem d dest) lock_status
                         in do {
                           sub \<leftarrow> page_info_put subpage_info lock_status;
                           Some (0, d\<lparr>ad_mem := (ad_mem d)(dest := pg), ad_subpages := sub\<rparr>)
                         })
             })"

subsection \<open>Register-clear pages\<close>

definition arm_mark_reg_clear_page ::
  "arm_env \<Rightarrow> p2m_access_t \<Rightarrow> arm_domain \<Rightarrow> u64 \<Rightarrow> u32 \<Rightarrow> (int \<times> arm_domain) option" where
  "arm_mark_reg_clear_page env junk d gfn reg_clear_type =
     (if reg_clear_type = 0 \<or> reg_clear_type > of_nat REG_CLEAR_TYPE_FULL then Some (- EINVAL, d)
      else if get_page_info_entry (ad_reg_clear d) gfn \<noteq> None then Some (- EINVAL, d)
      else if read_atype env (ad_p2m d) gfn junk \<noteq> p2m_access_x then Some (- EINVAL, d)
      else do {
        (added, rcl, heap) \<leftarrow>
          add_page_info_entry (ad_reg_clear d) (ad_heap d) gfn (ucast reg_clear_type);
        Some (if added then 0 else - ENOMEM, d\<lparr>ad_reg_clear := rcl, ad_heap := heap\<rparr>)
      })"

subsection \<open>The hypercall\<close>

definition arm_xom_op ::
  "arm_env \<Rightarrow> p2m_access_t \<Rightarrow> arm_domain \<Rightarrow> mmuext_op \<Rightarrow> (int \<times> arm_domain) option" where
  "arm_xom_op env junk d op =
     (if op_cmd op = MMUEXT_MARK_XOM then Some (arm_set_xom_seal env d (op_mfn op) (op_nr_ents op))
      else if op_cmd op = MMUEXT_UNMARK_XOM
        then arm_clear_xom_seal env junk d (op_mfn op) (op_nr_ents op)
      else if op_cmd op = MMUEXT_CREATE_XOM_SPAGES
        then arm_create_xom_subpages env junk d (op_mfn op) (op_nr_ents op)
      else if op_cmd op = MMUEXT_WRITE_XOM_SPAGES
        then arm_write_into_subpage env d (op_mfn op) (op_src_mfn op)
      else if op_cmd op = MMUEXT_MARK_REG_CLEAR
        then arm_mark_reg_clear_page env junk d (op_mfn op) (op_nr_ents op)
      else Some (- EOPNOTSUPP, d))"

text \<open>
  The loop of \<^verbatim>\<open>handle_xom_seal\<close>, as on x86: \<open>preempt i\<close> is \<^verbatim>\<open>hypercall_preempt_check\<close> before operation
  \<open>i\<close>, \<open>junk i\<close> the stack at operation \<open>i\<close>.
\<close>

fun arm_handle_loop ::
  "arm_env \<Rightarrow> (nat \<Rightarrow> p2m_access_t) \<Rightarrow> (nat \<Rightarrow> bool) \<Rightarrow> nat \<Rightarrow> mmuext_op option list \<Rightarrow> arm_domain
    \<Rightarrow> (int \<times> arm_domain \<times> nat option) option" where
  "arm_handle_loop env junk preempt i [] d = Some (0, d, Some i)"
| "arm_handle_loop env junk preempt i (uop # uops) d =
     (if i \<noteq> 0 \<and> preempt i then Some (- ERESTART, d, None)
      else case uop of
        None \<Rightarrow> Some (- EFAULT, d, None)
      | Some op \<Rightarrow> do {
          (rc, d) \<leftarrow> arm_xom_op env (junk i) d op;
          (if rc < 0 then Some (rc, d, None) else arm_handle_loop env junk preempt (Suc i) uops d)
        })"

definition arm_handle_xom_seal ::
  "arm_env \<Rightarrow> (nat \<Rightarrow> p2m_access_t) \<Rightarrow> (nat \<Rightarrow> bool) \<Rightarrow> mmuext_op option list \<Rightarrow> arm_domain
    \<Rightarrow> (int \<times> arm_domain \<times> nat option) option" where
  "arm_handle_xom_seal env junk preempt uops d = arm_handle_loop env junk preempt 0 uops d"

text \<open>\<^verbatim>\<open>do_mmuext_op\<close>: \<open>okay\<close> is \<^verbatim>\<open>guest_handle_okay\<close>.\<close>

definition arm_do_mmuext_op ::
  "arm_env \<Rightarrow> (nat \<Rightarrow> p2m_access_t) \<Rightarrow> (nat \<Rightarrow> bool) \<Rightarrow> bool \<Rightarrow> mmuext_op option list \<Rightarrow> arm_domain
    \<Rightarrow> (int \<times> arm_domain \<times> nat option) option" where
  "arm_do_mmuext_op env junk preempt okay uops d =
     (if \<not> okay then Some (- EFAULT, d, None) else arm_handle_xom_seal env junk preempt uops d)"

text \<open>
  \<^verbatim>\<open>gfn_of_pc\<close> and \<^verbatim>\<open>get_reg_clear_type\<close>: \<open>init\<close> is \<^verbatim>\<open>v->is_initialised\<close>, \<open>walk\<close> the guest page walk
  \<^verbatim>\<open>guest_walk_tables\<close>; \<open>regs\<close> is \<^const>\<open>None\<close> for a NULL pointer, otherwise the program counter.
\<close>

definition gfn_of_pc :: "bool \<Rightarrow> (u64 \<Rightarrow> u64 option) \<Rightarrow> u64 \<Rightarrow> u64" where
  "gfn_of_pc init walk pc =
     (if \<not> init then INVALID_GFN
      else case walk pc of None \<Rightarrow> INVALID_GFN | Some ipa \<Rightarrow> drop_bit PAGE_SHIFT ipa)"

definition arm_get_reg_clear_type ::
  "arm_domain \<Rightarrow> bool \<Rightarrow> (u64 \<Rightarrow> u64 option) \<Rightarrow> u64 option \<Rightarrow> u8" where
  "arm_get_reg_clear_type d init walk regs =
     (case regs of
        None \<Rightarrow> of_nat REG_CLEAR_TYPE_NONE
      | Some pc \<Rightarrow>
          let instr_gfn = gfn_of_pc init walk pc
          in if instr_gfn = INVALID_GFN then of_nat REG_CLEAR_TYPE_NONE
             else case Option.bind (get_page_info_entry (ad_reg_clear d) instr_gfn) page_info_get of
               None \<Rightarrow> of_nat REG_CLEAR_TYPE_NONE
             | Some t \<Rightarrow> t)"

end
