(* ===== verification/Arm_Proofs.thy ===== *)
theory Arm_Proofs
  imports Arm_Access
begin

text \<open>
  Correctness of the ARM stage-2 tables: what a table translates a frame number to, that shattering a
  superpage and creating tables keep every translation, and that a change of the access right of one
  4K page changes exactly that page, in the entry and in the radix tree together.
\<close>

subsection \<open>The translation of a table\<close>

text \<open>The 4K entry that a leaf entry of height \<open>h\<close> amounts to for one frame number.\<close>

definition leaf_of :: "nat \<Rightarrow> lpae_t \<Rightarrow> u64 \<Rightarrow> lpae_t option" where
  "leaf_of h e gfn =
     (if arm_is_valid e then Some (e\<lparr>l_base := l_base e + take_bit (h * 9) gfn, l_table := True\<rparr>) else None)"

primrec lpae_leaf :: "nat \<Rightarrow> lpae_table \<Rightarrow> u64 \<Rightarrow> lpae_t option" where
  "lpae_leaf 0 tbl gfn = leaf_of 0 (node_pte (tbl (table_offset 0 gfn))) gfn"
| "lpae_leaf (Suc h) tbl gfn =
     (let e = node_pte (tbl (table_offset (Suc h) gfn))
      in if \<not> arm_is_valid e then None
         else if lpae_is_mapping e (Suc h) then leaf_of (Suc h) e gfn
         else case tbl (table_offset (Suc h) gfn) of
           Ptab e t \<Rightarrow> lpae_leaf h t gfn
         | Pte e \<Rightarrow> None)"

lemma walk_leaf:
  "lpae_leaf h tbl gfn =
     (case lpae_walk h tbl gfn of Inl _ \<Rightarrow> None | Inr (e, k) \<Rightarrow> leaf_of k e gfn)"
  by (induction h arbitrary: tbl) (auto simp: Let_def split: lpae_node.split)

text \<open>
  A 4K entry has the table bit set and a superpage has it clear; the frames of both fit the base field; a
  table entry has the table bit set and a table of well-formed nodes below it.
\<close>

primrec lnode_ok :: "nat \<Rightarrow> lpae_node \<Rightarrow> bool" where
  "lnode_ok 0 node = (case node of
      Pte e \<Rightarrow> arm_is_valid e \<longrightarrow> l_table e \<and> unat (l_base e) < 2 ^ 36
    | Ptab e t \<Rightarrow> False)"
| "lnode_ok (Suc h) node = (case node of
      Pte e \<Rightarrow> arm_is_valid e \<longrightarrow> \<not> l_table e \<and> unat (l_base e) + 2 ^ (Suc h * 9) \<le> 2 ^ 36
    | Ptab e t \<Rightarrow> arm_is_valid e \<and> l_table e \<and> (\<forall>i < 512. lnode_ok h (t i)))"

definition ltbl_ok :: "nat \<Rightarrow> lpae_table \<Rightarrow> bool" where
  "ltbl_ok h t \<longleftrightarrow> (\<forall>i < 512. lnode_ok h (t i))"

lemma offset_less [simp]: "table_offset h gfn < 512"
  using take_less[of 9 "drop_bit (h * 9) gfn"] by (simp add: table_offset_def)

lemma ltbl_upd: "ltbl_ok h t \<Longrightarrow> lnode_ok h node \<Longrightarrow> ltbl_ok h (t(i := node))"
  by (simp add: ltbl_ok_def)

lemma ltbl_node: "ltbl_ok h t \<Longrightarrow> lnode_ok h (t (table_offset k gfn))"
  by (simp add: ltbl_ok_def)

text \<open>The frames on the path of \<open>gfn\<close> through a table of height \<open>h\<close>.\<close>

primrec same_path :: "nat \<Rightarrow> u64 \<Rightarrow> u64 \<Rightarrow> bool" where
  "same_path 0 g gfn \<longleftrightarrow> table_offset 0 g = table_offset 0 gfn"
| "same_path (Suc h) g gfn \<longleftrightarrow> table_offset (Suc h) g = table_offset (Suc h) gfn \<and> same_path h g gfn"

lemma offset_eq: "table_offset h g = table_offset h gfn \<longleftrightarrow> take_bit 9 (drop_bit (h * 9) g) = take_bit 9 (drop_bit (h * 9) gfn)"
  by (simp add: table_offset_def word_unat_eq_iff)

lemma same_path_eq:
  "same_path h g gfn \<Longrightarrow> drop_bit (h * 9 + 9) g = drop_bit (h * 9 + 9) gfn \<Longrightarrow> g = gfn"
proof (induction h)
  case 0
  then show ?case using same_index_rem[of 9 g gfn] by (simp add: offset_eq)
next
  case (Suc h)
  have "drop_bit (Suc h * 9) g = drop_bit (Suc h * 9) gfn"
    by (rule same_index_rem[of 9]) (use Suc.prems in \<open>simp_all add: offset_eq add.commute\<close>)
  with Suc show ?case by (simp add: add.commute)
qed

lemma split_offset:
  "take_bit (Suc h * 9) (g :: u64) = of_nat (table_offset h g) * push_bit (h * 9) 1 + take_bit (h * 9) g"
proof -
  have "push_bit (h * 9) (drop_bit (h * 9) (take_bit (Suc h * 9) g)) + take_bit (h * 9) (take_bit (Suc h * 9) g)
    = take_bit (Suc h * 9) g" by (rule bits_ident)
  moreover have "drop_bit (h * 9) (take_bit (Suc h * 9) g) = take_bit 9 (drop_bit (h * 9) g)"
    by (simp add: drop_bit_take_bit)
  moreover have "take_bit (h * 9) (take_bit (Suc h * 9) g) = take_bit (h * 9) g" by simp
  ultimately show ?thesis by (simp add: table_offset_def push_bit_eq_mult mult.commute)
qed

subsection \<open>Shattering a superpage\<close>

text \<open>The parts of the state that page-table pages and TLB flushes do not touch.\<close>

definition arm_same :: "arm_p2m \<Rightarrow> arm_p2m \<Rightarrow> bool" where
  "arm_same p q \<longleftrightarrow> a_root q = a_root p \<and> a_max_gfn q = a_max_gfn p \<and> a_lowest_gfn q = a_lowest_gfn p
     \<and> a_access_required q = a_access_required p \<and> a_mem_access_enabled q = a_mem_access_enabled p
     \<and> a_default_access q = a_default_access p \<and> a_settings q = a_settings p"

lemma arm_same_refl [simp]: "arm_same p p"
  by (simp add: arm_same_def)

lemma arm_same_trans: "arm_same p q \<Longrightarrow> arm_same q r \<Longrightarrow> arm_same p r"
  by (simp add: arm_same_def)

lemma arm_same_flush [simp]:
  "arm_same p (p2m_force_tlb_flush_sync q) = arm_same p q"
  "arm_same p (p2m_tlb_flush_sync q) = arm_same p q"
  "arm_same p (q\<lparr>a_freelist := l\<rparr>) = arm_same p q"
  "arm_same p (q\<lparr>a_need_flush := b\<rparr>) = arm_same p q"
  "arm_same p (p2m_free_entry q node) = arm_same p q"
  by (cases node; simp add: arm_same_def p2m_tlb_flush_sync_def p2m_force_tlb_flush_sync_def)+

lemma split_pte_base:
  assumes "unat (l_base e) + 2 ^ (Suc h * 9) \<le> 2 ^ 36" "h \<le> 2" "i < 512"
  shows "l_base (split_pte e h i) = l_base e + of_nat i * push_bit (h * 9) 1"
    and "unat (l_base (split_pte e h i)) + 2 ^ (h * 9) \<le> 2 ^ 36"
proof -
  note f = split_frame[of "l_base e" h 36 i, OF assms(1) _ assms(3)]
  have "take_bit 36 (l_base e + of_nat i * push_bit (h * 9) 1) = l_base e + of_nat i * push_bit (h * 9) 1"
    using f(3) assms(2) by (simp add: word_unat_eq_iff unat_take del: push_bit_of_1)
  then show eq: "l_base (split_pte e h i) = l_base e + of_nat i * push_bit (h * 9) 1"
    by (simp add: split_pte_def lpae_set_mfn_def push_bit_eq_mult mult.commute)
  show "unat (l_base (split_pte e h i)) + 2 ^ (h * 9) \<le> 2 ^ 36"
    unfolding eq using f(2) assms(2) by simp
qed

lemma split_pte_fields [simp]:
  "l_type (split_pte e h i) = l_type e" "l_table (split_pte e h i) = (h = 0)"
  "arm_is_valid (split_pte e h i) = arm_is_valid e"
  by (simp_all add: split_pte_def lpae_set_mfn_def arm_is_valid_def)

lemma split_pte_leaf:
  assumes "unat (l_base e) + 2 ^ (Suc h * 9) \<le> 2 ^ 36" "h \<le> 2"
  shows "leaf_of h (split_pte e h (table_offset h g)) g = leaf_of (Suc h) e g"
  unfolding leaf_of_def split_pte_base[OF assms offset_less] split_offset[of h g]
  by (simp add: add.assoc) (simp add: split_pte_def lpae_set_mfn_def)

lemma split_pte_ok:
  assumes "unat (l_base e) + 2 ^ (Suc h * 9) \<le> 2 ^ 36" "h \<le> 2" "i < 512"
  shows "lnode_ok h (Pte (split_pte e h i))"
  using split_pte_base(2)[OF assms] by (cases h) simp_all

lemma table_entry [simp]:
  "arm_is_valid (page_to_p2m_table page)" "l_table (page_to_p2m_table page)"
  by (simp_all add: page_to_p2m_table_def mfn_to_p2m_entry_def p2m_set_permission_def arm_type_perms_def
      lpae_set_mfn_def arm_is_valid_def)

lemma split_superpage_same: "p2m_split_superpage h target gfn e p = (rv, node, q) \<Longrightarrow> arm_same p q"
proof (induction h arbitrary: e p rv node q)
  case (Suc h)
  show ?case
  proof (cases "a_freelist p")
    case Nil
    with Suc.prems show ?thesis by simp
  next
    case (Cons page rest)
    obtain rv' node' q' where "p2m_split_superpage h target gfn (split_pte e h (table_offset h gfn))
        (p\<lparr>a_freelist := rest\<rparr>) = (rv', node', q')"
      by (metis prod_cases3)
    with Suc.IH[OF this] Suc.prems Cons show ?thesis
      by (auto simp: Let_def arm_same_def split: if_splits)
  qed
qed simp

lemma split_superpage_ok:
  assumes "unat (l_base e) + 2 ^ (Suc h * 9) \<le> 2 ^ 36" "h \<le> 2" "arm_is_valid e"
    and "p2m_split_superpage (Suc h) 0 gfn e p = (True, node, q)"
  shows "\<exists>ne t. node = Ptab ne t \<and> arm_is_valid ne \<and> l_table ne \<and> ltbl_ok h t
    \<and> (\<forall>g. lpae_leaf h t g = leaf_of (Suc h) e g)"
  using assms
proof (induction h arbitrary: e p node q)
  case 0
  then show ?case
    using split_pte_ok[of e 0] split_pte_leaf[of e 0]
    by (auto simp: Let_def ltbl_ok_def split: list.splits)
next
  case (Suc h)
  let ?i = "table_offset (Suc h) gfn"
  obtain page rest where fl: "a_freelist p = page # rest"
    using Suc.prems(4) by (auto split: list.splits)
  obtain rv n q' where s: "p2m_split_superpage (Suc h) 0 gfn (split_pte e (Suc h) ?i) (p\<lparr>a_freelist := rest\<rparr>) = (rv, n, q')"
    by (metis prod_cases3)
  from Suc.prems(4)[unfolded p2m_split_superpage.simps(2)[of "Suc h"]] fl
  have rv: "rv" and node: "node = Ptab (page_to_p2m_table page) ((\<lambda>i. Pte (split_pte e (Suc h) i))(?i := n))"
    by (simp_all add: s Let_def del: p2m_split_superpage.simps)
  note b = split_pte_base[OF Suc.prems(1,2) offset_less]
  obtain ne t where n: "n = Ptab ne t" "arm_is_valid ne" "l_table ne" "ltbl_ok h t"
    and leaf: "\<forall>g. lpae_leaf h t g = leaf_of (Suc h) (split_pte e (Suc h) ?i) g"
    using Suc.IH[OF b(2) _ _ s[unfolded eqTrueI[OF rv]]] Suc.prems(2,3) by auto
  have "lpae_leaf (Suc h) ((\<lambda>i. Pte (split_pte e (Suc h) i))(?i := n)) g = leaf_of (Suc (Suc h)) e g" for g
    unfolding split_pte_leaf[OF Suc.prems(1,2), symmetric]
    using n leaf Suc.prems(3) by (simp add: lpae_is_mapping_def)
  moreover have "ltbl_ok (Suc h) ((\<lambda>i. Pte (split_pte e (Suc h) i))(?i := n))"
    using n split_pte_ok[OF Suc.prems(1,2)] by (auto simp: ltbl_ok_def)
  ultimately show ?case using node by auto
qed

subsection \<open>Writing one page\<close>

lemma arm_empty_table_ok: "ltbl_ok h (\<lambda>i. Pte lpae_zero)" "lpae_leaf h (\<lambda>i. Pte lpae_zero) g = None"
  by (cases h; simp add: ltbl_ok_def lpae_zero_def arm_is_valid_def leaf_of_def)+

text \<open>
  The result of the walk to a 4K entry: other frames keep their leaf; and either the walk ended early
  and the frame keeps its leaf too, or the update \<open>upd\<close> was applied to an entry that amounts to the leaf.
\<close>

definition walked ::
  "(arm_p2m \<Rightarrow> lpae_node \<Rightarrow> int \<times> lpae_node \<times> arm_p2m) \<Rightarrow> bool \<Rightarrow> nat \<Rightarrow> lpae_table \<Rightarrow> u64 \<Rightarrow> arm_p2m
    \<Rightarrow> int \<times> lpae_table \<times> arm_p2m \<Rightarrow> bool" where
  "walked upd removing h tbl gfn p res \<longleftrightarrow>
     (case res of (rc, tbl', q) \<Rightarrow>
        ltbl_ok h tbl' \<and> (\<forall>g. \<not> same_path h g gfn \<longrightarrow> lpae_leaf h tbl' g = lpae_leaf h tbl g)
        \<and> (arm_same p q \<and> (rc < 0 \<or> removing) \<and> (\<forall>g. lpae_leaf h tbl' g = lpae_leaf h tbl g)
           \<or> (\<exists>p1 e node. arm_same p p1 \<and> lnode_ok 0 (Pte e) \<and> upd p1 (Pte e) = (rc, node, q)
                \<and> leaf_of 0 e gfn = lpae_leaf h tbl gfn \<and> lpae_leaf h tbl' gfn = leaf_of 0 (node_pte node) gfn)))"

lemma leaf_table:
  "arm_is_valid e \<Longrightarrow> l_table e \<Longrightarrow> tbl (table_offset (Suc h) g) = Ptab e t \<Longrightarrow> lpae_leaf (Suc h) tbl g = lpae_leaf h t g"
  by (simp add: lpae_is_mapping_def)

lemma leaf_upd_other:
  "table_offset h g \<noteq> i \<Longrightarrow> lpae_leaf h (tbl(i := node)) g = lpae_leaf h tbl g"
  by (cases h) (simp_all add: Let_def)

lemma walked_early:
  assumes "ltbl_ok h tbl" "arm_same p q" "rc < 0 \<or> removing"
  shows "walked upd removing h tbl gfn p (rc, tbl, q)"
  using assms by (simp add: walked_def)

lemma walked_descend:
  assumes tbl: "ltbl_ok (Suc h) tbl" and i: "i = table_offset (Suc h) gfn"
    and w: "walked upd removing h t gfn p1 (rc, t', q)" and p1: "arm_same p p1"
    and ne: "arm_is_valid ne" "l_table ne"
    and leaf: "\<And>g. table_offset (Suc h) g = i \<Longrightarrow> lpae_leaf (Suc h) tbl g = lpae_leaf h t g"
  shows "walked upd removing (Suc h) tbl gfn p (rc, tbl(i := Ptab ne t'), q)"
proof -
  let ?tbl = "tbl(i := Ptab ne t')"
  from w have ok: "ltbl_ok h t'" and other: "\<And>g. \<not> same_path h g gfn \<Longrightarrow> lpae_leaf h t' g = lpae_leaf h t g"
    by (auto simp: walked_def)
  have new: "lpae_leaf (Suc h) ?tbl g = (if table_offset (Suc h) g = i then lpae_leaf h t' g else lpae_leaf (Suc h) tbl g)" for g
    using leaf_table[OF ne, of ?tbl h g t'] leaf_upd_other[of "Suc h" g i tbl] by (simp del: lpae_leaf.simps)
  have "ltbl_ok (Suc h) ?tbl" using tbl ok ne by (simp add: ltbl_ok_def)
  moreover have "lpae_leaf (Suc h) ?tbl g = lpae_leaf (Suc h) tbl g" if "\<not> same_path (Suc h) g gfn" for g
    using that other[of g] leaf[of g] new[of g] i by (auto simp del: lpae_leaf.simps split: if_splits)
  moreover have "arm_same p q \<and> (rc < 0 \<or> removing) \<and> (\<forall>g. lpae_leaf (Suc h) ?tbl g = lpae_leaf (Suc h) tbl g)
     \<or> (\<exists>p1 e node. arm_same p p1 \<and> lnode_ok 0 (Pte e) \<and> upd p1 (Pte e) = (rc, node, q)
          \<and> leaf_of 0 e gfn = lpae_leaf (Suc h) tbl gfn \<and> lpae_leaf (Suc h) ?tbl gfn = leaf_of 0 (node_pte node) gfn)"
  proof (cases "arm_same p1 q \<and> (rc < 0 \<or> removing) \<and> (\<forall>g. lpae_leaf h t' g = lpae_leaf h t g)")
    case True
    with arm_same_trans[OF p1] leaf show ?thesis unfolding new by (auto simp del: lpae_leaf.simps)
  next
    case False
    with w obtain p2 e node where "arm_same p1 p2" "lnode_ok 0 (Pte e)" "upd p2 (Pte e) = (rc, node, q)"
      "leaf_of 0 e gfn = lpae_leaf h t gfn" "lpae_leaf h t' gfn = leaf_of 0 (node_pte node) gfn"
      unfolding walked_def prod.case by blast
    with arm_same_trans[OF p1] leaf[of gfn] new[of gfn] i have "arm_same p p2 \<and> lnode_ok 0 (Pte e) \<and> upd p2 (Pte e) = (rc, node, q)
          \<and> leaf_of 0 e gfn = lpae_leaf (Suc h) tbl gfn \<and> lpae_leaf (Suc h) ?tbl gfn = leaf_of 0 (node_pte node) gfn"
      by (simp del: lpae_leaf.simps lnode_ok.simps)
    then show ?thesis by blast
  qed
  ultimately show ?thesis unfolding walked_def prod.case by blast
qed

lemma walk_rw_walked:
  assumes "ltbl_ok h tbl" "h \<le> 3"
    and "\<And>p e rc node q. lnode_ok 0 (Pte e) \<Longrightarrow> upd p (Pte e) = (rc, node, q) \<Longrightarrow> lnode_ok 0 node"
  shows "walked upd removing h tbl gfn p (lpae_walk_rw upd 0 removing h tbl gfn p)"
  using assms(1,2)
proof (induction h arbitrary: tbl p)
  case 0
  let ?i = "table_offset 0 gfn"
  obtain e where e: "tbl ?i = Pte e" "lnode_ok 0 (Pte e)"
    using ltbl_node[OF 0(1), of 0 gfn] by (cases "tbl ?i") auto
  obtain rc node q where u: "upd p (Pte e) = (rc, node, q)" by (metis prod_cases3)
  have "ltbl_ok 0 (tbl(?i := node))" by (rule ltbl_upd[OF 0(1) assms(3)[OF e(2) u]])
  moreover have "arm_same p p \<and> lnode_ok 0 (Pte e) \<and> upd p (Pte e) = (rc, node, q)
      \<and> leaf_of 0 e gfn = lpae_leaf 0 tbl gfn \<and> lpae_leaf 0 (tbl(?i := node)) gfn = leaf_of 0 (node_pte node) gfn"
    using e u by simp
  moreover have "\<forall>g. \<not> same_path 0 g gfn \<longrightarrow> lpae_leaf 0 (tbl(?i := node)) g = lpae_leaf 0 tbl g"
    using leaf_upd_other[of 0 _ ?i tbl node] by (simp del: lpae_leaf.simps)
  ultimately have "walked upd removing 0 tbl gfn p (rc, tbl(?i := node), q)"
    unfolding walked_def prod.case by blast
  then show ?case by (simp add: Let_def e(1) u)
next
  case (Suc h)
  let ?i = "table_offset (Suc h) gfn"
  let ?r = "\<lambda>t p. lpae_walk_rw upd 0 removing h t gfn p"
  have d: "walked upd removing (Suc h) tbl gfn p (case ?r t p1 of (rc, t, q) \<Rightarrow> (rc, tbl(?i := Ptab ne t), q))"
    if "ltbl_ok h t" "arm_same p p1" "arm_is_valid ne" "l_table ne"
      "\<And>g. table_offset (Suc h) g = ?i \<Longrightarrow> lpae_leaf (Suc h) tbl g = lpae_leaf h t g" for t p1 ne
  proof -
    obtain rc t' q where r: "?r t p1 = (rc, t', q)" by (metis prod_cases3)
    show ?thesis unfolding r prod.case
      by (rule walked_descend[OF Suc.prems(1) refl Suc.IH[OF that(1), of p1, unfolded r] that(2-5)]) (use Suc.prems(2) in auto)
  qed
  note ok = ltbl_node[OF Suc.prems(1), of "Suc h" gfn]
  show ?case
  proof (cases "tbl ?i")
    case (Ptab e t)
    with ok have "ltbl_ok h t" "arm_is_valid e" "l_table e" by (auto simp: ltbl_ok_def)
    with d[of t p e] leaf_table[of e tbl h _ t] Ptab show ?thesis by (simp add: lpae_is_mapping_def Let_def)
  next
    case (Pte e)
    show ?thesis
    proof (cases "arm_is_valid e")
      case False
      then have none: "table_offset (Suc h) g = ?i \<Longrightarrow> lpae_leaf (Suc h) tbl g = None" for g using Pte by simp
      show ?thesis
      proof (cases "a_freelist p")
        case Nil
        with False Pte walked_early[OF Suc.prems(1)] show ?thesis by (simp add: p2m_create_table_def Let_def)
      next
        case (Cons page rest)
        with False Pte none walked_early[OF Suc.prems(1)] d[OF arm_empty_table_ok(1), of "p\<lparr>a_freelist := rest\<rparr>" "page_to_p2m_table page"]
        show ?thesis by (cases removing) (simp_all add: p2m_create_table_def Let_def arm_empty_table_ok)
      qed
    next
      case True
      with ok Pte have b: "unat (l_base e) + 2 ^ (Suc h * 9) \<le> 2 ^ 36" and m: "lpae_is_mapping e (Suc h)"
        by (auto simp: lpae_is_mapping_def)
      have leaf: "table_offset (Suc h) g = ?i \<Longrightarrow> lpae_leaf (Suc h) tbl g = leaf_of (Suc h) e g" for g
        using Pte True m by simp
      obtain rv node q where s: "p2m_split_superpage (Suc h) 0 gfn e p = (rv, node, q)" by (metis prod_cases3)
      note same = split_superpage_same[OF s]
      show ?thesis
      proof (cases rv)
        case False
        with s Pte True m walked_early[OF Suc.prems(1)] same show ?thesis
          by (simp add: Let_def del: p2m_split_superpage.simps)
      next
        case rv: True
        from split_superpage_ok[OF b _ True s[unfolded eqTrueI[OF rv]]] Suc.prems(2) obtain ne t where node: "node = Ptab ne t"
          and n: "arm_is_valid ne" "l_table ne" "ltbl_ok h t" "\<forall>g. lpae_leaf h t g = leaf_of (Suc h) e g"
          by auto
        with s rv Pte True m same leaf d[OF n(3), of "p2m_force_tlb_flush_sync q" ne] show ?thesis
          by (simp add: Let_def del: p2m_split_superpage.simps lpae_leaf.simps)
      qed
    qed
  qed
qed

subsection \<open>What the guest can do with a page\<close>

text \<open>The entry and the access right of a mapped frame number.\<close>

definition arm_view :: "arm_env \<Rightarrow> arm_p2m \<Rightarrow> u64 \<Rightarrow> (lpae_t \<times> p2m_access_t) option" where
  "arm_view env p gfn =
     (if gfn > a_max_gfn p then None
      else case p2m_get_root_pointer env gfn of
        None \<Rightarrow> None
      | Some r \<Rightarrow> map_option (\<lambda>e. (e, p2m_mem_access_radix_get p gfn))
                    (lpae_leaf (av_root_height env) (a_root p r) gfn))"

text \<open>The read, write and execute-never bits that a type and an access right give.\<close>

definition arm_rights :: "arm_type \<Rightarrow> p2m_access_t \<Rightarrow> bool \<times> bool \<times> bool" where
  "arm_rights t a =
     (let e = p2m_set_permission (lpae_zero\<lparr>l_read := True\<rparr>) t a in (l_read e, l_write e, l_xn e))"

definition pte_rights :: "lpae_t \<Rightarrow> bool \<times> bool \<times> bool" where
  "pte_rights e = (l_read e, l_write e, l_xn e)"

text \<open>
  A p2m is well-formed if its tables are, no right is recorded before the first restriction, and the
  permission bits of every mapped frame are those of its type and its recorded access right.
\<close>

definition arm_ok :: "arm_env \<Rightarrow> arm_p2m \<Rightarrow> bool" where
  "arm_ok env p \<longleftrightarrow> av_root_height env \<le> 3
     \<and> (\<forall>r < av_root_pages env. ltbl_ok (av_root_height env) (a_root p r))
     \<and> (\<not> a_mem_access_enabled p \<longrightarrow> a_default_access p = p2m_access_rwx \<and> a_settings p = Map.empty)
     \<and> (\<forall>g e a. arm_view env p g = Some (e, a) \<longrightarrow> pte_rights e = arm_rights (l_type e) a)"

lemma leaf_ok:
  assumes "ltbl_ok h tbl" "h \<le> 3" "lpae_leaf h tbl g = Some e"
  shows "arm_is_valid e \<and> l_table e \<and> unat (l_base e) < 2 ^ 36"
  using assms
proof (induction h arbitrary: tbl)
  case 0
  then show ?case using ltbl_node[OF 0(1), of 0 g]
    by (cases "tbl (table_offset 0 g)") (auto simp: leaf_of_def arm_is_valid_def split: if_splits)
next
  case (Suc h)
  note ok = ltbl_node[OF Suc.prems(1), of "Suc h" g]
  show ?case
  proof (cases "tbl (table_offset (Suc h) g)")
    case (Pte e')
    with Suc.prems(3) have v: "arm_is_valid e'" and
      e: "e = e'\<lparr>l_base := l_base e' + take_bit (Suc h * 9) g, l_table := True\<rparr>"
      by (auto simp: leaf_of_def Let_def split: if_splits)
    from v ok Pte have b: "unat (l_base e') + 2 ^ (Suc h * 9) \<le> 2 ^ 36" by simp
    with take_less[of "Suc h * 9" g] have "unat (l_base e' + take_bit (Suc h * 9) g) = unat (l_base e') + unat (take_bit (Suc h * 9) g)"
      by (intro unat_add_small order.strict_trans2[of _ "2 ^ 36" "2 ^ 64"]) (linarith, simp)
    with b take_less[of "Suc h * 9" g] v show ?thesis unfolding e by (auto simp: arm_is_valid_def)
  next
    case (Ptab e' t)
    with ok have "ltbl_ok h t" "arm_is_valid e'" "l_table e'" by (auto simp: ltbl_ok_def)
    with Suc Ptab show ?thesis by (simp add: lpae_is_mapping_def)
  qed
qed

lemma view_ok:
  assumes "arm_ok env p" "arm_view env p g = Some (e, a)"
  shows "arm_is_valid e \<and> l_table e \<and> unat (l_base e) < 2 ^ 36 \<and> l_base e \<noteq> INVALID_MFN \<and> g \<le> a_max_gfn p
    \<and> a = p2m_mem_access_radix_get p g"
proof -
  from assms(2) obtain r where r: "p2m_get_root_pointer env g = Some r"
    and l: "lpae_leaf (av_root_height env) (a_root p r) g = Some e"
    and g: "g \<le> a_max_gfn p" "a = p2m_mem_access_radix_get p g"
    by (auto simp: arm_view_def split: if_splits option.splits)
  from r have "r < av_root_pages env" by (auto simp: p2m_get_root_pointer_def Let_def split: if_splits)
  with assms(1) l have "arm_is_valid e \<and> l_table e \<and> unat (l_base e) < 2 ^ 36"
    by (intro leaf_ok) (auto simp: arm_ok_def)
  moreover from this have "l_base e \<noteq> INVALID_MFN" by (auto simp: unsigned_minus_1_eq_mask mask_eq_exp_minus_1)
  ultimately show ?thesis using g by simp
qed

text \<open>\<^verbatim>\<open>p2m_get_entry\<close> reads the view.\<close>

lemma get_entry_view:
  "\<exists>n. arm_get_entry env p g = (case arm_view env p g of
       None \<Rightarrow> (INVALID_MFN, arm_invalid, None, n, False)
     | Some (e, a) \<Rightarrow> (l_base e, l_type e, Some a, n, l_valid e))"
  using walk_leaf[of "av_root_height env" "a_root p (the (p2m_get_root_pointer env g))" g]
  by (auto simp: arm_get_entry_def arm_view_def leaf_of_def arm_is_valid_def split: option.splits sum.splits)

subsection \<open>Changing the access right of one page\<close>

lemma new_entry [simp]:
  "l_type (mfn_to_p2m_entry mfn t a) = t" "l_base (mfn_to_p2m_entry mfn t a) = take_bit 36 mfn"
  "l_table (mfn_to_p2m_entry mfn t a)" "l_valid (mfn_to_p2m_entry mfn t a)"
  "pte_rights (mfn_to_p2m_entry mfn t a) = arm_rights t a"
  by (cases a; simp add: mfn_to_p2m_entry_def lpae_set_mfn_def p2m_set_permission_def arm_type_perms_def
      pte_rights_def arm_rights_def Let_def)+

lemma take_36: "unat (m :: u64) < 2 ^ 36 \<Longrightarrow> take_bit 36 m = m"
  by (simp add: word_unat_eq_iff unat_take)

text \<open>What one successful update does to the state outside the tables.\<close>

definition arm_recorded :: "u64 \<Rightarrow> p2m_access_t \<Rightarrow> arm_p2m \<Rightarrow> arm_p2m \<Rightarrow> bool" where
  "arm_recorded gfn a p q \<longleftrightarrow> a_root q = a_root p \<and> a_max_gfn q = max (a_max_gfn p) gfn
     \<and> a_access_required q = a_access_required p \<and> a_mem_access_enabled q
     \<and> a_default_access q = a_default_access p
     \<and> a_settings q = (if a = p2m_access_rwx then (a_settings p)(gfn := None) else (a_settings p)(gfn \<mapsto> a))"

lemma update_4k:
  assumes "a_mem_access_enabled p" "smfn \<noteq> INVALID_MFN"
    and "lpae_update env 0 gfn 0 smfn t a p (Pte e) = (rc, node, q)"
  shows "rc < 0 \<and> node = Pte e \<and> q = p \<or> node = Pte (mfn_to_p2m_entry smfn t a) \<and> arm_recorded gfn a p q"
proof (cases "a \<noteq> p2m_access_rwx \<and> a_settings p gfn = None \<and> av_radix_nomem env (a_settings p) gfn")
  case True
  with assms show ?thesis by (simp add: lpae_update_def p2m_mem_access_radix_set_def Let_def)
next
  case False
  with assms have "node = Pte (mfn_to_p2m_entry smfn t a)"
    by (auto simp: lpae_update_def p2m_mem_access_radix_set_def Let_def split: if_splits)
  moreover from False assms have "arm_recorded gfn a p q"
    by (auto simp: lpae_update_def p2m_mem_access_radix_set_def Let_def arm_recorded_def
        p2m_force_tlb_flush_sync_def split: if_splits)
  ultimately show ?thesis by simp
qed

lemma radix_get_recorded:
  "a_mem_access_enabled p \<Longrightarrow> arm_recorded gfn a p q \<Longrightarrow>
   p2m_mem_access_radix_get q g = (if g = gfn then a else p2m_mem_access_radix_get p g)"
  by (auto simp: p2m_mem_access_radix_get_def arm_recorded_def)

lemma radix_get_same: "arm_same p q \<Longrightarrow> p2m_mem_access_radix_get q = p2m_mem_access_radix_get p"
  by (auto simp: p2m_mem_access_radix_get_def arm_same_def fun_eq_iff)

text \<open>The first restriction switches the radix tree on, which changes no access right.\<close>

lemma enable_view:
  assumes "arm_ok env p"
  shows "arm_view env (p\<lparr>a_mem_access_enabled := True\<rparr>) = arm_view env p"
    and "arm_ok env (p\<lparr>a_mem_access_enabled := True\<rparr>)"
proof -
  have "p2m_mem_access_radix_get (p\<lparr>a_mem_access_enabled := True\<rparr>) g = p2m_mem_access_radix_get p g" for g
    using assms by (auto simp: p2m_mem_access_radix_get_def arm_ok_def)
  then show v: "arm_view env (p\<lparr>a_mem_access_enabled := True\<rparr>) = arm_view env p"
    by (simp add: arm_view_def fun_eq_iff split: option.split)
  from assms show "arm_ok env (p\<lparr>a_mem_access_enabled := True\<rparr>)" unfolding arm_ok_def v by simp
qed

lemma root_pointer_eq:
  "p2m_get_root_pointer env g = Some r \<Longrightarrow> p2m_get_root_pointer env gfn = Some r \<Longrightarrow>
   same_path (av_root_height env) g gfn \<Longrightarrow> g = gfn"
  by (rule same_path_eq) (auto simp: p2m_get_root_pointer_def Let_def word_unat_eq_iff split: if_splits)

text \<open>A step from \<open>p\<close> to \<open>q\<close> that gives at most the page \<open>gfn\<close> another access right.\<close>

definition arm_step :: "arm_env \<Rightarrow> u64 \<Rightarrow> p2m_access_t \<Rightarrow> arm_p2m \<Rightarrow> arm_p2m \<Rightarrow> bool" where
  "arm_step env gfn a p q \<longleftrightarrow> a_max_gfn q = a_max_gfn p \<and> a_access_required q = a_access_required p
     \<and> (\<forall>g. g \<noteq> gfn \<longrightarrow> arm_view env q g = arm_view env p g)
     \<and> (arm_view env q gfn = arm_view env p gfn
        \<or> arm_view env q gfn = map_option (\<lambda>(e, b). (mfn_to_p2m_entry (l_base e) (l_type e) a, a)) (arm_view env p gfn))"

lemma update_node:
  "smfn \<noteq> INVALID_MFN \<Longrightarrow> lpae_update env 0 gfn 0 smfn t a p (Pte e) = (rc, node, q) \<Longrightarrow>
   node = Pte e \<or> node = Pte (mfn_to_p2m_entry smfn t a)"
  by (auto simp: lpae_update_def Let_def split: prod.splits if_splits)

lemma view_root_upd:
  assumes r: "p2m_get_root_pointer env gfn = Some r" and q: "a_root q = a_root p" "a_max_gfn q = a_max_gfn p"
    and leaf: "\<And>g. \<not> same_path (av_root_height env) g gfn \<Longrightarrow>
      lpae_leaf (av_root_height env) tbl g = lpae_leaf (av_root_height env) (a_root p r) g"
    and radix: "\<And>g. g \<noteq> gfn \<Longrightarrow> p2m_mem_access_radix_get q g = p2m_mem_access_radix_get p g"
  shows "g \<noteq> gfn \<Longrightarrow> arm_view env (q\<lparr>a_root := (a_root q)(r := tbl)\<rparr>) g = arm_view env p g"
    and "arm_view env (q\<lparr>a_root := (a_root q)(r := tbl)\<rparr>) gfn =
      (if gfn > a_max_gfn p then None
       else map_option (\<lambda>e. (e, p2m_mem_access_radix_get q gfn)) (lpae_leaf (av_root_height env) tbl gfn))"
proof -
  have rg: "p2m_mem_access_radix_get (q\<lparr>a_root := x\<rparr>) = p2m_mem_access_radix_get q" for x
    by (simp add: p2m_mem_access_radix_get_def fun_eq_iff)
  show "arm_view env (q\<lparr>a_root := (a_root q)(r := tbl)\<rparr>) gfn =
      (if gfn > a_max_gfn p then None
       else map_option (\<lambda>e. (e, p2m_mem_access_radix_get q gfn)) (lpae_leaf (av_root_height env) tbl gfn))"
    by (simp add: arm_view_def r q rg)
  assume g: "g \<noteq> gfn"
  then have "p2m_get_root_pointer env g = Some r \<Longrightarrow> \<not> same_path (av_root_height env) g gfn"
    using root_pointer_eq[OF _ r] by blast
  with leaf[of g] radix[OF g] show "arm_view env (q\<lparr>a_root := (a_root q)(r := tbl)\<rparr>) g = arm_view env p g"
    by (auto simp: arm_view_def rg q split: option.split)
qed

lemma set_entry_walk:
  assumes "a_mem_access_enabled p" "\<not> av_is_dying env" "p2m_get_root_pointer env gfn = Some r"
    and "lpae_walk_rw (lpae_update env 0 gfn 0 mfn t a) 0 (mfn = INVALID_MFN) (av_root_height env) (a_root p r) gfn p
      = (rc, tbl, q)"
  shows "arm_set_entry env p gfn 1 mfn t a = (rc, q\<lparr>a_root := (a_root q)(r := tbl)\<rparr>)"
  using assms by (simp add: arm_set_entry_def arm_set_entry_loop.simps[of env _ _ "Suc 0"] arm_set_entry_loop.simps[of env _ _ 0]
      arm_chunk_order_def arm_set_entry_order_def)

lemma arm_okI:
  assumes "arm_ok env p" "ltbl_ok (av_root_height env) tbl" "a_root q = a_root p" "a_mem_access_enabled q"
    and "\<And>g e a. arm_view env (q\<lparr>a_root := (a_root q)(r := tbl)\<rparr>) g = Some (e, a) \<Longrightarrow> pte_rights e = arm_rights (l_type e) a"
  shows "arm_ok env (q\<lparr>a_root := (a_root q)(r := tbl)\<rparr>)"
  using assms unfolding arm_ok_def by auto

text \<open>A 4K update of a mapped page either fails and keeps the leaf, or writes the new entry.\<close>

lemma set_entry_outcome:
  assumes ok: "arm_ok env p" and en: "a_mem_access_enabled p" and alive: "\<not> av_is_dying env"
    and v: "arm_view env p gfn = Some (e, b)" and r: "p2m_get_root_pointer env gfn = Some r"
    and s: "arm_set_entry env p gfn 1 (l_base e) (l_type e) a = (rc, q)"
  obtains tbl q1 where "q = q1\<lparr>a_root := (a_root q1)(r := tbl)\<rparr>" "ltbl_ok (av_root_height env) tbl"
    "\<And>g. \<not> same_path (av_root_height env) g gfn \<Longrightarrow>
       lpae_leaf (av_root_height env) tbl g = lpae_leaf (av_root_height env) (a_root p r) g"
    "arm_same p q1 \<and> rc < 0 \<and> lpae_leaf (av_root_height env) tbl gfn = Some e
     \<or> arm_recorded gfn a p q1
        \<and> lpae_leaf (av_root_height env) tbl gfn = Some (mfn_to_p2m_entry (l_base e) (l_type e) a)"
proof -
  let ?R = "av_root_height env" and ?new = "mfn_to_p2m_entry (l_base e) (l_type e) a"
  let ?upd = "lpae_update env 0 gfn 0 (l_base e) (l_type e) a"
  note e = view_ok[OF ok v]
  from v r have l: "lpae_leaf ?R (a_root p r) gfn = Some e"
    by (auto simp: arm_view_def split: if_splits)
  from r have rr: "r < av_root_pages env" by (auto simp: p2m_get_root_pointer_def Let_def split: if_splits)
  obtain rc' tbl q1 where w: "lpae_walk_rw ?upd 0 False ?R (a_root p r) gfn p = (rc', tbl, q1)"
    by (metis prod_cases3)
  from set_entry_walk[OF en alive r, of "l_base e" "l_type e" a] w e s
  have q: "q = q1\<lparr>a_root := (a_root q1)(r := tbl)\<rparr>" and rc: "rc' = rc" by auto
  have "lnode_ok 0 node" if "lnode_ok 0 (Pte e')" "?upd p' (Pte e') = (rc'', node, q')" for p' e' rc'' node q'
    using update_node[OF _ that(2)] that(1) e take_36[of "l_base e"] by auto
  with ok rr have "walked ?upd False ?R (a_root p r) gfn p (rc, tbl, q1)"
    using walk_rw_walked[of ?R "a_root p r" ?upd False gfn p] by (auto simp: arm_ok_def w rc)
  then have tbl: "ltbl_ok ?R tbl" and other: "\<And>g. \<not> same_path ?R g gfn \<Longrightarrow> lpae_leaf ?R tbl g = lpae_leaf ?R (a_root p r) g"
    and cases: "arm_same p q1 \<and> rc < 0 \<and> lpae_leaf ?R tbl gfn = Some e
      \<or> (\<exists>p1 e1 node. arm_same p p1 \<and> ?upd p1 (Pte e1) = (rc, node, q1)
          \<and> leaf_of 0 e1 gfn = Some e \<and> lpae_leaf ?R tbl gfn = leaf_of 0 (node_pte node) gfn)"
    unfolding walked_def prod.case l[symmetric] by blast+
  have "arm_same p q1 \<and> rc < 0 \<and> lpae_leaf ?R tbl gfn = Some e
    \<or> arm_recorded gfn a p q1 \<and> lpae_leaf ?R tbl gfn = Some ?new"
    using cases
  proof
    assume "\<exists>p1 e1 node. arm_same p p1 \<and> ?upd p1 (Pte e1) = (rc, node, q1)
          \<and> leaf_of 0 e1 gfn = Some e \<and> lpae_leaf ?R tbl gfn = leaf_of 0 (node_pte node) gfn"
    then obtain p1 e1 node where p1: "arm_same p p1" and u: "?upd p1 (Pte e1) = (rc, node, q1)"
      and e1: "leaf_of 0 e1 gfn = Some e" and new: "lpae_leaf ?R tbl gfn = leaf_of 0 (node_pte node) gfn" by blast
    have "leaf_of 0 ?new gfn = Some ?new" using e by (simp add: leaf_of_def arm_is_valid_def)
    with update_4k[OF _ _ u] en e e1 new p1 show ?thesis
      by (auto simp: arm_same_def arm_recorded_def)
  qed simp
  with q tbl other show ?thesis by (rule that)
qed

lemma set_entry_4k:
  assumes ok: "arm_ok env p" and en: "a_mem_access_enabled p" and v: "arm_view env p gfn = Some (e, b)"
    and s: "arm_set_entry env p gfn 1 (l_base e) (l_type e) a = (rc, q)"
  shows "arm_ok env q \<and> arm_step env gfn a p q \<and> a_mem_access_enabled q
    \<and> (rc \<ge> 0 \<longrightarrow> arm_view env q gfn = Some (mfn_to_p2m_entry (l_base e) (l_type e) a, a))"
proof (cases "av_is_dying env")
  case True
  with s ok en show ?thesis by (auto simp: arm_set_entry_def arm_step_def)
next
  case alive: False
  let ?R = "av_root_height env" and ?new = "mfn_to_p2m_entry (l_base e) (l_type e) a"
  note e = view_ok[OF ok v]
  from v obtain r where r: "p2m_get_root_pointer env gfn = Some r" and g: "gfn \<le> a_max_gfn p"
    by (auto simp: arm_view_def split: if_splits option.splits)
  obtain tbl q1 where q: "q = q1\<lparr>a_root := (a_root q1)(r := tbl)\<rparr>" and tbl: "ltbl_ok ?R tbl"
    and other: "\<And>g. \<not> same_path ?R g gfn \<Longrightarrow> lpae_leaf ?R tbl g = lpae_leaf ?R (a_root p r) g"
    and cases: "arm_same p q1 \<and> rc < 0 \<and> lpae_leaf ?R tbl gfn = Some e
      \<or> arm_recorded gfn a p q1 \<and> lpae_leaf ?R tbl gfn = Some ?new"
    by (rule set_entry_outcome[OF ok en alive v r s]) (rule that)
  from cases show ?thesis
  proof
    assume a: "arm_same p q1 \<and> rc < 0 \<and> lpae_leaf ?R tbl gfn = Some e"
    then have same: "a_root q1 = a_root p" "a_max_gfn q1 = a_max_gfn p" "a_mem_access_enabled q1"
      "a_access_required q1 = a_access_required p" using en by (auto simp: arm_same_def)
    have rg: "p2m_mem_access_radix_get q1 = p2m_mem_access_radix_get p" using a by (blast intro: radix_get_same)
    note vw = view_root_upd[OF r same(1,2) other, unfolded rg, OF _ refl, folded q]
    have "arm_view env q = arm_view env p"
    proof
      show "arm_view env q x = arm_view env p x" for x
        using vw a v e by (cases "x = gfn") (simp_all add: not_less)
    qed
    with arm_okI[OF ok tbl same(1,3), of r, folded q] ok a same q show ?thesis
      by (auto simp: arm_ok_def arm_step_def)
  next
    assume a: "arm_recorded gfn a p q1 \<and> lpae_leaf ?R tbl gfn = Some ?new"
    then have same: "a_root q1 = a_root p" "a_max_gfn q1 = a_max_gfn p" "a_mem_access_enabled q1"
      "a_access_required q1 = a_access_required p" using g by (auto simp: arm_recorded_def)
    note rg = radix_get_recorded[OF en conjunct1[OF a]]
    have oth: "arm_view env q x = arm_view env p x" if "x \<noteq> gfn" for x
      unfolding q by (rule view_root_upd(1)[OF r same(1,2) other _ that]) (simp_all add: rg)
    have new: "arm_view env q gfn = Some (?new, a)"
      unfolding q using view_root_upd(2)[OF r same(1,2) other] a g by (simp add: rg)
    have "arm_ok env q" unfolding q
    proof (rule arm_okI[OF ok tbl same(1,3)], fold q)
      fix x e' b' assume "arm_view env q x = Some (e', b')"
      with oth[of x] new ok show "pte_rights e' = arm_rights (l_type e') b'"
        by (cases "x = gfn") (auto simp: arm_ok_def)
    qed
    with oth new same v q show ?thesis by (auto simp: arm_step_def)
  qed
qed

lemma arm_set_single:
  assumes ok: "arm_ok env p" and s: "arm_set_mem_access_single env p a gfn = (rc, q)"
  shows "arm_ok env q \<and> arm_step env gfn a p q
    \<and> (rc \<ge> 0 \<longrightarrow> (\<exists>e b. arm_view env p gfn = Some (e, b)
         \<and> arm_view env q gfn = Some (mfn_to_p2m_entry (l_base e) (l_type e) a, a)))"
proof (cases "arm_view env p gfn")
  case None
  with get_entry_view[of env p gfn] s ok show ?thesis
    by (auto simp: arm_set_mem_access_single_def arm_step_def)
next
  case (Some v)
  then obtain e b where v: "arm_view env p gfn = Some (e, b)" by (cases v) auto
  with get_entry_view[of env p gfn] s view_ok[OF ok v]
  have "arm_set_entry env (p\<lparr>a_mem_access_enabled := True\<rparr>) gfn 1 (l_base e) (l_type e) a = (rc, q)"
    by (auto simp: arm_set_mem_access_single_def arm_is_valid_def)
  from set_entry_4k[OF enable_view(2)[OF ok] _ _ this, of b] v
  show ?thesis by (auto simp: enable_view(1)[OF ok] arm_step_def)
qed

end
