(* ===== verification/Arm_Seal_Proofs.thy ===== *)
theory Arm_Seal_Proofs
  imports Arm_Seal Arm_Proofs Seal_Proofs
begin

text \<open>
  The sealing operations of the ARM port against its stage-2 tables: sealing changes only the access
  rights of its range, unsealing wipes a frame before it becomes accessible, and every operation keeps
  the invariant, faults on no NULL pointer and loses no page-info allocation.
\<close>

subsection \<open>Changing the access rights of a set of pages\<close>

definition retag_view :: "p2m_access_t \<Rightarrow> (lpae_t \<times> p2m_access_t) option \<Rightarrow> (lpae_t \<times> p2m_access_t) option" where
  "retag_view a v = map_option (\<lambda>(e, b). (mfn_to_p2m_entry (l_base e) (l_type e) a, a)) v"

definition arm_retag :: "arm_env \<Rightarrow> p2m_access_t \<Rightarrow> u64 set \<Rightarrow> arm_p2m \<Rightarrow> arm_p2m \<Rightarrow> bool" where
  "arm_retag env a S p q \<longleftrightarrow> a_max_gfn q = a_max_gfn p \<and> a_access_required q = a_access_required p
     \<and> (\<forall>g. arm_view env q g = arm_view env p g \<or> g \<in> S \<and> arm_view env q g = retag_view a (arm_view env p g))"

lemma arm_retag_refl [simp]: "arm_retag env a S p p"
  by (simp add: arm_retag_def)

lemma arm_retag_mono: "arm_retag env a S p q \<Longrightarrow> S \<subseteq> T \<Longrightarrow> arm_retag env a T p q"
  unfolding arm_retag_def by blast

lemma arm_retag_step: "arm_step env gfn a p q \<Longrightarrow> arm_retag env a {gfn} p q"
  unfolding arm_step_def arm_retag_def retag_view_def by fastforce

lemma retag_view_idem:
  "arm_ok env p \<Longrightarrow> retag_view a (retag_view a (arm_view env p g)) = retag_view a (arm_view env p g)"
  using view_ok[of env p g] take_36
  by (cases "arm_view env p g") (auto simp: retag_view_def)

lemma arm_retag_trans:
  assumes "arm_ok env p" "arm_retag env a S p q" "arm_retag env a T q r"
  shows "arm_retag env a (S \<union> T) p r"
  using assms(2,3) retag_view_idem[OF assms(1)] unfolding arm_retag_def by (metis UnCI)

text \<open>Pending flushes are not part of the view.\<close>

lemma radix_get_flush [simp]:
  "p2m_mem_access_radix_get (p2m_tlb_flush_sync p) = p2m_mem_access_radix_get p"
  by (rule radix_get_same) simp

lemma flush_view [simp]:
  "arm_view env (p2m_tlb_flush_sync p) = arm_view env p"
  "arm_ok env (p2m_tlb_flush_sync p) = arm_ok env p"
  "a_max_gfn (p2m_tlb_flush_sync p) = a_max_gfn p"
  "a_access_required (p2m_tlb_flush_sync p) = a_access_required p"
  "\<not> a_need_flush (p2m_tlb_flush_sync p)"
proof -
  have "arm_same p (p2m_tlb_flush_sync p)" by simp
  then have *: "a_root (p2m_tlb_flush_sync p) = a_root p" "a_max_gfn (p2m_tlb_flush_sync p) = a_max_gfn p"
    "a_access_required (p2m_tlb_flush_sync p) = a_access_required p"
    "a_mem_access_enabled (p2m_tlb_flush_sync p) = a_mem_access_enabled p"
    "a_default_access (p2m_tlb_flush_sync p) = a_default_access p"
    "a_settings (p2m_tlb_flush_sync p) = a_settings p" by (simp_all add: arm_same_def)
  show v: "arm_view env (p2m_tlb_flush_sync p) = arm_view env p"
    by (rule ext) (simp add: arm_view_def * split: option.split)
  show "arm_ok env (p2m_tlb_flush_sync p) = arm_ok env p" unfolding arm_ok_def v by (simp add: *)
  show "a_max_gfn (p2m_tlb_flush_sync p) = a_max_gfn p"
    "a_access_required (p2m_tlb_flush_sync p) = a_access_required p" by (fact *)+
  show "\<not> a_need_flush (p2m_tlb_flush_sync p)" by (simp add: p2m_tlb_flush_sync_def p2m_force_tlb_flush_sync_def)
qed

subsection \<open>Sealing\<close>

lemma arm_set_loop_spec:
  assumes "arm_ok env p" "arm_set_loop env n gfn ret p = (rc, q)"
  shows "arm_ok env q \<and> arm_retag env p2m_access_x (gfns gfn n) p q
    \<and> (rc \<ge> 0 \<longrightarrow> (\<forall>g \<in> gfns gfn n. arm_view env p g \<noteq> None
          \<and> arm_view env q g = retag_view p2m_access_x (arm_view env p g)))"
  using assms
proof (induction n arbitrary: gfn ret p)
  case (Suc n)
  obtain r p1 where s: "arm_set_mem_access_single env p p2m_access_x gfn = (r, p1)"
    by (cases "arm_set_mem_access_single env p p2m_access_x gfn") auto
  note single = arm_set_single[OF Suc.prems(1) s]
  have rt: "arm_retag env p2m_access_x {gfn} p p1" using single by (blast intro: arm_retag_step)
  show ?case
  proof (cases "r < 0")
    case True
    with Suc.prems(2) s single rt show ?thesis by (auto intro: arm_retag_mono)
  next
    case False
    with Suc.prems(2) s have l: "arm_set_loop env n (gfn + 1) r p1 = (rc, q)" by simp
    have IH: "arm_ok env q \<and> arm_retag env p2m_access_x (gfns (gfn + 1) n) p1 q
      \<and> (rc \<ge> 0 \<longrightarrow> (\<forall>g \<in> gfns (gfn + 1) n. arm_view env p1 g \<noteq> None
          \<and> arm_view env q g = retag_view p2m_access_x (arm_view env p1 g)))"
      using single by (intro Suc.IH[OF _ l]) blast
    have all: "arm_retag env p2m_access_x (gfns gfn (Suc n)) p q"
      using arm_retag_trans[OF Suc.prems(1) rt] IH by simp
    have first: "arm_view env p gfn \<noteq> None \<and> arm_view env p1 gfn = retag_view p2m_access_x (arm_view env p gfn)"
      using single False by (auto simp: retag_view_def)
    then have second: "arm_view env q gfn = retag_view p2m_access_x (arm_view env p gfn)"
      using IH retag_view_idem[OF Suc.prems(1)] unfolding arm_retag_def by metis
    have rest: "arm_view env p g \<noteq> None \<and> arm_view env q g = retag_view p2m_access_x (arm_view env p g)"
      if "arm_view env p1 g \<noteq> None \<and> arm_view env q g = retag_view p2m_access_x (arm_view env p1 g)" for g
      using that rt retag_view_idem[OF Suc.prems(1), of p2m_access_x g]
      unfolding arm_retag_def by (metis (no_types, lifting) option.map_disc_iff retag_view_def)
    show ?thesis
    proof (intro conjI impI ballI)
      fix g assume "0 \<le> rc" "g \<in> gfns gfn (Suc n)"
      then have "g = gfn \<or> arm_view env p1 g \<noteq> None \<and> arm_view env q g = retag_view p2m_access_x (arm_view env p1 g)"
        using IH by auto
      then show "arm_view env p g \<noteq> None" "arm_view env q g = retag_view p2m_access_x (arm_view env p g)"
        using first second rest by blast+
    qed (use IH all in blast)+
  qed
qed simp

subsection \<open>Unsealing\<close>

definition arm_trees_ok :: "arm_domain \<Rightarrow> bool" where
  "arm_trees_ok d \<longleftrightarrow> page_inv (ad_subpages d) \<and> page_inv (ad_reg_clear d)"

definition arm_dom_ok :: "arm_env \<Rightarrow> arm_domain \<Rightarrow> bool" where
  "arm_dom_ok env d \<longleftrightarrow> arm_ok env (ad_p2m d) \<and> arm_trees_ok d"

definition arm_budget :: "arm_domain \<Rightarrow> nat" where
  "arm_budget d = page_count (ad_subpages d) + page_count (ad_reg_clear d) + ad_heap d"

abbreviation dview :: "arm_env \<Rightarrow> arm_domain \<Rightarrow> u64 \<Rightarrow> (lpae_t \<times> p2m_access_t) option" where
  "dview env d \<equiv> arm_view env (ad_p2m d)"

text \<open>A page that is execute-only and lives in machine frame \<open>m\<close>.\<close>

definition arm_xom :: "arm_env \<Rightarrow> arm_domain \<Rightarrow> u64 \<Rightarrow> u64 \<Rightarrow> bool" where
  "arm_xom env d g m \<longleftrightarrow> (\<exists>e. dview env d g = Some (e, p2m_access_x) \<and> l_base e = m)"

text \<open>
  What a (partial) run of the unsealing loop may do: a page whose rights change was execute-only and its
  frame is wiped; only frames of execute-only pages of the range are written, and they are wiped. A
  run that does not fail also removes the page-info entries of the pages it changes.
\<close>

definition arm_unsealed :: "arm_env \<Rightarrow> u64 set \<Rightarrow> arm_domain \<Rightarrow> arm_domain \<Rightarrow> bool" where
  "arm_unsealed env S d e \<longleftrightarrow> arm_retag env p2m_access_rwx S (ad_p2m d) (ad_p2m e)
     \<and> (\<forall>g. dview env e g \<noteq> dview env d g \<longrightarrow> (\<exists>m. arm_xom env d g m \<and> wiped (ad_mem e) m))
     \<and> (\<forall>m. ad_mem e m \<noteq> ad_mem d m \<longrightarrow> wiped (ad_mem e) m \<and> (\<exists>g \<in> S. arm_xom env d g m))
     \<and> (\<forall>g. page_alpha (ad_subpages e) g \<in> {page_alpha (ad_subpages d) g, None})
     \<and> (\<forall>g. page_alpha (ad_reg_clear e) g \<in> {page_alpha (ad_reg_clear d) g, None})
     \<and> arm_budget e = arm_budget d"

definition arm_forgot :: "arm_env \<Rightarrow> arm_domain \<Rightarrow> arm_domain \<Rightarrow> bool" where
  "arm_forgot env d e \<longleftrightarrow> (\<forall>g. dview env e g \<noteq> dview env d g \<longrightarrow>
     page_alpha (ad_subpages e) g = None \<and> page_alpha (ad_reg_clear e) g = None)"

lemma arm_unsealed_refl [simp]: "arm_unsealed env S d d" "arm_forgot env d d"
  by (simp_all add: arm_unsealed_def arm_forgot_def)

lemma arm_unsealed_mono: "arm_unsealed env S d e \<Longrightarrow> S \<subseteq> T \<Longrightarrow> arm_unsealed env T d e"
  using arm_retag_mono unfolding arm_unsealed_def by blast

lemma arm_unsealed_xom:
  "arm_unsealed env S d e \<Longrightarrow> arm_xom env e g m \<Longrightarrow> arm_xom env d g m"
  unfolding arm_unsealed_def arm_xom_def arm_retag_def retag_view_def
  by (elim conjE allE[where x = g]) (auto split: option.splits)

lemma arm_unsealed_keeps: "arm_unsealed env S d e \<Longrightarrow> wiped (ad_mem d) m \<Longrightarrow> wiped (ad_mem e) m"
  using wiped_stays[of "ad_mem d" m "ad_mem e"] unfolding arm_unsealed_def by blast

lemma arm_forgot_trans:
  assumes "arm_forgot env d e" "arm_unsealed env T e f" "arm_forgot env e f"
  shows "arm_forgot env d f"
  unfolding arm_forgot_def
proof (intro allI impI)
  fix g assume g: "dview env f g \<noteq> dview env d g"
  have "page_alpha (ad_subpages f) g \<in> {page_alpha (ad_subpages e) g, None}"
    "page_alpha (ad_reg_clear f) g \<in> {page_alpha (ad_reg_clear e) g, None}"
    using assms(2) unfolding arm_unsealed_def by blast+
  with g assms(1,3) show "page_alpha (ad_subpages f) g = None \<and> page_alpha (ad_reg_clear f) g = None"
    unfolding arm_forgot_def by (metis empty_iff insert_iff)
qed

lemma arm_unsealed_trans:
  assumes ok: "arm_ok env (ad_p2m d)" and 1: "arm_unsealed env S d e" and 2: "arm_unsealed env T e f"
  shows "arm_unsealed env (S \<union> T) d f"
proof -
  note keep = arm_unsealed_keeps[OF 2]
  have sub: "page_alpha (ad_subpages f) g \<in> {page_alpha (ad_subpages e) g, None}"
    "page_alpha (ad_reg_clear f) g \<in> {page_alpha (ad_reg_clear e) g, None}" for g
    using 2 unfolding arm_unsealed_def by blast+
  have "arm_retag env p2m_access_rwx (S \<union> T) (ad_p2m d) (ad_p2m f)"
    using arm_retag_trans[OF ok] 1 2 unfolding arm_unsealed_def by blast
  moreover have "\<exists>m. arm_xom env d g m \<and> wiped (ad_mem f) m" if "dview env f g \<noteq> dview env d g" for g
  proof (cases "dview env e g = dview env d g")
    case True
    with that 2 have "\<exists>m. arm_xom env e g m \<and> wiped (ad_mem f) m" unfolding arm_unsealed_def by metis
    with arm_unsealed_xom[OF 1] show ?thesis by blast
  next
    case False
    with 1 keep show ?thesis unfolding arm_unsealed_def by blast
  qed
  moreover have "wiped (ad_mem f) m \<and> (\<exists>g \<in> S \<union> T. arm_xom env d g m)" if "ad_mem f m \<noteq> ad_mem d m" for m
  proof (cases "ad_mem f m = ad_mem e m")
    case True
    with that 1 keep show ?thesis unfolding arm_unsealed_def by (metis UnI1)
  next
    case False
    with 2 arm_unsealed_xom[OF 1] show ?thesis unfolding arm_unsealed_def by blast
  qed
  moreover have "page_alpha (ad_subpages f) g \<in> {page_alpha (ad_subpages d) g, None}"
    "page_alpha (ad_reg_clear f) g \<in> {page_alpha (ad_reg_clear d) g, None}" for g
    using 1 sub[of g] unfolding arm_unsealed_def by (metis empty_iff insert_iff)+
  moreover have "arm_budget f = arm_budget d" using 1 2 unfolding arm_unsealed_def by simp
  ultimately show ?thesis unfolding arm_unsealed_def by blast
qed

lemma read_atype_view:
  "read_atype env p g atype = (case arm_view env p g of Some (e, a) \<Rightarrow> a | None \<Rightarrow> atype)"
  using get_entry_view[of env p g] by (auto simp: read_atype_def split: option.splits)

lemma get_page_arm:
  "arm_get_page_from_gfn env p g = Some m \<Longrightarrow> \<exists>e a. arm_view env p g = Some (e, a) \<and> l_base e = m"
  using get_entry_view[of env p g]
  by (cases "arm_view env p g")
    (auto simp: arm_get_page_from_gfn_def arm_is_any_ram_def arm_is_ram_def arm_is_foreign_def split: if_splits)

text \<open>Wiping a sealed page and then changing its rights.\<close>

lemma wipe_page:
  assumes ok: "arm_ok env (ad_p2m d)" and x: "arm_xom env d gfn m"
    and s: "arm_set_mem_access_single env (ad_p2m d) p2m_access_rwx gfn = (rc, q)"
  shows "arm_unsealed env {gfn} d (d\<lparr>ad_mem := wipe_frame (ad_mem d) m, ad_p2m := q\<rparr>) \<and> arm_ok env q"
proof -
  note single = arm_set_single[OF ok s]
  let ?e = "d\<lparr>ad_mem := wipe_frame (ad_mem d) m, ad_p2m := q\<rparr>"
  have rt: "arm_retag env p2m_access_rwx {gfn} (ad_p2m d) (ad_p2m ?e)"
    using single by (auto intro: arm_retag_step)
  have "g = gfn" if "dview env ?e g \<noteq> dview env d g" for g
    using rt that unfolding arm_retag_def by blast
  with x rt single wipe_changed[of "ad_mem d" m] show ?thesis
    by (auto simp: arm_unsealed_def arm_budget_def)
qed

lemma forget_both:
  assumes "arm_trees_ok d"
  obtains sub h1 rcl h2 where "forget_page (ad_subpages d) (ad_heap d) gfn = Some (sub, h1)"
    "forget_page (ad_reg_clear d) h1 gfn = Some (rcl, h2)" "page_inv sub" "page_inv rcl"
    "page_alpha sub = (page_alpha (ad_subpages d))(gfn := None)"
    "page_alpha rcl = (page_alpha (ad_reg_clear d))(gfn := None)"
    "page_count sub + page_count rcl + h2 = arm_budget d"
proof -
  obtain sub h1 where sub: "forget_page (ad_subpages d) (ad_heap d) gfn = Some (sub, h1)" "page_inv sub"
    "page_alpha sub = (page_alpha (ad_subpages d))(gfn := None)" "page_count sub + h1 = page_count (ad_subpages d) + ad_heap d"
    using forget_page_ok assms unfolding arm_trees_ok_def by blast
  obtain rcl h2 where rcl: "forget_page (ad_reg_clear d) h1 gfn = Some (rcl, h2)" "page_inv rcl"
    "page_alpha rcl = (page_alpha (ad_reg_clear d))(gfn := None)" "page_count rcl + h2 = page_count (ad_reg_clear d) + h1"
    using forget_page_ok assms unfolding arm_trees_ok_def by blast
  have "page_count sub + page_count rcl + h2 = arm_budget d" using sub(4) rcl(4) by (simp add: arm_budget_def)
  with sub rcl show ?thesis using that by blast
qed

lemma arm_clear_loop_spec:
  assumes "arm_dom_ok env d"
  shows "\<exists>rc e. arm_clear_loop env n gfn ret atype d = Some (rc, e) \<and> arm_dom_ok env e
    \<and> arm_unsealed env (gfns gfn n) d e
    \<and> (rc \<ge> 0 \<longrightarrow> arm_forgot env d e \<and> (\<forall>g \<in> gfns gfn n. \<forall>m. \<not> arm_xom env e g m))"
  using assms
proof (induction n arbitrary: gfn ret atype d)
  case (Suc n)
  let ?a = "read_atype env (ad_p2m d) gfn atype"
  have ok: "arm_ok env (ad_p2m d)" and trees: "arm_trees_ok d" using Suc.prems by (auto simp: arm_dom_ok_def)
  show ?case
  proof (cases "?a = p2m_access_x")
    case False
    have widen: "arm_unsealed env (gfns (gfn + 1) n) d e \<Longrightarrow> arm_unsealed env (gfns gfn (Suc n)) d e" for e
      by (erule arm_unsealed_mono) auto
    have "\<not> arm_xom env d gfn m" for m using False by (auto simp: arm_xom_def read_atype_view)
    then have "arm_unsealed env S d e \<Longrightarrow> \<not> arm_xom env e gfn m" for S e m using arm_unsealed_xom by blast
    with False Suc.IH[OF Suc.prems, of "gfn + 1" ret ?a] widen show ?thesis
      by (auto simp: Let_def)
  next
    case x: True
    show ?thesis
    proof (cases "arm_get_page_from_gfn env (ad_p2m d) gfn")
      case None
      with x Suc.prems show ?thesis by simp
    next
      case (Some m)
      with get_page_arm[OF Some] x have xom: "arm_xom env d gfn m"
        by (auto simp: arm_xom_def read_atype_view)
      obtain rc q where s: "arm_set_mem_access_single env (ad_p2m d) p2m_access_rwx gfn = (rc, q)"
        by (cases "arm_set_mem_access_single env (ad_p2m d) p2m_access_rwx gfn") auto
      note w = wipe_page[OF ok xom s]
      obtain sub h1 rcl h2 where t: "forget_page (ad_subpages d) (ad_heap d) gfn = Some (sub, h1)"
        "forget_page (ad_reg_clear d) h1 gfn = Some (rcl, h2)" "page_inv sub" "page_inv rcl"
        "page_alpha sub = (page_alpha (ad_subpages d))(gfn := None)"
        "page_alpha rcl = (page_alpha (ad_reg_clear d))(gfn := None)"
        "page_count sub + page_count rcl + h2 = arm_budget d" by (rule forget_both[OF trees])
      let ?d2 = "d\<lparr>ad_mem := wipe_frame (ad_mem d) m, ad_p2m := q, ad_subpages := sub, ad_reg_clear := rcl, ad_heap := h2\<rparr>"
      have u2: "arm_unsealed env {gfn} d ?d2" and f2: "arm_forgot env d ?d2"
        using w t by (auto simp: arm_unsealed_def arm_forgot_def arm_budget_def arm_retag_def arm_xom_def)
      have ok2: "arm_dom_ok env ?d2" using w t by (simp add: arm_dom_ok_def arm_trees_ok_def)
      show ?thesis
      proof (cases "rc < 0")
        case True
        with x Some s w trees show ?thesis
          by (auto simp: Let_def arm_get_page_type_def arm_dom_ok_def arm_trees_ok_def intro: arm_unsealed_mono)
      next
        case False
        obtain r e where e: "arm_clear_loop env n (gfn + 1) rc ?a ?d2 = Some (r, e)" "arm_dom_ok env e"
          "arm_unsealed env (gfns (gfn + 1) n) ?d2 e"
          "r \<ge> 0 \<longrightarrow> arm_forgot env ?d2 e \<and> (\<forall>g \<in> gfns (gfn + 1) n. \<forall>m. \<not> arm_xom env e g m)"
          using Suc.IH[OF ok2] by blast
        have "arm_clear_loop env (Suc n) gfn ret atype d = Some (r, e)"
          using x Some s False t(1,2) e(1) by (simp add: Let_def arm_get_page_type_def)
        moreover have "arm_unsealed env (gfns gfn (Suc n)) d e"
          using arm_unsealed_trans[OF ok u2 e(3)] by simp
        moreover have "\<not> arm_xom env ?d2 gfn m'" for m'
          using arm_set_single[OF ok s] False by (auto simp: arm_xom_def)
        then have "\<not> arm_xom env e gfn m'" for m' using arm_unsealed_xom[OF e(3)] by blast
        ultimately show ?thesis using e arm_forgot_trans[OF f2 e(3)] by auto
      qed
    qed
  qed
qed auto

subsection \<open>Subpages and register-clear pages\<close>

lemma arm_create_loop_spec:
  assumes "arm_dom_ok env d"
  shows "\<exists>rc e. arm_create_loop env n gfn ret atype d = Some (rc, e) \<and> arm_dom_ok env e
    \<and> arm_budget e = arm_budget d"
  using assms
proof (induction n arbitrary: gfn ret atype d)
  case (Suc n)
  let ?a = "read_atype env (ad_p2m d) gfn atype"
  show ?case
  proof (cases "?a = p2m_access_x")
    case True
    with Suc.prems show ?thesis by (auto simp: Let_def)
  next
    case a: False
    obtain rc q where s: "arm_set_mem_access_single env (ad_p2m d) p2m_access_x gfn = (rc, q)"
      by (cases "arm_set_mem_access_single env (ad_p2m d) p2m_access_x gfn") auto
    have ok: "arm_ok env q" and inv: "page_inv (ad_subpages d)" "page_inv (ad_reg_clear d)"
      using arm_set_single[OF _ s] Suc.prems by (auto simp: arm_dom_ok_def arm_trees_ok_def)
    obtain added sub h where add: "add_page_info_entry (ad_subpages d) (ad_heap d) gfn 0 = Some (added, sub, h)"
      "page_inv sub" "page_count sub + h = page_count (ad_subpages d) + ad_heap d"
      using page_info.add_new[OF inv(1), of "ad_heap d" gfn 0] by blast
    let ?d = "d\<lparr>ad_p2m := q, ad_subpages := sub, ad_heap := h\<rparr>"
    have d: "arm_dom_ok env ?d" "arm_budget ?d = arm_budget d"
      using ok inv add by (auto simp: arm_dom_ok_def arm_trees_ok_def arm_budget_def)
    show ?thesis
    proof (cases "rc < 0 \<or> \<not> added")
      case True
      with a s add(1) d ok inv show ?thesis
        by (auto simp: Let_def arm_dom_ok_def arm_trees_ok_def arm_budget_def)
    next
      case False
      then have "arm_create_loop env (Suc n) gfn ret atype d = arm_create_loop env n (gfn + 1) rc ?a ?d"
        using a s add(1) by (simp add: Let_def)
      with Suc.IH[OF d(1), of "gfn + 1" rc ?a] d(2) show ?thesis by simp
    qed
  qed
qed auto

lemma arm_write_spec:
  assumes "arm_dom_ok env d"
  shows "\<exists>rc e. arm_write_into_subpage env d dst src = Some (rc, e) \<and> arm_dom_ok env e
    \<and> arm_budget e = arm_budget d \<and> ad_p2m e = ad_p2m d"
proof (cases "get_page_info_entry (ad_subpages d) dst")
  case None
  with assms show ?thesis by (simp add: arm_write_into_subpage_def)
next
  case (Some ref)
  have inv: "page_inv (ad_subpages d)" using assms by (simp add: arm_dom_ok_def arm_trees_ok_def)
  obtain ls where ls: "page_info_get ref = Some ls" using page_info.find_val[OF inv Some] by blast
  have put: "\<exists>sub. page_info_put ref v = Some sub \<and> page_inv sub \<and> page_count sub = page_count (ad_subpages d)" for v
    using page_info.put_found[OF inv Some] by blast
  have "\<exists>rc e. (case write_subpages wis pg ls of (pg', ls') \<Rightarrow> do {
        sub \<leftarrow> page_info_put ref ls';
        Some (0, d\<lparr>ad_mem := (ad_mem d)(m := pg'), ad_subpages := sub\<rparr>) }) = Some (rc, e) \<and> arm_dom_ok env e
      \<and> arm_budget e = arm_budget d \<and> ad_p2m e = ad_p2m d" for wis pg m and rc :: int
    using put[of "snd (write_subpages wis pg ls)"] assms
    by (auto simp: split_beta arm_dom_ok_def arm_trees_ok_def arm_budget_def)
  with assms Some ls show ?thesis
    by (auto simp: arm_write_into_subpage_def arm_get_page_type_def Let_def split: option.split)
qed

lemma arm_mark_spec:
  assumes "arm_dom_ok env d"
  shows "\<exists>rc e. arm_mark_reg_clear_page env junk d gfn t = Some (rc, e) \<and> arm_dom_ok env e
    \<and> arm_budget e = arm_budget d"
proof -
  have inv: "page_inv (ad_reg_clear d)" using assms by (simp add: arm_dom_ok_def arm_trees_ok_def)
  obtain added rcl h where "add_page_info_entry (ad_reg_clear d) (ad_heap d) gfn (ucast t) = Some (added, rcl, h)"
    "page_inv rcl" "page_count rcl + h = page_count (ad_reg_clear d) + ad_heap d"
    using page_info.add_new[OF inv, of "ad_heap d" gfn "ucast t"] by blast
  with assms show ?thesis
    by (auto simp: arm_mark_reg_clear_page_def arm_dom_ok_def arm_trees_ok_def arm_budget_def)
qed

subsection \<open>The operations\<close>

lemma arm_finish_view [simp]:
  "dview env (arm_finish d) = dview env d" "arm_ok env (ad_p2m (arm_finish d)) = arm_ok env (ad_p2m d)"
  "ad_mem (arm_finish d) = ad_mem d" "ad_subpages (arm_finish d) = ad_subpages d"
  "ad_reg_clear (arm_finish d) = ad_reg_clear d" "ad_heap (arm_finish d) = ad_heap d"
  "\<not> a_need_flush (ad_p2m (arm_finish d))"
  by (simp_all add: arm_finish_def p2m_write_unlock_def)

lemma arm_finish_ok [simp]:
  "arm_dom_ok env (arm_finish d) = arm_dom_ok env d" "arm_budget (arm_finish d) = arm_budget d"
  "arm_xom env (arm_finish d) = arm_xom env d"
  by (simp_all add: arm_dom_ok_def arm_trees_ok_def arm_budget_def arm_xom_def fun_eq_iff)

lemma arm_set_spec:
  assumes "arm_dom_ok env d" "arm_set_xom_seal env d gfn nr = (ret, e)"
  shows "arm_dom_ok env e \<and> arm_budget e = arm_budget d \<and> ad_mem e = ad_mem d
    \<and> arm_retag env p2m_access_x (gfns gfn (unat nr)) (ad_p2m d) (ad_p2m e)
    \<and> (ret \<ge> 0 \<longrightarrow> \<not> a_need_flush (ad_p2m e)
        \<and> (\<forall>g \<in> gfns gfn (unat nr). dview env d g \<noteq> None \<and> dview env e g = retag_view p2m_access_x (dview env d g)))"
proof (cases "nr = 0 \<or> gfn + ucast nr > a_max_gfn (ad_p2m d) + 1")
  case True
  with assms show ?thesis by (auto simp: arm_set_xom_seal_def split: if_splits)
next
  case False
  obtain r p where l: "arm_set_loop env (unat nr) gfn 0 (ad_p2m d) = (r, p)"
    by (cases "arm_set_loop env (unat nr) gfn 0 (ad_p2m d)") auto
  with False assms(2) have e: "ret = r" "e = arm_finish (d\<lparr>ad_p2m := p\<rparr>)" by (auto simp: arm_set_xom_seal_def)
  have "arm_ok env (ad_p2m d)" using assms(1) by (simp add: arm_dom_ok_def)
  from arm_set_loop_spec[OF this l] assms(1) show ?thesis unfolding e
    by (simp add: arm_dom_ok_def arm_trees_ok_def arm_budget_def arm_retag_def arm_finish_def p2m_write_unlock_def)
qed

lemma arm_clear_spec:
  assumes "arm_dom_ok env d"
  shows "\<exists>ret e. arm_clear_xom_seal env junk d gfn nr = Some (ret, e) \<and> arm_dom_ok env e
    \<and> arm_unsealed env (gfns gfn (unat nr)) d e
    \<and> (ret \<ge> 0 \<longrightarrow> \<not> a_need_flush (ad_p2m e) \<and> arm_forgot env d e
        \<and> (\<forall>g \<in> gfns gfn (unat nr). \<forall>m. \<not> arm_xom env e g m))"
proof (cases "nr = 0 \<or> gfn + ucast nr > a_max_gfn (ad_p2m d) + 1")
  case True
  with assms show ?thesis by (auto simp: arm_clear_xom_seal_def)
next
  case False
  from arm_clear_loop_spec[OF assms, of "unat nr" gfn 0 junk] obtain rc e where
    l: "arm_clear_loop env (unat nr) gfn 0 junk d = Some (rc, e)" "arm_dom_ok env e"
    "arm_unsealed env (gfns gfn (unat nr)) d e"
    "rc \<ge> 0 \<longrightarrow> arm_forgot env d e \<and> (\<forall>g \<in> gfns gfn (unat nr). \<forall>m. \<not> arm_xom env e g m)" by blast
  have "arm_unsealed env (gfns gfn (unat nr)) d (arm_finish e)" "arm_forgot env d e \<Longrightarrow> arm_forgot env d (arm_finish e)"
    using l(3) by (simp_all add: arm_unsealed_def arm_forgot_def arm_retag_def arm_finish_def p2m_write_unlock_def arm_budget_def)
  with False l show ?thesis by (auto simp: arm_clear_xom_seal_def)
qed

lemma arm_xom_op_spec:
  assumes "arm_dom_ok env d"
  shows "\<exists>rc e. arm_xom_op env junk d op = Some (rc, e) \<and> arm_dom_ok env e \<and> arm_budget e = arm_budget d"
proof -
  have "\<exists>rc e. arm_create_xom_subpages env junk d gfn nr = Some (rc, e) \<and> arm_dom_ok env e \<and> arm_budget e = arm_budget d"
    for gfn nr
    using arm_create_loop_spec[OF assms, of "unat nr" gfn 0 junk] assms by (auto simp: arm_create_xom_subpages_def)
  moreover have "\<exists>rc e. arm_set_xom_seal env d gfn nr = (rc, e) \<and> arm_dom_ok env e \<and> arm_budget e = arm_budget d" for gfn nr
    using arm_set_spec[OF assms] by (metis surj_pair)
  moreover have "\<exists>rc e. arm_clear_xom_seal env junk d gfn nr = Some (rc, e) \<and> arm_dom_ok env e \<and> arm_budget e = arm_budget d" for gfn nr
    using arm_clear_spec[OF assms] unfolding arm_unsealed_def by metis
  moreover have "\<exists>rc e. arm_write_into_subpage env d gfn src = Some (rc, e) \<and> arm_dom_ok env e \<and> arm_budget e = arm_budget d" for gfn src
    using arm_write_spec[OF assms] by metis
  ultimately show ?thesis using assms arm_mark_spec[OF assms] by (simp add: arm_xom_op_def)
qed

lemma arm_handle_loop_spec:
  "arm_dom_ok env d \<Longrightarrow> \<exists>rc e n. arm_handle_loop env junk preempt i uops d = Some (rc, e, n) \<and> arm_dom_ok env e
    \<and> arm_budget e = arm_budget d"
proof (induction uops arbitrary: i d)
  case (Cons uop uops)
  show ?case
  proof (cases uop)
    case (Some op)
    from arm_xom_op_spec[OF Cons.prems, of "junk i" op] obtain rc e where
      "arm_xom_op env (junk i) d op = Some (rc, e)" "arm_dom_ok env e" "arm_budget e = arm_budget d" by blast
    with Cons.IH[of e "Suc i"] Some Cons.prems show ?thesis by auto
  qed (use Cons.prems in auto)
qed auto

end
