(* ===== verification/Arm_Main.thy ===== *)
theory Arm_Main
  imports Arm_Seal_Proofs
begin

text \<open>
  The theorems about the ARM port, on the stage-2 tables of \<^verbatim>\<open>mmu/p2m.c\<close>: sealing gives execute-only
  pages, unsealing wipes, the hypercall keeps its invariant, translation faults keep all rights; and the two places where the port does not
  protect a sealed page or decides on garbage, the permission fault handler and the uninitialised access
  right of \<^verbatim>\<open>mark_reg_clear_page\<close>.
\<close>

subsection \<open>A sample machine\<close>

text \<open>
  A guest with a table of four 4K pages, of which page 2 is execute-only, and a 2M superpage at frame
  number 512. The root has level 2 (height 1) and one page.
\<close>

definition arm_sample_env :: arm_env where
  "arm_sample_env = \<lparr>av_root_height = 1, av_root_pages = 1, av_is_dying = False, av_iommu_enabled = False,
     av_iotlb_flush = (\<lambda>_ _. 0), av_radix_nomem = (\<lambda>_ _. False), av_mfn_valid = (\<lambda>m. m < 0x1000),
     av_get_page = (\<lambda>_. True)\<rparr>"

definition arm_sample_table :: lpae_table where
  "arm_sample_table = (\<lambda>i. Pte (if i < 4
     then mfn_to_p2m_entry (0x100 + of_nat i) arm_ram_rw (if i = 2 then p2m_access_x else p2m_access_rwx)
     else lpae_zero))"

definition arm_sample_root :: lpae_table where
  "arm_sample_root = (\<lambda>i. if i = 0 then Ptab (page_to_p2m_table 0x50) arm_sample_table
     else if i = 1 then Pte ((mfn_to_p2m_entry 0x400 arm_ram_rw p2m_access_rwx)\<lparr>l_table := False\<rparr>)
     else Pte lpae_zero)"

definition arm_sample_p2m :: arm_p2m where
  "arm_sample_p2m = \<lparr>a_root = (\<lambda>_. arm_sample_root), a_freelist = [0x51], a_max_gfn = 1023, a_lowest_gfn = 0,
     a_need_flush = False, a_flushes = 0, a_access_required = False, a_mem_access_enabled = True,
     a_default_access = p2m_access_rwx, a_settings = [2 \<mapsto> p2m_access_x]\<rparr>"

definition arm_sample_dom :: arm_domain where
  "arm_sample_dom = \<lparr>ad_p2m = arm_sample_p2m, ad_mem = (\<lambda>m off. if m = 0x102 then 7 else 0),
     ad_subpages = RbNull, ad_reg_clear = RbNode RB_BLACK RbNull 2 1 RbNull, ad_heap = 4\<rparr>"

lemmas arm_sample_defs = arm_sample_env_def arm_sample_table_def arm_sample_root_def arm_sample_p2m_def
  arm_sample_dom_def

lemma pte_simps [simp]:
  "pte_rights (e\<lparr>l_table := c\<rparr>) = pte_rights e" "pte_rights (e\<lparr>l_base := m\<rparr>) = pte_rights e"
  "\<not> arm_is_valid lpae_zero" "arm_is_valid (mfn_to_p2m_entry m t a) \<longleftrightarrow> t \<noteq> arm_invalid"
  "arm_is_valid (e\<lparr>l_table := c\<rparr>) = arm_is_valid e"
  by (simp_all add: pte_rights_def arm_is_valid_def lpae_zero_def)

lemma arm_sample_tables: "ltbl_ok 1 arm_sample_root"
proof -
  have "unat (0x100 + of_nat i :: u64) < 2 ^ 36" if "i < 4" for i
    using that by (simp add: unat_word_ariths unat_of_nat)
  then have "lnode_ok 0 (arm_sample_table i)" for i
    using take_36 by (auto simp: arm_sample_table_def)
  then show ?thesis
    by (auto simp: ltbl_ok_def arm_sample_root_def)
qed

lemma sample_path:
  assumes "drop_bit 18 (g :: u64) = 0" "table_offset (Suc 0) g = 0" "table_offset 0 g = 2"
  shows "g = 2"
proof (rule same_path_eq[of "Suc 0"])
  show "same_path (Suc 0) g 2" using assms(2,3) by (simp add: table_offset_def)
  show "drop_bit (Suc 0 * 9 + 9) g = drop_bit (Suc 0 * 9 + 9) 2" using assms(1) by simp
qed

lemma arm_sample_ok: "arm_ok arm_sample_env arm_sample_p2m"
proof -
  have "pte_rights e = arm_rights (l_type e) a"
    if v: "arm_view arm_sample_env arm_sample_p2m g = Some (e, a)" for g e a
  proof -
    have root: "drop_bit 18 g = 0"
      using v by (auto simp: arm_view_def p2m_get_root_pointer_def Let_def arm_sample_env_def word_unat_eq_iff
          split: if_splits)
    show ?thesis
    proof (cases "g = 2")
      case True
      with v show ?thesis
        by (auto simp: arm_view_def p2m_get_root_pointer_def arm_sample_defs Let_def p2m_mem_access_radix_get_def
            leaf_of_def table_offset_def lpae_is_mapping_def split: if_splits)
    next
      case False
      with v root sample_path[OF root] show ?thesis
        by (auto simp: arm_view_def p2m_get_root_pointer_def arm_sample_defs Let_def p2m_mem_access_radix_get_def
            leaf_of_def lpae_is_mapping_def split: if_splits)
    qed
  qed
  then show ?thesis using arm_sample_tables
    by (simp add: arm_ok_def) (simp add: arm_sample_env_def arm_sample_p2m_def)
qed

lemma arm_sample_dom_ok: "arm_dom_ok arm_sample_env arm_sample_dom"
  using arm_sample_ok
  by (simp add: arm_dom_ok_def arm_trees_ok_def arm_sample_dom_def page_inv_def rb_valid_def page_keys_def)

lemmas arm_eval = arm_set_mem_access_single_def arm_get_entry_def arm_set_entry_def arm_set_entry_order_def
  arm_chunk_order_def p2m_get_root_pointer_def table_offset_def lpae_is_mapping_def lpae_update_def
  p2m_mem_access_radix_set_def p2m_mem_access_radix_get_def Let_def

lemma set_loop_once:
  "arm_set_entry_loop env p g (Suc 0) m t a = arm_set_entry_order env p g (arm_chunk_order p g (Suc 0) m) m t a"
  by (subst arm_set_entry_loop.simps) (auto simp: Let_def arm_set_entry_loop.simps[of env _ _ 0] split: prod.splits)

subsection \<open>Sealing and unsealing\<close>

lemma x_rights: "arm_rights t p2m_access_x = (False, False, \<not> arm_is_ram t)"
  by (simp add: arm_rights_def p2m_set_permission_def arm_type_perms_def arm_is_ram_def Let_def)

text \<open>
  C13: sealing on ARM. When \<^verbatim>\<open>set_xom_seal\<close> succeeds, every page of the range is mapped to the frame it was
  mapped to before, its stage-2 entry is neither readable nor writable, and executable if the page is RAM, whether it was
  a 4K page or part of a superpage. Other pages keep their entries and rights, the contents do not change and
  no TLB flush is left pending.
\<close>

theorem arm_set_xom_seal_execute_only:
  assumes "arm_dom_ok env d" "arm_set_xom_seal env d gfn nr = (ret, e)" "ret \<ge> 0"
  shows "(\<forall>g \<in> gfns gfn (unat nr). \<exists>en b en'. dview env d g = Some (en, b) \<and> dview env e g = Some (en', p2m_access_x)
      \<and> l_base en' = l_base en \<and> l_type en' = l_type en \<and> \<not> l_read en' \<and> \<not> l_write en'
      \<and> (arm_is_ram (l_type en) \<longrightarrow> \<not> l_xn en'))
    \<and> (\<forall>g. g \<notin> gfns gfn (unat nr) \<longrightarrow> dview env e g = dview env d g)
    \<and> ad_mem e = ad_mem d \<and> \<not> a_need_flush (ad_p2m e)"
proof -
  note spec = arm_set_spec[OF assms(1,2)]
  have "\<exists>en b en'. dview env d g = Some (en, b) \<and> dview env e g = Some (en', p2m_access_x)
      \<and> l_base en' = l_base en \<and> l_type en' = l_type en \<and> \<not> l_read en' \<and> \<not> l_write en'
      \<and> (arm_is_ram (l_type en) \<longrightarrow> \<not> l_xn en')" if g: "g \<in> gfns gfn (unat nr)" for g
  proof -
    from spec assms(3) g obtain en b where en: "dview env d g = Some (en, b)"
      and e: "dview env e g = Some (mfn_to_p2m_entry (l_base en) (l_type en) p2m_access_x, p2m_access_x)"
      by (auto simp: retag_view_def)
    have "l_base (mfn_to_p2m_entry (l_base en) (l_type en) p2m_access_x) = l_base en"
      using view_ok[OF _ en] assms(1) by (simp add: arm_dom_ok_def take_36)
    with en e new_entry(5)[of "l_base en" "l_type en" p2m_access_x] show ?thesis
      by (simp add: x_rights pte_rights_def)
  qed
  moreover have "\<forall>g. g \<notin> gfns gfn (unat nr) \<longrightarrow> dview env e g = dview env d g"
    using spec unfolding arm_retag_def by blast
  ultimately show ?thesis using spec assms(3) by blast
qed

lemma arm_sample_seal: "fst (arm_set_xom_seal arm_sample_env arm_sample_dom 513 1) = 0"
  by (simp add: arm_set_xom_seal_def arm_eval set_loop_once arm_sample_defs arm_set_entry_loop.simps[of _ _ _ 0]
      p2m_force_tlb_flush_sync_def)

theorem arm_set_xom_seal_execute_only_witness:
  "\<exists>e en. arm_set_xom_seal arm_sample_env arm_sample_dom 513 1 = (0, e)
    \<and> dview arm_sample_env e 513 = Some (en, p2m_access_x) \<and> \<not> l_read en \<and> \<not> l_write en"
proof -
  obtain e where e: "arm_set_xom_seal arm_sample_env arm_sample_dom 513 1 = (0, e)"
    using arm_sample_seal by (metis prod.collapse)
  from arm_set_xom_seal_execute_only[OF arm_sample_dom_ok e] show ?thesis using e by auto
qed


lemma arm_sample_xom: "arm_xom arm_sample_env arm_sample_dom 2 0x102"
  by (simp add: arm_xom_def arm_view_def arm_eval arm_sample_defs leaf_of_def)

lemma forget_single: "forget_page (RbNode RB_BLACK RbNull 2 (1 :: u8) RbNull) h 2 = Some (RbNull, Suc h)"
  by (simp add: forget_page_def get_page_info_entry_def rm_page_info_entry_def rb_erase.simps)

lemma arm_sample_unseal: "map_option fst (arm_clear_xom_seal arm_sample_env junk arm_sample_dom 2 1) = Some 0"
  by (simp add: arm_clear_xom_seal_def read_atype_def arm_get_page_from_gfn_def arm_get_page_type_def arm_eval
      set_loop_once arm_sample_defs arm_is_any_ram_def arm_is_ram_def p2m_force_tlb_flush_sync_def forget_single,
      simp add: forget_page_def get_page_info_entry_def)


subsection \<open>The hypercall\<close>

text \<open>
  C29: every hypercall of the ARM port returns, dereferences no NULL pointer, keeps the domain well-formed (tables,
  access rights and permission bits in agreement, both page-info trees) and keeps the number of
  page-info entries plus free allocations, whatever the operations, the preemption and the uninitialised variables are.
\<close>

theorem arm_do_mmuext_op_invariant:
  assumes "arm_dom_ok env d"
  shows "\<exists>rc e n. arm_do_mmuext_op env junk preempt okay uops d = Some (rc, e, n) \<and> arm_dom_ok env e
    \<and> arm_budget e = arm_budget d"
  using assms arm_handle_loop_spec[OF assms, of junk preempt 0 uops]
  by (simp add: arm_do_mmuext_op_def arm_handle_xom_seal_def)

lemma arm_sample_budget: "arm_budget arm_sample_dom = 5"
  by (simp add: arm_budget_def arm_sample_dom_def page_count_def)

theorem arm_do_mmuext_op_invariant_witness:
  "\<exists>rc e n. arm_do_mmuext_op arm_sample_env (\<lambda>_. p2m_access_n) (\<lambda>_. False) True
     [Some \<lparr>op_cmd = 21, op_mfn = 513, op_arg2 = 1\<rparr>, Some \<lparr>op_cmd = 22, op_mfn = 0, op_arg2 = 1024\<rparr>] arm_sample_dom
       = Some (rc, e, n) \<and> arm_dom_ok arm_sample_env e \<and> arm_budget e = 5"
  using arm_do_mmuext_op_invariant[OF arm_sample_dom_ok] unfolding arm_sample_budget by blast

text \<open>
  A defect. \<^verbatim>\<open>mark_reg_clear_page\<close> wants to admit sealed pages only, but for a frame number that is not
  mapped \<^verbatim>\<open>p2m_get_entry\<close> leaves \<^verbatim>\<open>atype\<close> uninitialised: the call fails or records a page that does not
  exist, depending on what the stack happened to hold.
\<close>

lemma arm_mark_reg_clear_unmapped:
  assumes "arm_dom_ok env d" "dview env d gfn = None" "page_alpha (ad_reg_clear d) gfn = None" "ad_heap d > 0"
    and "t = 1 \<or> t = 2"
  shows "if junk = p2m_access_x
    then \<exists>e. arm_mark_reg_clear_page env junk d gfn t = Some (0, e) \<and> page_alpha (ad_reg_clear e) gfn = Some (ucast t)
    else arm_mark_reg_clear_page env junk d gfn t = Some (- EINVAL, d)"
proof -
  have inv: "page_inv (ad_reg_clear d)" using assms(1) by (simp add: arm_dom_ok_def arm_trees_ok_def)
  obtain rcl h where add: "add_page_info_entry (ad_reg_clear d) (ad_heap d) gfn (ucast t) = Some (True, rcl, h)"
    "page_alpha rcl gfn = Some (ucast t)"
    using page_info.add_new[OF inv, of "ad_heap d" gfn "ucast t"] assms(3,4) by auto
  have "t \<noteq> 0" "\<not> t > 2" using assms(5) by auto
  with add assms(2) page_info.find_iff[OF inv, of gfn] assms(3) show ?thesis
    by (simp add: arm_mark_reg_clear_page_def read_atype_view)
qed

subsection \<open>Data aborts\<close>

text \<open>When the walk ends at a 4K entry, the update is applied to that entry.\<close>

lemma walk_rw_leaf:
  assumes "lpae_walk h tbl gfn = Inr (e, 0)" "ltbl_ok h tbl" "upd p (Pte e) = (rc, node, q)"
  shows "\<exists>tbl'. lpae_walk_rw upd 0 removing h tbl gfn p = (rc, tbl', q)
    \<and> lpae_leaf h tbl' gfn = leaf_of 0 (node_pte node) gfn"
  using assms(1,2)
proof (induction h arbitrary: tbl)
  case 0
  then show ?case using ltbl_node[OF 0(2), of 0 gfn] assms(3)
    by (cases "tbl (table_offset 0 gfn)") (auto simp: Let_def)
next
  case (Suc h)
  let ?i = "table_offset (Suc h) gfn"
  obtain e' t where t: "tbl ?i = Ptab e' t" "arm_is_valid e'" "l_table e'" "ltbl_ok h t"
    using Suc.prems ltbl_node[OF Suc.prems(2), of "Suc h" gfn]
    by (cases "tbl ?i") (auto simp: Let_def ltbl_ok_def split: if_splits)
  with Suc.prems(1) have "lpae_walk h t gfn = Inr (e, 0)" by (simp add: lpae_is_mapping_def)
  from Suc.IH[OF this t(4)] obtain t' where "lpae_walk_rw upd 0 removing h t gfn p = (rc, t', q)"
    "lpae_leaf h t' gfn = leaf_of 0 (node_pte node) gfn" by blast
  with t leaf_table[of e' "tbl(?i := Ptab e' t')" h gfn t'] show ?case
    by (simp add: Let_def lpae_is_mapping_def)
qed

lemma get_entry_mapped:
  "arm_get_entry env p g = (mfn, t, Some a, n, v) \<Longrightarrow> \<exists>e. arm_view env p g = Some (e, a) \<and> l_base e = mfn \<and> l_type e = t"
  using get_entry_view[of env p g] by (auto split: option.splits)

lemma set_rwx_leaf:
  assumes ok: "arm_ok env p" and alive: "\<not> av_is_dying env" and en: "a_mem_access_enabled p"
    and page: "arm_get_entry env p gfn = (mfn, t, Some b, 0, v)"
  shows "\<exists>rc q. arm_set_entry env p gfn 1 mfn t p2m_access_rwx = (rc, q)
    \<and> arm_view env q gfn = Some (mfn_to_p2m_entry mfn t p2m_access_rwx, p2m_access_rwx)"
proof -
  obtain r e where r: "p2m_get_root_pointer env gfn = Some r" and g: "\<not> gfn > a_max_gfn p"
    and w: "lpae_walk (av_root_height env) (a_root p r) gfn = Inr (e, 0)"
    and e: "arm_is_valid e" "mfn = l_base e" "t = l_type e"
    using page by (auto simp: arm_get_entry_def split: if_splits option.splits sum.splits prod.splits)
  from r have rr: "r < av_root_pages env" by (auto simp: p2m_get_root_pointer_def Let_def split: if_splits)
  from get_entry_mapped[OF page] have m: "mfn \<noteq> INVALID_MFN" "t \<noteq> arm_invalid" "unat mfn < 2 ^ 36"
    using view_ok[OF ok] by (auto simp: arm_is_valid_def)
  obtain rc node q1 where u: "lpae_update env 0 gfn 0 mfn t p2m_access_rwx p (Pte e) = (rc, node, q1)"
    by (metis prod_cases3)
  have node: "node = Pte (mfn_to_p2m_entry mfn t p2m_access_rwx)" and rec: "arm_recorded gfn p2m_access_rwx p q1"
    using u en m by (auto simp: lpae_update_def p2m_mem_access_radix_set_def Let_def arm_recorded_def
        p2m_force_tlb_flush_sync_def split: if_splits)
  from walk_rw_leaf[of _ _ _ _ "lpae_update env 0 gfn 0 mfn t p2m_access_rwx" p, OF w _ u, of "mfn = INVALID_MFN"] ok rr
  obtain tbl where
    tbl: "lpae_walk_rw (lpae_update env 0 gfn 0 mfn t p2m_access_rwx) 0 (mfn = INVALID_MFN) (av_root_height env)
      (a_root p r) gfn p = (rc, tbl, q1)"
    and leaf: "lpae_leaf (av_root_height env) tbl gfn = leaf_of 0 (node_pte node) gfn" by (auto simp: arm_ok_def)
  have "leaf_of 0 (node_pte node) gfn = Some (mfn_to_p2m_entry mfn t p2m_access_rwx)"
    using m unfolding node by (simp add: leaf_of_def)
  with leaf g r rec radix_get_recorded[OF en rec, of gfn]
  have "arm_view env (q1\<lparr>a_root := (a_root q1)(r := tbl)\<rparr>) gfn = Some (mfn_to_p2m_entry mfn t p2m_access_rwx, p2m_access_rwx)"
    by (simp add: arm_view_def arm_recorded_def p2m_mem_access_radix_get_def)
  with set_entry_walk[OF en alive r tbl] show ?thesis by blast
qed

lemma set_mem_access_one:
  assumes "arm_get_entry env p gfn = (mfn, t, b, n, v)" "mfn \<noteq> INVALID_MFN" "gfn \<noteq> INVALID_GFN" "a_mem_access_enabled p"
    and "arm_set_entry env p gfn 1 mfn t a = (rc, q)"
  shows "arm_set_mem_access env preempt p gfn 1 0 (- 1) (Some a) = Some (rc, p2m_write_unlock q)"
proof -
  have p: "p\<lparr>a_mem_access_enabled := True\<rparr> = p" using assms(4) by simp
  have "arm_set_mem_access_loop env preempt 1 (- 1) a gfn 0 p = Some (rc, q)"
    using assms(1,2,5)
    by (subst arm_set_mem_access_loop.simps)
      (simp add: gfn_next_boundary_def Let_def, subst arm_set_mem_access_loop.simps, simp)
  with assms(3) show ?thesis by (simp add: arm_set_mem_access_def p)
qed

lemma rwx_rights: "arm_rights arm_ram_rw p2m_access_rwx = (True, True, False)"
  by (simp add: arm_rights_def p2m_set_permission_def arm_type_perms_def Let_def)

text \<open>
  C15: a defect. On ARM a sealed page does not stay sealed. A guest load or store to a sealed 4K page of RAM traps,
  and with no monitor attached and no access listener required \<^verbatim>\<open>p2m_mem_access_check\<close> lifts the restriction: the
  guest retries its instruction on a page that is readable, writable and executable and still maps the same frame, which nobody
  wiped.
\<close>

theorem arm_data_abort_unseals:
  assumes ok: "arm_ok env p" and alive: "\<not> av_is_dying env"
    and page: "arm_get_entry env p gfn = (mfn, arm_ram_rw, Some p2m_access_x, 0, v)"
    and req: "\<not> a_access_required p"
    and ab: "ab_data ab" "\<not> ab_eat ab" "\<not> ab_s1ptw ab" "ab_fsc ab AND NOT FSC_LL_MASK = FSC_FLT_PERM"
      "ab_gva_to_ipa ab = (0, ipa)" "drop_bit PAGE_SHIFT ipa = gfn"
  shows "\<exists>q e. do_trap_stage2_abort_guest env m preempt False alloc traps ab p = Some (Guest_retries, q)
    \<and> arm_view env q gfn = Some (e, p2m_access_rwx) \<and> l_base e = mfn \<and> l_read e \<and> l_write e \<and> \<not> l_xn e"
proof -
  obtain e where v: "arm_view env p gfn = Some (e, p2m_access_x)" "l_base e = mfn"
    using get_entry_mapped[OF page] by blast
  note vo = view_ok[OF ok v(1)]
  have dflt: "\<not> a_mem_access_enabled p \<Longrightarrow> a_default_access p = p2m_access_rwx" using ok by (simp add: arm_ok_def)
  have x: "p2m_mem_access_radix_get p gfn = p2m_access_x" using vo by simp
  from x dflt have en: "a_mem_access_enabled p" by (auto simp: p2m_mem_access_radix_get_def split: if_splits)
  with x have set: "a_settings p gfn = Some p2m_access_x"
    by (simp add: p2m_mem_access_radix_get_def split: option.splits)
  have "\<not> bit gfn 63" unfolding ab(6)[symmetric] by (auto simp: bit_drop_bit_eq dest: bit_imp_le_length)
  then have gfn: "gfn \<noteq> INVALID_GFN" by auto
  obtain rc q where q: "arm_set_entry env p gfn 1 mfn arm_ram_rw p2m_access_rwx = (rc, q)"
    "arm_view env q gfn = Some (mfn_to_p2m_entry mfn arm_ram_rw p2m_access_rwx, p2m_access_rwx)"
    using set_rwx_leaf[OF ok alive en page] by blast
  have conv: "arm_set_mem_access env preempt p gfn 1 0 (- 1) (Some p2m_access_rwx) = Some (rc, p2m_write_unlock q)"
    using set_mem_access_one[OF page _ gfn en q(1)] vo v(2) by blast
  have get: "arm_get_mem_access env p gfn = (0, p2m_access_x)" using en set gfn by (simp add: arm_get_mem_access_def)
  have "do_trap_stage2_abort_guest env m preempt False alloc traps ab p = Some (Guest_retries, p2m_write_unlock q)"
    using ab en req get conv
    by (simp add: do_trap_stage2_abort_guest_def hpfar_is_valid_def arm_mem_access_check_def Let_def)
  moreover have "arm_view env (p2m_write_unlock q) gfn = Some (mfn_to_p2m_entry mfn arm_ram_rw p2m_access_rwx, p2m_access_rwx)"
    using q(2) by (simp add: p2m_write_unlock_def)
  moreover have "l_base (mfn_to_p2m_entry mfn arm_ram_rw p2m_access_rwx) = mfn" using vo v(2) take_36 by simp
  ultimately show ?thesis
    using new_entry(5)[of mfn arm_ram_rw p2m_access_rwx] by (auto simp: rwx_rights pte_rights_def)
qed

definition arm_sample_abort :: arm_abort where
  "arm_sample_abort = \<lparr>ab_data = True, ab_eat = False, ab_s1ptw = False, ab_fsc = 0xf, ab_write = False,
     ab_iss_valid = True, ab_far = 0x40002010, ab_hpfar = 0, ab_gva_to_ipa = (0, 0x2010)\<rparr>"

theorem arm_data_abort_unseals_witness:
  "\<forall>m. \<exists>q e. do_trap_stage2_abort_guest arm_sample_env m (\<lambda>_. False) False True (\<lambda>_ _. 0) arm_sample_abort arm_sample_p2m
      = Some (Guest_retries, q)
    \<and> arm_view arm_sample_env q 2 = Some (e, p2m_access_rwx) \<and> l_base e = 0x102 \<and> l_read e"
proof
  fix m
  have page: "arm_get_entry arm_sample_env arm_sample_p2m 2 = (0x102, arm_ram_rw, Some p2m_access_x, 0, True)"
    by (simp add: arm_eval arm_sample_defs)
  have alive: "\<not> av_is_dying arm_sample_env" "\<not> a_access_required arm_sample_p2m"
    by (simp_all add: arm_sample_env_def arm_sample_p2m_def)
  show "\<exists>q e. do_trap_stage2_abort_guest arm_sample_env m (\<lambda>_. False) False True (\<lambda>_ _. 0) arm_sample_abort arm_sample_p2m
      = Some (Guest_retries, q)
    \<and> arm_view arm_sample_env q 2 = Some (e, p2m_access_rwx) \<and> l_base e = 0x102 \<and> l_read e"
    using arm_data_abort_unseals[OF arm_sample_ok alive(1) page alive(2), of arm_sample_abort "0x2010"]
    by (simp add: arm_sample_abort_def) blast
qed

subsection \<open>Translation faults\<close>

text \<open>A leaf without its valid bit, which is all that resolving a translation fault may change.\<close>

definition forget_valid :: "lpae_t option \<Rightarrow> lpae_t option" where
  "forget_valid v = map_option (\<lambda>e. e\<lparr>l_valid := False\<rparr>) v"

lemma valid_bit [simp]:
  "arm_is_valid (e\<lparr>l_valid := b\<rparr>) = arm_is_valid e" "lpae_is_mapping (e\<lparr>l_valid := b\<rparr>) h = lpae_is_mapping e h"
  "forget_valid (leaf_of h (e\<lparr>l_valid := b\<rparr>) g) = forget_valid (leaf_of h e g)"
  by (simp_all add: arm_is_valid_def lpae_is_mapping_def leaf_of_def forget_valid_def)

lemma node_pte_invalidate [simp]: "node_pte (invalidate_node n) = (node_pte n)\<lparr>l_valid := False\<rparr>"
  by (cases n) simp_all

lemma invalidate_leaf: "forget_valid (lpae_leaf h (p2m_invalidate_table t) g) = forget_valid (lpae_leaf h t g)"
  by (cases h; cases "t (table_offset h g)") (simp_all add: p2m_invalidate_table_def Let_def)

lemma invalidate_ok: "ltbl_ok h t \<Longrightarrow> ltbl_ok h (p2m_invalidate_table t)"
proof -
  have "lnode_ok h n \<Longrightarrow> lnode_ok h (invalidate_node n)" for n by (cases h; cases n) simp_all
  then show "ltbl_ok h t \<Longrightarrow> ltbl_ok h (p2m_invalidate_table t)" by (simp add: ltbl_ok_def p2m_invalidate_table_def)
qed

lemma resolve_keeps:
  assumes "ltbl_ok h tbl" "lpae_resolve h tbl gfn = (r, tbl', ivd)"
  shows "ltbl_ok h tbl' \<and> forget_valid (lpae_leaf h tbl' g) = forget_valid (lpae_leaf h tbl g)"
  using assms
proof (induction h arbitrary: tbl tbl' r ivd)
  case 0
  obtain e where e: "tbl (table_offset 0 gfn) = Pte e" "lnode_ok 0 (Pte e)"
    using ltbl_node[OF 0(1), of 0 gfn] by (cases "tbl (table_offset 0 gfn)") auto
  then have "lnode_ok 0 (Pte (e\<lparr>l_valid := True\<rparr>))" by simp
  with 0 e show ?case
    by (auto simp: Let_def intro!: ltbl_upd split: if_splits)
next
  case (Suc h)
  let ?i = "table_offset (Suc h) gfn"
  note ok = ltbl_node[OF Suc.prems(1), of "Suc h" gfn]
  show ?case
  proof (cases "tbl ?i")
    case (Pte e)
    then have "lnode_ok (Suc h) (Pte (e\<lparr>l_valid := True\<rparr>))" using ok by simp
    with Suc.prems Pte show ?thesis
      by (auto simp: Let_def simp del: lnode_ok.simps intro!: ltbl_upd split: if_splits)
  next
    case (Ptab e t)
    with ok have t: "ltbl_ok h t" "arm_is_valid e" "l_table e" by (auto simp: ltbl_ok_def)
    have new: "ltbl_ok (Suc h) (tbl(?i := Ptab e' t')) \<and>
        forget_valid (lpae_leaf (Suc h) (tbl(?i := Ptab e' t')) g) = forget_valid (lpae_leaf (Suc h) tbl g)"
      if "ltbl_ok h t'" "arm_is_valid e'" "l_table e'" "forget_valid (lpae_leaf h t' g) = forget_valid (lpae_leaf h t g)" for e' t'
    proof
      show "ltbl_ok (Suc h) (tbl(?i := Ptab e' t'))"
        using that by (intro ltbl_upd[OF Suc.prems(1)]) (simp add: ltbl_ok_def)
      show "forget_valid (lpae_leaf (Suc h) (tbl(?i := Ptab e' t')) g) = forget_valid (lpae_leaf (Suc h) tbl g)"
        using that t Ptab leaf_upd_other[of "Suc h" g ?i tbl]
        by (cases "table_offset (Suc h) g = ?i") (simp_all add: lpae_is_mapping_def Let_def)
    qed
    show ?thesis
    proof (cases "l_valid e")
      case False
      with Suc.prems(2) Ptab t have new_tbl: "tbl' = tbl(?i := Ptab (e\<lparr>l_valid := True\<rparr>) (p2m_invalidate_table t))"
        by (simp add: Let_def)
      show ?thesis unfolding new_tbl by (rule new) (simp_all add: t invalidate_ok invalidate_leaf del: lpae_leaf.simps)
    next
      case True
      obtain r1 t1 i1 where r: "lpae_resolve h t gfn = (r1, t1, i1)" by (metis prod_cases3)
      with True Suc.prems(2) Ptab t have new_tbl: "tbl' = tbl(?i := Ptab e t1)" by (simp add: Let_def)
      show ?thesis unfolding new_tbl by (rule new) (use Suc.IH[OF t(1) r] t in auto)
    qed
  qed
qed

text \<open>
  C30: a translation fault is harmless on ARM. Resolving it terminates, and every guest frame keeps its machine frame, its type,
  its access right and its permission bits; only the valid bits of entries change, and no TLB flush is left pending.
\<close>

theorem arm_translation_fault_keeps_rights:
  assumes "arm_ok env p" "p2m_resolve_translation_fault env p gfn = (r, q)"
  shows "(\<forall>g. map_option (\<lambda>(e, a). (l_base e, l_type e, pte_rights e, a)) (arm_view env q g)
      = map_option (\<lambda>(e, a). (l_base e, l_type e, pte_rights e, a)) (arm_view env p g))
    \<and> arm_ok env q \<and> \<not> a_need_flush q"
proof -
  have same: ?thesis if "q = p2m_write_unlock p" using that assms(1) by (simp add: p2m_write_unlock_def)
  show ?thesis
  proof (cases "gfn > a_max_gfn p \<or> p2m_get_root_pointer env gfn = None")
    case True
    with assms(2) have "q = p2m_write_unlock p" by (auto simp: p2m_resolve_translation_fault_def split: if_splits)
    then show ?thesis by (rule same)
  next
    case False
    let ?R = "av_root_height env"
    obtain k where k: "p2m_get_root_pointer env gfn = Some k" using False by auto
    then have kk: "k < av_root_pages env" by (auto simp: p2m_get_root_pointer_def Let_def split: if_splits)
    obtain r1 tbl ivd where w: "lpae_resolve ?R (a_root p k) gfn = (r1, tbl, ivd)" by (metis prod_cases3)
    let ?q = "p\<lparr>a_root := (a_root p)(k := tbl), a_need_flush := a_need_flush p \<or> ivd\<rparr>"
    have q: "q = p2m_write_unlock ?q" using assms(2) False k w by (simp add: p2m_resolve_translation_fault_def)
    have ok: "ltbl_ok ?R (a_root p k)" using assms(1) kk by (simp add: arm_ok_def)
    note keep = resolve_keeps[OF ok w]
    have rg: "p2m_mem_access_radix_get ?q = p2m_mem_access_radix_get p"
      by (simp add: p2m_mem_access_radix_get_def fun_eq_iff)
    have leaf: "forget_valid (lpae_leaf ?R (((a_root p)(k := tbl)) j) g) = forget_valid (lpae_leaf ?R (a_root p j) g)" for j g
      using keep by simp
    have fields: "map_option (\<lambda>(e, a). (l_base e, l_type e, pte_rights e, a)) (map_option (\<lambda>e. (e, b)) v)
        = map_option (\<lambda>e. (l_base e, l_type e, pte_rights e, b)) (forget_valid v)" for b v
      by (cases v) (simp_all add: forget_valid_def pte_rights_def)
    have view: "map_option (\<lambda>(e, a). (l_base e, l_type e, pte_rights e, a)) (arm_view env ?q g)
        = map_option (\<lambda>(e, a). (l_base e, l_type e, pte_rights e, a)) (arm_view env p g)" for g
      unfolding arm_view_def rg by (simp add: fields leaf del: fun_upd_apply split: option.split)
    have "pte_rights e = arm_rights (l_type e) a" if "arm_view env ?q g = Some (e, a)" for g e a
      using view[of g] that assms(1) by (cases "arm_view env p g") (auto simp: arm_ok_def)
    then have "arm_ok env ?q" using assms(1) keep unfolding arm_ok_def by simp
    with view show ?thesis unfolding q p2m_write_unlock_def by simp
  qed
qed

theorem arm_translation_fault_keeps_rights_witness:
  "\<exists>r q. p2m_resolve_translation_fault arm_sample_env arm_sample_p2m 2 = (r, q)
    \<and> map_option (\<lambda>(e, a). (l_base e, pte_rights e)) (arm_view arm_sample_env q 2) = Some (0x102, False, False, False)"
proof -
  obtain r q where q: "p2m_resolve_translation_fault arm_sample_env arm_sample_p2m 2 = (r, q)"
    by (cases "p2m_resolve_translation_fault arm_sample_env arm_sample_p2m 2") auto
  obtain e where e: "arm_view arm_sample_env arm_sample_p2m 2 = Some (e, p2m_access_x)" "l_base e = 0x102"
    using arm_sample_xom by (auto simp: arm_xom_def arm_sample_dom_def)
  have "l_type e = arm_ram_rw" using e by (auto simp: arm_view_def arm_eval arm_sample_defs leaf_of_def)
  with e arm_sample_ok have "pte_rights e = (False, False, False)"
    by (auto simp: arm_ok_def x_rights arm_is_ram_def)
  with e arm_translation_fault_keeps_rights[OF arm_sample_ok q] q show ?thesis
    by (cases "arm_view arm_sample_env q 2") (auto dest!: spec[of _ 2])
qed

end
