(* ===== verification/Spec2Isabelle.thy ===== *)
theory Spec2Isabelle
  imports Rbtree_Walk Xen_Seal Ept_Main Hvm_Main Mem_Access_Main Modxom_Main Mmuext Libxom_Main Command_Bytes Aes_Ctr_Main Arm_Main
begin

text \<open>
  \<^bold>\<open>The program.\<close> Lixom gives processes in a guest of the Xen hypervisor memory that can be executed but neither read
  nor written. It has four layers, and each is modelled from its source under \<^verbatim>\<open>src/\<close>.

  \<^item> The hypervisor (\<^verbatim>\<open>xen/xen\<close>) seals guest pages: it sets the access right of a page in the second-level page
    table to execute-only. It keeps two red-black trees per domain, one for pages divided into 32 write-once subpages and one for
    pages whose interruption clears the registers. The entry is the hypercall \<^verbatim>\<open>mmuext_op\<close>.
  \<^item> The guest kernel module (\<^verbatim>\<open>modxom\<close>) offers the file \<^verbatim>\<open>/proc/xom\<close>. A process maps pages through it and writes
    commands to it, which become hypercalls.
  \<^item> The user library (\<^verbatim>\<open>libxom\<close>) manages buffers of such memory, fills subpages, and moves a program's own code.
  \<^item> The OpenSSL provider (\<^verbatim>\<open>openssl-provider\<close>) puts an AES key into the immediate operands of code in a sealed page
    and encrypts with that code.

  \<^bold>\<open>The theories.\<close> Each theory of definitions follows one or two source files; a theory named \<open>_Proofs\<close> has the lemmas
  about them and a theory named \<open>_Main\<close> the main theorems with their concrete instances.

  \<^item> \<open>Xom_Prelude\<close>: integer widths, error numbers, lemmas on words and on indices of page tables.
  \<^item> \<open>Rbtree\<close>, \<open>Rbtree_Walk\<close>: \<^verbatim>\<open>lib/rbtree.c\<close>. A node with its parent pointers is a subtree with the path to the root.
    Insertion and removal keep the red-black properties and the order, the height is logarithmic, iteration ends and visits all.
  \<^item> \<open>Page_Info\<close>: the page-info entries of \<^verbatim>\<open>arch/x86/xom_seal.c\<close>. They refine a map from frame numbers; the contract is the
    locale \<open>page_map\<close>.
  \<^item> \<open>P2m\<close>: types and rights of \<^verbatim>\<open>asm/p2m.h\<close>, look-ups of \<^verbatim>\<open>arch/x86/mm/p2m.c\<close> and the access control of
    \<^verbatim>\<open>mem_access.c\<close>. The contract of the table behind the function pointers is the locale \<open>p2m_table\<close>.
  \<^item> \<open>Ept\<close>, \<open>Ept_Proofs\<close>, \<open>Ept_Main\<close>: \<^verbatim>\<open>arch/x86/mm/p2m-ept.c\<close>. Splitting and deferred changes keep every
    translation, an update changes its own frame only; \<open>p2m_table\<close> is interpreted here.
  \<^item> \<open>Xom_Seal\<close>, \<open>Seal_Proofs\<close>, \<open>Xen_Seal\<close>: the operations of \<^verbatim>\<open>arch/x86/xom_seal.c\<close>. The lemmas are proved in the
    locale \<open>seal\<close> for every table that keeps the contract and interpreted on the EPT: sealing, wiping on unsealing, write-once subpages,
    and that the contents of sealed pages influence nothing the guest can observe. \<open>Mmuext\<close> is the hypercall entry in
    \<^verbatim>\<open>arch/x86/mm.c\<close>.
  \<^item> \<open>Hvm_Fault\<close>, \<open>Hvm_Main\<close>: EPT violations and nested page faults (\<^verbatim>\<open>hvm/vmx/vmx.c\<close>, \<^verbatim>\<open>hvm/hvm.c\<close>) and
    register clearing. A data access to a sealed page is a fault for the guest, and no fault lifts a seal.
  \<^item> \<open>Mem_Access_Main\<close>: preempted requests, and reading back what was set. \<open>Xen_Sample\<close> is the machine of the instances.
  \<^item> \<open>Arm_P2m\<close>, \<open>Arm_Access\<close>, \<open>Arm_Seal\<close>, \<open>Arm_Proofs\<close>, \<open>Arm_Seal_Proofs\<close>, \<open>Arm_Main\<close>: the ARM port, that is the stage-2
    tables of \<^verbatim>\<open>arch/arm/mmu/p2m.c\<close>, \<^verbatim>\<open>arch/arm/mem_access.c\<close>, the stage-2 aborts of \<^verbatim>\<open>arch/arm/traps.c\<close> and the
    operations of \<^verbatim>\<open>arch/arm/xom_seal.c\<close>. Its page-info trees are the code of the x86 file and use \<open>Page_Info\<close>. Sealing and
    unsealing are right here too, but a data abort of the guest lifts the seal.
  \<^item> \<open>Modxom\<close>, \<open>Modxom_Main\<close>: \<^verbatim>\<open>modxom/modxom.c\<close>. Memory safety, isolation of processes, the round trip of
    mapping and freeing; the commands that walk the mappings share the locale \<open>mapping_command\<close>.
  \<^item> \<open>Libxom\<close>, \<open>Libxom_Code\<close>, \<open>Libxom_Main\<close>: \<^verbatim>\<open>libxom/libxom.c\<close>. Which subpages are filled, which pages a lock
    covers, that blocks repeated after register clearing end. \<open>Command_Bytes\<close>: the formats the programs share.
  \<^item> \<open>Aes\<close>, \<open>Aesni\<close>, \<open>Aesni_Main\<close>: AES-128 and the routines of \<^verbatim>\<open>aes_aesni.s\<close>, instruction by instruction with
    interruptions. \<open>Subpage_Pool\<close>: \<^verbatim>\<open>xom_subpage_pool.cpp\<close>. \<open>Aes_Ctr\<close>, \<open>Aes_Ctr_Main\<close>: \<^verbatim>\<open>xom_aes_128_ctr.c\<close>;
    the contract of an assembly routine is the locale \<open>gctr_routine\<close>.
  \<^item> This theory runs the kernel module and the user library on the model of the hypervisor and states the properties that
    span the layers: locking, filling subpages, freeing.

  \<^bold>\<open>State and errors.\<close> A C structure is a record, and an operation is a function that returns the new state. A negative return code is
  a negative \<^typ>\<open>int\<close>. A NULL dereference, a use of freed memory, an access outside a buffer and a loop that does not end are
  \<^const>\<open>None\<close>, so a theorem that a call returns \<^const>\<open>Some\<close> excludes them. Code outside the modelled files is an argument: the records
  of functions for the rest of the hypervisor, the guest kernel and the operating system. Locks are held over
  whole operations, so operations are atomic; preemption between two operations of a hypercall is an argument.

  \<^bold>\<open>Bounds.\<close> No definition uses fuel. A loop that the code bounds is a total function with a termination proof; one whose end is not evident is
  a partial function, and the theorems prove that it returns. Integers have the width of the C type. EPT tables have
  four levels (48 bits), ARM tables a root at level 0 to 3, which are all the levels of a 4K granule. One call of counter mode covers fewer than
  \<open>2 ^ 28\<close> blocks, the capacity of the 32-bit length, and the routines are interrupted finitely often: with
  interruptions without end the retry loop does not end.

  \<^bold>\<open>Not modelled.\<close> \<^verbatim>\<open>aes_vaes.s\<close> (256-bit registers, an argument of the provider), \<^verbatim>\<open>xom_aes_128_gcm.c\<close>
  with \<^verbatim>\<open>ghash.s\<close> and \<^verbatim>\<open>xom_hmac_sha256.c\<close> with \<^verbatim>\<open>hmac_sha256.s\<close> (they are about GHASH and SHA-256 in vector instructions that
  the model of the processor does not have), \<^verbatim>\<open>xom_provider.c\<close> and the parameter functions (tables for
  OpenSSL), \<^verbatim>\<open>demos\<close> (terminal and network output). In the hypervisor: memory paging and sharing, populate-on-demand,
  creation and teardown of tables, TLB and cache maintenance beyond the pending flag, page reference counts, the radix tree behind the
  ARM access rights (a map whose allocation may fail), and the parts of Xen that the seal path does not reach.
\<close>

section \<open>The kernel module on top of the hypervisor\<close>

text \<open>
  The machine of the kernel module is now the hypervisor's view of the guest: its memory, its second-level page table and
  its seal records. A hypercall of the guest kernel with one operation arrives at \<^const>\<open>do_mmuext_op\<close>.
\<close>

definition xen_mmuext ::
  "mmuext_env \<Rightarrow> 'e xom_env \<Rightarrow> (nat \<Rightarrow> bool) \<Rightarrow> mmuext_op \<Rightarrow> int \<Rightarrow> u64 \<Rightarrow> u64 \<Rightarrow> 'e xom_domain \<Rightarrow> int \<times> 'e xom_domain" where
  "xen_mmuext me env preempt op nr success_count domid d =
     (case do_mmuext_op me env preempt True [Some op] (ucast domid) d of
        Some (Mmuext_done rc d) \<Rightarrow> (rc, d)
      | _ \<Rightarrow> (- EFAULT, d))"

lemma ucast_up_down: "ucast (ucast (x :: u32) :: u64) = x"
  by transfer simp

lemma xen_mmuext_hvm:
  assumes "xen_mmuext me env preempt op nr sc domid d = (0, e)" "xom_op env d op = Some (rc, f)" "op_cmd op > 4"
  shows "rc \<ge> 0 \<and> e = f"
  using assms unfolding xen_mmuext_def do_mmuext_op_def handle_xom_seal_def
  by (auto split: option.splits if_splits simp: not_le)

lemma xen_mmuext_pv:
  assumes "get_pg_owner me d (ucast (ucast domid :: u32)) = Some True" "op_cmd op > 4"
  shows "\<exists>rc. rc \<noteq> 0 \<and> xen_mmuext me env preempt op nr sc domid d = (rc, d)"
  using assms by (auto simp: xen_mmuext_def do_mmuext_op_def leD)

subsection \<open>Locking\<close>

lemma lock_count:
  assumes "in_mapping a mp" "\<not> a + ucast n * PAGE_SIZE_UL > uaddr mp + map_len mp"
    and "unat (uaddr mp) + 4096 * unat (num_pages mp) \<le> 2 ^ 47"
  shows "n \<le> num_pages mp"
proof -
  have n32: "unat n < 2 ^ 32" "unat (num_pages mp) < 2 ^ 32" using unsigned_less[of n] unsigned_less[of "num_pages mp"] by simp_all
  have mult: "unat (ucast x * PAGE_SIZE_UL :: u64) = 4096 * unat x" if "unat x < 2 ^ 32" for x :: u32
    using that by (simp add: unat_word_ariths unsigned_ucast_eq take_bit_nat_eq_self)
  have "unat (uaddr mp + map_len mp) = unat (uaddr mp) + 4096 * unat (num_pages mp)"
    using assms(3) mult[OF n32(2)] by (simp add: map_len_def unat_word_ariths)
  moreover from this assms(1) have a: "unat (uaddr mp) \<le> unat a" "unat a < unat (uaddr mp) + 4096 * unat (num_pages mp)"
    by (auto simp: in_mapping_def word_le_nat_alt word_less_nat_alt not_less not_le)
  moreover have "unat (a + ucast n * PAGE_SIZE_UL) = unat a + 4096 * unat n"
    using a assms(3) n32(1) mult[OF n32(1)] by (simp add: unat_word_ariths)
  ultimately have "unat a + 4096 * unat n \<le> unat (uaddr mp) + 4096 * unat (num_pages mp)"
    using assms(2) by (simp add: not_less word_le_nat_alt)
  with a show ?thesis by (simp add: word_le_nat_alt)
qed

lemma lock_pages_hypercall:
  assumes "get_process_entry (k_pid k) (xom_entries st) = Some (Some (bs, e, as))"
    and "find_mapping (in_mapping (base_addr c)) (pe_mappings e) = Some (ms, mp, ms')"
    and "contiguous k mp" "unat (uaddr mp) + 4096 * unat (num_pages mp) \<le> 2 ^ 47" "cmd_num_pages c \<noteq> 0"
    and "lock_pages k c st = Some (0, st')"
  shows "k_mmuext_op k \<lparr>op_cmd = MMUEXT_MARK_XOM, op_mfn = pfn mp, op_arg2 = ucast (num_pages mp)\<rparr> 1 DOMID_SELF 0 (mach st)
    = (0, mach st')"
proof -
  let ?i = "ucast ((base_addr c - uaddr mp) div PAGE_SIZE_UL) :: u32"
  let ?op = "\<lparr>op_cmd = MMUEXT_MARK_XOM, op_mfn = pfn mp, op_arg2 = ucast (num_pages mp)\<rparr>"
  from assms(6) obtain mps h where l: "lock_mappings k c (pe_mappings e) (mach st) = Some (0, mps, h)" "mach st' = h"
    unfolding lock_pages_def by (rule with_process_cases) (auto simp: assms(1))
  from l(1) assms(2) have fit: "\<not> base_addr c + ucast (cmd_num_pages c) * PAGE_SIZE_UL > uaddr mp + map_len mp"
    by (auto simp: lock_mappings_def split: if_splits)
  from l(1) assms(2) obtain mp' where x: "xom_invoke_xen k mp ?i (cmd_num_pages c) MMUEXT_MARK_XOM (mach st) = Some (0, mp', h)"
    by (auto simp: lock_mappings_def Let_def bind_eq_Some_conv split: if_splits)
  have le: "cmd_num_pages c \<le> num_pages mp"
    using lock_count[OF _ fit assms(4)] find_mapping_Some[OF assms(2)] by simp
  from x assms(5) obtain ls where ok: "?i + cmd_num_pages c \<le> num_pages mp" "k_kmalloc k ALLOC_GFNS" "lock_status mp = Some ls"
    by (auto simp: xom_invoke_xen_def bind_eq_Some_conv not_less split: if_splits)
  have "0 < cmd_num_pages c" using assms(5) by (simp add: word_neq_0_conv)
  from invoke_contiguous[OF assms(3) this ok(1) le ok(2,3)] x show ?thesis using l(2)
    by (cases "k_mmuext_op k ?op 1 DOMID_SELF 0 (mach st)") (auto split: if_splits)
qed

text \<open>
  C5: from the lock command to the fault. A process has a mapping of pages that are contiguous in
  guest-physical memory, and a lock request for some of them returns 0. Then every page of the mapping that has a valid frame
  keeps it and is execute-only in the new second-level table, and from then on a read or write that the processor reports for such a
  page ends in one general protection fault for the guest, with no other effect.
\<close>

theorem lock_pages_end_to_end:
  assumes "k_mmuext_op k = xen_mmuext me (xen_env env ref wref) preempt"
    and "xom_ok env (mach st)" "hostp2m (mach st) = Some p"
    and "get_process_entry (k_pid k) (xom_entries st) = Some (Some (bs, e, as))"
    and "find_mapping (in_mapping (base_addr c)) (pe_mappings e) = Some (ms, mp, ms')"
    and "contiguous k mp" "unat (uaddr mp) + 4096 * unat (num_pages mp) \<le> 2 ^ 47" "cmd_num_pages c \<noteq> 0"
    and "lock_pages k c st = Some (0, st')"
    and "g \<in> gfns (pfn mp) (unat (num_pages mp))" "ept_view_of env p g = (m, a)" "ev_mfn_valid env m"
  shows "\<exists>q. hostp2m (mach st') = Some q \<and> ept_view_of env q g = (m, p2m_access_x)
    \<and> (\<forall>fe fs lin ql gpa. fe_ops fe = ept_ops env \<longrightarrow> \<not> fe_nested_hap fe \<longrightarrow> \<not> fe_mmio_internal fe gpa \<longrightarrow> f_active fs = q
         \<longrightarrow> drop_bit PAGE_SHIFT gpa = g \<longrightarrow> q_read ql \<or> q_write ql
         \<longrightarrow> ept_handle_violation fe fs lin ql gpa = fs\<lparr>f_exceptions := X86_EXC_GP # f_exceptions fs\<rparr>)"
proof -
  let ?op = "\<lparr>op_cmd = MMUEXT_MARK_XOM, op_mfn = pfn mp, op_arg2 = ucast (num_pages mp)\<rparr>"
  let ?xen = "xen_env env ref wref"
  obtain ret f where f: "set_xom_seal ?xen (mach st) (pfn mp) (num_pages mp) = (ret, f)" by fastforce
  have "op_nr_ents ?op = num_pages mp" by (simp add: op_nr_ents_def ucast_up_down)
  with f have op: "xom_op ?xen (mach st) ?op = Some (ret, f)" by (simp add: xom_op_def)
  from lock_pages_hypercall[OF assms(4-9)]
  have "xen_mmuext me ?xen preempt ?op 1 DOMID_SELF 0 (mach st) = (0, mach st')" unfolding assms(1) .
  from xen_mmuext_hvm[OF this op] have "ret \<ge> 0" "mach st' = f" by simp_all
  moreover have "ret \<le> 0" using xen.set_xom_seal_spec[OF assms(2,3) f] by blast
  ultimately have ret: "ret = 0" "mach st' = f" by simp_all
  from set_xom_seal_effect[OF assms(2,3) f] ret(1) assms(10-12) obtain q where
    q: "f = mach st\<lparr>hostp2m := Some q, tlb_flushes := tlb_flushes f\<rparr>" "ept_view_of env q g = (m, p2m_access_x)" by blast
  have "hostp2m f = Some q" by (subst q(1)) simp
  moreover have "m \<noteq> INVALID_MFN" using assms(2,3,12) by (auto simp: dom_ok_def ept_ok_def ept_env_ok_def)
  then have "ept_handle_violation fe fs lin ql gpa = fs\<lparr>f_exceptions := X86_EXC_GP # f_exceptions fs\<rparr>"
    if "fe_ops fe = ept_ops env" "\<not> fe_nested_hap fe" "\<not> fe_mmio_internal fe gpa" "f_active fs = q"
      "drop_bit PAGE_SHIFT gpa = g" "q_read ql \<or> q_write ql" for fe fs lin ql gpa
    using data_access_faults[OF that(2) _ _ _ that(6), of gpa fs m lin] q(2) that by simp
  ultimately show ?thesis using q(2) ret(2) by blast
qed

text \<open>A guest on the sample hypervisor: one process with one page, frame 5, mapped at 0x20000.\<close>

definition sample_me :: mmuext_env where
  "sample_me = \<lparr>me_domain_id = 1, me_domains = (\<lambda>i. if i \<le> 1 then Some False else None), me_dom_io = True,
     me_dom_xen = True, me_xsm = - EPERM\<rparr>"

definition guest_kernel :: "mmuext_env \<Rightarrow> ept_data xom_domain kernel" where
  "guest_kernel me = \<lparr>k_virt_to_phys = id, k_mmuext_op = xen_mmuext me sample_xen (\<lambda>_. False),
     k_vm_munmap = (\<lambda>_ _ h. (0, h)), k_remap_pfn_range = (\<lambda>_ _ _ h. (0, h)), k_get_order = (\<lambda>_. 0),
     k_get_free_pages = (\<lambda>_ h. (0x6000, h)), k_free_pages = (\<lambda>_ _ h. h), k_set_reserved = (\<lambda>_ _ h. h),
     k_store = (\<lambda>_ _ h. h), k_kmalloc = (\<lambda>_. True), k_user_byte = (\<lambda>_. None),
     k_user_writable = (\<lambda>_ _. True), k_find_vma = (\<lambda>a _. Some (a, a + 0x1000)), k_pid = 7, k_exiting = False,
     k_xen_hvm = True\<rparr>"

definition guest_mapping :: "u64 \<Rightarrow> u8 list \<Rightarrow> xom_mapping" where
  "guest_mapping frame ls = \<lparr>num_pages = 1, uaddr = 0x20000, kaddr = push_bit 12 frame, pfn = frame, lock_status = Some ls,
     subpage_level = False\<rparr>"

definition guest_mod :: "u64 \<Rightarrow> u8 list \<Rightarrow> ept_data xom_domain modxom" where
  "guest_mod frame ls = \<lparr>xom_entries = [\<lparr>pe_pid = 7, pe_mappings = [guest_mapping frame ls], pe_freed = False\<rparr>],
     src_operand_page = 0x1000, mach = sample_dom\<rparr>"

lemma guest_mod_sel [simp]:
  "mach (guest_mod frame ls) = sample_dom" "k_pid (guest_kernel me) = 7" "k_kmalloc (guest_kernel me) i"
  "k_mmuext_op (guest_kernel me) = xen_mmuext me sample_xen (\<lambda>_. False)"
  "pfn (guest_mapping frame ls) = frame" "num_pages (guest_mapping frame ls) = 1" "uaddr (guest_mapping frame ls) = 0x20000"
  "lock_status (guest_mapping frame ls) = Some ls" "\<not> subpage_level (guest_mapping frame ls)"
  by (simp_all add: guest_mod_def guest_kernel_def guest_mapping_def)

lemma guest_entry:
  "get_process_entry 7 (xom_entries (guest_mod frame ls)) =
     Some (Some ([], \<lparr>pe_pid = 7, pe_mappings = [guest_mapping frame ls], pe_freed = False\<rparr>, []))"
  by (simp add: guest_mod_def)

lemma guest_in_mapping: "in_mapping 0x20000 (guest_mapping frame ls)"
  by (simp add: in_mapping_def map_len_def)

lemma guest_contiguous: "frame \<in> {2, 5} \<Longrightarrow> contiguous (guest_kernel me) (guest_mapping frame ls)"
  by (auto simp: contiguous_def guest_kernel_def guest_mapping_def)

lemma guest_hypercall:
  assumes "xom_op sample_xen sample_dom op = Some (0, f)"
  shows "xen_mmuext sample_me sample_xen (\<lambda>_. False) op n sc 0 sample_dom = (0, f)"
proof -
  have "is_hvm_domain sample_dom" "hap_enabled sample_dom" by (simp_all add: sample_dom_def)
  with assms show ?thesis
    by (simp add: xen_mmuext_def do_mmuext_op_def get_pg_owner_def rcu_lock_domain_by_any_id_def sample_me_def
        handle_xom_seal_def)
qed

theorem lock_pages_end_to_end_witness:
  "\<exists>st' q. lock_pages (guest_kernel sample_me) \<lparr>cmd = 2, cmd_num_pages = 1, base_addr = 0x20000\<rparr> (guest_mod 5 [0]) = Some (0, st')
    \<and> hostp2m (mach st') = Some q \<and> ept_view_of sample_env q 5 = (0x105, p2m_access_x)"
proof -
  let ?c = "\<lparr>cmd = 2, cmd_num_pages = 1, base_addr = 0x20000\<rparr>" and ?k = "guest_kernel sample_me" and ?mp = "guest_mapping 5 [0]"
  obtain f where f: "set_xom_seal sample_xen sample_dom 5 1 = (0, f)" using sample_seal by (metis prod.collapse)
  then have "xom_op sample_xen sample_dom \<lparr>op_cmd = MMUEXT_MARK_XOM, op_mfn = 5, op_arg2 = 1\<rparr> = Some (0, f)"
    by (simp add: xom_op_def op_nr_ents_def)
  from guest_hypercall[OF this, of 1 DOMID_SELF] invoke_contiguous[OF guest_contiguous, of 5 1 0 "[0]" sample_me "[0]" MMUEXT_MARK_XOM sample_dom]
  have "\<exists>mp'. xom_invoke_xen ?k ?mp 0 1 MMUEXT_MARK_XOM sample_dom = Some (0, mp', f)"
    by (simp add: set_lock_status_def)
  then have "\<exists>st'. lock_pages ?k ?c (guest_mod 5 [0]) = Some (0, st')"
    by (auto simp: lock_pages_def with_process_def guest_entry lock_mappings_def guest_in_mapping map_len_def)
  then obtain st' where st': "lock_pages ?k ?c (guest_mod 5 [0]) = Some (0, st')" by blast
  have d: "xom_ok sample_env (mach (guest_mod 5 [0]))" "hostp2m (mach (guest_mod 5 [0])) = Some sample_p2m"
    using sample_dom_ok sample_dom_p2m by simp_all
  have e: "get_process_entry (k_pid ?k) (xom_entries (guest_mod 5 [0])) =
      Some (Some ([], \<lparr>pe_pid = 7, pe_mappings = [?mp], pe_freed = False\<rparr>, []))" using guest_entry by simp
  have m: "find_mapping (in_mapping (base_addr ?c)) (pe_mappings \<lparr>pe_pid = 7, pe_mappings = [?mp], pe_freed = False\<rparr>) = Some ([], ?mp, [])"
    using guest_in_mapping by simp
  have v: "ept_view_of sample_env sample_p2m 5 = (0x105, p2m_access_rwx)" "ev_mfn_valid sample_env 0x105"
    by (simp_all add: sample_view) (simp add: sample_env_def)
  from lock_pages_end_to_end[OF guest_mod_sel(4) d e m guest_contiguous _ _ st' _ v] st' show ?thesis by auto
qed

subsection \<open>Freeing\<close>

text \<open>Kernel services other than the hypercall leave the hypervisor's view of the guest alone.\<close>

definition kernel_neutral :: "'h kernel \<Rightarrow> bool" where
  "kernel_neutral k \<longleftrightarrow> (\<forall>b a h. k_set_reserved k b a h = h) \<and> (\<forall>a n h. snd (k_vm_munmap k a n h) = h)
     \<and> (\<forall>a n h. k_free_pages k a n h = h)"

lemma reserve_neutral: "kernel_neutral k \<Longrightarrow> reserve_pages k b a n h = h"
proof -
  assume "kernel_neutral k"
  then have "fold (\<lambda>i. k_set_reserved k b (a + of_nat i * PAGE_SIZE_UL)) xs h = h" for xs :: "nat list"
    by (induction xs) (simp_all add: kernel_neutral_def)
  then show ?thesis by (simp add: reserve_pages_def)
qed

lemma release_unlocked_neutral: "kernel_neutral k \<Longrightarrow> snd (snd (release_unlocked k mp h)) = h"
  by (simp add: release_unlocked_def reserve_neutral Let_def case_prod_unfold)
     (simp add: kernel_neutral_def)



subsection \<open>The domain a hypercall names\<close>

text \<open>
  The module asks the wrong domain. It passes its arguments to the hypercall wrapper so that the call names domain 0 and
  not the guest itself. If domain 0 is a PV domain, no command gets through: a lock request, the creation of
  subpages, a subpage write and a request for register clearing leave the hypervisor's state as it is, and return an error unless they ask
  for no pages at all.
\<close>

lemma pv_dom0_refuses_commands:
  assumes "k_mmuext_op k = xen_mmuext me env preempt" "me_domain_id me \<noteq> 0" "me_domains me 0 = Some True"
    and "command \<in> {lock_pages k c, xom_init_subpages k c, xom_subpage_write_xen k c,
      xom_forward_to_hypervisor k (base_addr c) MMUEXT_MARK_REG_CLEAR (cmd_num_pages c)}"
    and "command st = Some (ret, st')"
  shows "mach st' = mach st \<and> (ret = 0 \<longrightarrow> cmd_num_pages c = 0)"
proof -
  have owner: "get_pg_owner me d (ucast (ucast (0 :: u64) :: u32)) = Some True" for d :: "'a xom_domain"
    using assms(2,3) by (simp add: get_pg_owner_def rcu_lock_domain_by_any_id_def)
  have fail: "\<exists>rc. rc \<noteq> 0 \<and> hypercall k op 1 0 DOMID_SELF d = (rc, d)" if "op_cmd op > 4" for op d
    using xen_mmuext_pv[OF owner that] by (simp add: hypercall_def assms(1))
  have inv: "h = d \<and> (r = 0 \<longrightarrow> n = 0)" if "xom_invoke_xen k mp i n mc d = Some (r, mp', h)" "mc > 4" for mp i n mc d r mp' h
  proof -
    obtain pc cur where g: "group_pages k mp 0 0 (pfn mp) = (pc, cur)" by fastforce
    from fail[of "\<lparr>op_cmd = mc, op_mfn = pfn mp, op_arg2 = of_nat pc\<rparr>" d] that(2) obtain rc where
      rc: "rc \<noteq> 0" "hypercall k \<lparr>op_cmd = mc, op_mfn = pfn mp, op_arg2 = of_nat pc\<rparr> 1 0 DOMID_SELF d = (rc, d)" by auto
    have "invoke_loop k mp (unat i) (unat n) mc 0 (pfn mp) ls d = Some (- EINVAL, ls, d)" if "n \<noteq> 0" for ls
      using that by (subst invoke_loop.simps) (simp add: g rc unat_gt_0)
    with that(1) show ?thesis by (auto simp: xom_invoke_xen_def bind_eq_Some_conv split: if_splits)
  qed
  have hyp: "s \<noteq> 0 \<and> h = d" if "hypercall k op 1 0 DOMID_SELF d = (s, h)" "op_cmd op > 4" for op d s h
    using fail[OF that(2), of d] that(1) by auto
  have "h = d \<and> (r = 0 \<longrightarrow> cmd_num_pages c = 0)" if "lock_mappings k c mps d = Some (r, mps', h)" for mps d r mps' h
    using that inv by (fastforce simp: lock_mappings_def Let_def bind_eq_Some_conv split: option.splits if_splits prod.splits)
  moreover have "h = d \<and> (r = 0 \<longrightarrow> cmd_num_pages c = 0)" if "init_subpages_mappings k c mps d = Some (r, mps', h)" for mps d r mps' h
    using that inv by (fastforce simp: init_subpages_mappings_def bind_eq_Some_conv split: option.splits if_splits prod.splits)
  moreover have "h = d \<and> (r = 0 \<longrightarrow> cmd_num_pages c = 0)" if "subpage_write_mappings k src c mps d = Some (r, mps', h)" for src mps d r mps' h
    using that hyp by (fastforce simp: subpage_write_mappings_def Let_def split: option.splits if_splits prod.splits)
  moreover have "h = d \<and> (r = 0 \<longrightarrow> cmd_num_pages c = 0)" if "forward_mappings k a MMUEXT_MARK_REG_CLEAR n mps d = Some (r, mps', h)" for a n mps d r mps' h
    using that hyp by (fastforce simp: forward_mappings_def Let_def split: option.splits if_splits prod.splits)
  ultimately show ?thesis using assms(4,5)
    by (auto simp: command_defs split: if_splits elim!: with_process_cases)
qed

section \<open>The user library on top of the kernel module\<close>

text \<open>
  The world of the user library is now the state of the kernel module. The bytes of a \<^verbatim>\<open>write\<close> are in the memory of the process.
\<close>

definition user_buf :: "u8 list \<Rightarrow> u64 \<Rightarrow> u8 option" where
  "user_buf bs a = (if unat a < length bs then Some (bs ! unat a) else None)"

definition proc_write :: "'h kernel \<Rightarrow> u8 list \<Rightarrow> 'h modxom \<Rightarrow> int \<times> 'h modxom" where
  "proc_write k bs st = (case xom_write (k\<lparr>k_user_byte := user_buf bs\<rparr>) 0 (length bs) st of None \<Rightarrow> (- EFAULT, st) | Some r \<Rightarrow> r)"

lemma those_Some: "those (map Some xs) = Some xs"
  by (induction xs) simp_all

lemma copy_user_buf: "length bs < 2 ^ 64 \<Longrightarrow> copy_from_user (k\<lparr>k_user_byte := user_buf bs\<rparr>) 0 (length bs) = Some bs"
proof -
  assume "length bs < 2 ^ 64"
  then have "map (\<lambda>i. user_buf bs (0 + of_nat i)) [0..<length bs] = map Some bs"
    by (intro nth_equalityI) (simp_all add: user_buf_def unat_of_nat)
  then show ?thesis by (simp add: copy_from_user_def those_Some)
qed

lemma write_process [simp]: "with_process (k\<lparr>k_user_byte := u\<rparr>) f = with_process k f"
  by (rule ext) (simp add: with_process_def)

lemma subpage_write_user [simp]:
  "subpage_write_mappings (k\<lparr>k_user_byte := u\<rparr>) = subpage_write_mappings k"
  by (intro ext) (simp add: subpage_write_mappings_def frame_of_def hypercall_def case_prod_unfold Let_def split: option.split)

text \<open>A subpage command that the module accepts is a hypercall on the state with the records in the operand page.\<close>

lemma proc_write_subpages:
  assumes "proc_write k (cmd_bytes c @ recs) st = (r, st')" "r \<ge> 0" "recs \<noteq> []" "length recs < 2 ^ 32"
    and "get_process_entry (k_pid k) (xom_entries st) = Some (Some (bs, e, as))"
    and "find_mapping (in_mapping (base_addr c)) (pe_mappings e) = Some (ms, mp, ms')"
  shows "k_mmuext_op k \<lparr>op_cmd = MMUEXT_WRITE_XOM_SPAGES, op_mfn = frame_of k mp (base_addr c),
      op_arg2 = drop_bit PAGE_SHIFT (k_virt_to_phys k (src_operand_page st))\<rparr> 1 DOMID_SELF 0
      (k_store k (src_operand_page st) recs (mach st)) = (0, mach st')"
proof -
  let ?b = "cmd_bytes c @ recs" and ?u = "k\<lparr>k_user_byte := user_buf (cmd_bytes c @ recs)\<rparr>"
  let ?st = "st\<lparr>mach := k_store k (src_operand_page st) recs (mach st)\<rparr>"
  have len: "\<not> length ?b < SIZEOF_CMD" "length ?b > SIZEOF_CMD" using assms(3) by (cases recs; simp)+
  have "copy_from_user ?u 0 (length ?b) = Some ?b" using assms(4) by (intro copy_user_buf) simp
  moreover from assms(1,2) have "xom_write ?u 0 (length ?b) st = Some (r, st')"
    by (auto simp: proc_write_def split: option.splits)
  then have "xom_write_into_subpages ?u 0 (length ?b) st = Some (r, st')" using len by (simp add: xom_write_def)
  ultimately have "xom_subpage_write_xen ?u c ?st = Some (r, st')"
    using assms(2) by (auto simp: xom_write_into_subpages_def read_cmd_cmd_bytes Let_def split: if_splits)
  then have "with_process k (subpage_write_mappings k (src_operand_page st) c) ?st = Some (r, st')"
    by (simp add: xom_subpage_write_xen_def)
  then obtain mps h where "subpage_write_mappings k (src_operand_page st) c (pe_mappings e) (mach ?st) = Some (r, mps, h)" "mach st' = h"
    by (rule with_process_cases) (use assms(2,5) in auto)
  with assms(2,6) show ?thesis
    by (auto simp: subpage_write_mappings_def hypercall_def Let_def split: if_splits prod.splits)
qed

text \<open>\<open>store_page k a f\<close>: the kernel's \<^verbatim>\<open>memcpy\<close> to the page at \<open>a\<close> writes the frame \<open>f\<close> and nothing else.\<close>

definition overlay :: "u8 list \<Rightarrow> (nat \<Rightarrow> u8) \<Rightarrow> nat \<Rightarrow> u8" where
  "overlay bs pg i = (if i < length bs then bs ! i else pg i)"

definition store_page :: "'e xom_domain kernel \<Rightarrow> u64 \<Rightarrow> u64 \<Rightarrow> bool" where
  "store_page k a f \<longleftrightarrow> (\<forall>bs d. k_store k a bs d = d\<lparr>guest_mem := (guest_mem d)(f := overlay bs (guest_mem d f))\<rparr>)"

text \<open>The hypercall for such records: what the page and its lock status are afterwards.\<close>

lemma write_records_effect:
  assumes "xen_mmuext me env preempt \<lparr>op_cmd = MMUEXT_WRITE_XOM_SPAGES, op_mfn = g, op_arg2 = src\<rparr> 1 DOMID_SELF 0
      (d\<lparr>guest_mem := (guest_mem d)(f := overlay (subpage_records n s data) (guest_mem d f))\<rparr>) = (0, d')"
    and "page_inv (xom_subpages d)" "hostp2m d = Some p" "get_page_from_gfn env p src = Some f" "get_page_from_gfn env p g \<noteq> Some f"
    and "n \<le> 31" "s + n \<le> 32" "\<forall>i < n. length (data i) = 128"
  shows "\<exists>dest ls ls'. get_page_from_gfn env p g = Some dest
    \<and> page_alpha (xom_subpages d) g = Some ls \<and> page_alpha (xom_subpages d') g = Some ls'
    \<and> (\<forall>off. guest_mem d' dest off = (if s * 128 \<le> off \<and> off < (s + n) * 128
         then data (off div 128 - s) ! (off mod 128) else guest_mem d dest off))
    \<and> (\<forall>i. bit ls' i \<longleftrightarrow> bit ls i \<or> s \<le> i \<and> i < s + n) \<and> (\<forall>i. s \<le> i \<and> i < s + n \<longrightarrow> \<not> bit ls i)
    \<and> (\<forall>m. m \<noteq> f \<and> m \<noteq> dest \<longrightarrow> guest_mem d' m = guest_mem d m)"
proof -
  let ?e = "d\<lparr>guest_mem := (guest_mem d)(f := overlay (subpage_records n s data) (guest_mem d f))\<rparr>"
  have inv: "page_inv (xom_subpages ?e)" "hostp2m ?e = Some p" using assms(2,3) by simp_all
  from write_into_subpage_spec[OF inv, of env g src] obtain ret e where w: "write_into_subpage env ?e g src = Some (ret, e)" "ret \<le> 0"
    and spec: "if ret \<noteq> 0 then e = ?e else \<exists>ls src' dest sub. page_alpha (xom_subpages ?e) g = Some ls
         \<and> get_page_from_gfn env p src = Some src' \<and> get_page_from_gfn env p g = Some dest
         \<and> unat (guest_mem ?e src' 0) \<le> MAX_SUBPAGES_PER_CMD \<and> valid_targets ls (command_of (guest_mem ?e src'))
         \<and> page_inv sub \<and> page_count sub = page_count (xom_subpages ?e) \<and> page_alpha sub = (page_alpha (xom_subpages ?e))
              (g \<mapsto> snd (write_subpages (command_of (guest_mem ?e src')) (guest_mem ?e dest) ls))
         \<and> e = ?e\<lparr>guest_mem := (guest_mem ?e)
                 (dest := fst (write_subpages (command_of (guest_mem ?e src')) (guest_mem ?e dest) ls)), xom_subpages := sub\<rparr>" by blast
  have "xom_op env ?e \<lparr>op_cmd = MMUEXT_WRITE_XOM_SPAGES, op_mfn = g, op_arg2 = src\<rparr> = Some (ret, e)"
    using w(1) by (simp add: xom_op_def op_src_mfn_def)
  from xen_mmuext_hvm[OF assms(1) this] w(2) have ret: "ret = 0" "d' = e" by simp_all
  from spec ret(1) assms(4) obtain ls dest sub where *: "page_alpha (xom_subpages d) g = Some ls" "get_page_from_gfn env p g = Some dest"
      "valid_targets ls (command_of (guest_mem ?e f))" "page_alpha sub = (page_alpha (xom_subpages d))
         (g \<mapsto> snd (write_subpages (command_of (guest_mem ?e f)) (guest_mem ?e dest) ls))"
      "e = ?e\<lparr>guest_mem := (guest_mem ?e)
         (dest := fst (write_subpages (command_of (guest_mem ?e f)) (guest_mem ?e dest) ls)), xom_subpages := sub\<rparr>" by auto
  have "starts_with (guest_mem ?e f) (subpage_records n s data)" by (simp add: starts_with_def overlay_def)
  from command_of_records(1)[OF this assms(6,8)]
  have c: "command_of (guest_mem ?e f) = map (\<lambda>i. \<lparr>target_subpage = of_nat (i + s), wi_data = data i\<rparr>) [0..<n]" .
  have "dest \<noteq> f" using *(2) assms(5) by auto
  then have pg: "guest_mem ?e dest = guest_mem d dest" by simp
  note written = write_subpages_written[OF *(3), of "guest_mem d dest", unfolded c]
  have "guest_mem d' dest = fst (write_subpages (command_of (guest_mem ?e f)) (guest_mem d dest) ls)" "xom_subpages d' = sub"
    "\<forall>m. m \<noteq> f \<and> m \<noteq> dest \<longrightarrow> guest_mem d' m = guest_mem d m"
    using \<open>dest \<noteq> f\<close> unfolding ret(2) by (subst *(5), simp)+
  with *(1,2,4) records_written[OF written assms(7)] show ?thesis unfolding c pg by auto
qed


text \<open>A process of the sample guest with a buffer of subpages, whose memory holds the byte 0x41 everywhere.\<close>

definition fill_kernel :: "ept_data xom_domain kernel" where
  "fill_kernel = (guest_kernel sample_me)\<lparr>k_store :=
     (\<lambda>_ bs d. d\<lparr>guest_mem := (guest_mem d)(0x101 := overlay bs (guest_mem d 0x101))\<rparr>)\<rparr>"

definition fill_mapping :: xom_mapping where
  "fill_mapping = (guest_mapping 3 [1])\<lparr>subpage_level := True\<rparr>"

definition fill_mod :: "ept_data xom_domain modxom" where
  "fill_mod = \<lparr>xom_entries = [\<lparr>pe_pid = 7, pe_mappings = [fill_mapping], pe_freed = False\<rparr>],
     src_operand_page = 0x1000, mach = sample_dom\<rparr>"

definition fill_os :: "ept_data xom_domain modxom os" where
  "fill_os = \<lparr>os_mmap = (\<lambda>a _ _ _ _ w. (a, w)), os_munmap = (\<lambda>_ _ w. (0, w)), os_mprotect = (\<lambda>_ _ _ w. (0, w)),
     os_pkey_alloc = (\<lambda>w. (1, w)), os_pkey_mprotect = (\<lambda>_ _ _ _ w. w), os_rdpkru = (\<lambda>_. 0), os_wrpkru = (\<lambda>_ w. w),
     os_write = (\<lambda>_. proc_write fill_kernel), os_open_xom = (\<lambda>w. (3, w)), os_close = (\<lambda>_ w. w),
     os_store = (\<lambda>_ _ w. w), os_load = (\<lambda>_ n _. replicate n 0x41), os_malloc = (\<lambda>_. True), os_pid = 7, os_pku = False\<rparr>"

definition fill_lib :: "ept_data xom_domain modxom libxom" where
  "fill_lib = \<lparr>xomfd = 3, subpage_pkey = - 1, xom_mode = XOM_MODE_SLAT, xom_base_addr = 0, libxom_pid = 7, errno = 0, world = fill_mod\<rparr>"

definition fill_buf :: xom_subpages where
  "fill_buf = \<lparr>sp_address = 0x20000, sp_mode = XOM_MODE_SLAT, sp_lock_status = [1], sp_num_subpages = 32, references = 1\<rparr>"

lemma sample_pages: "get_page_from_gfn sample_xen sample_p2m 1 = Some 0x101" "get_page_from_gfn sample_xen sample_p2m 3 = Some 0x103"
  by (simp_all add: sample_op_eval) (simp flip: numeral_3_eq_3)

lemma fill_sel [simp]:
  "k_mmuext_op fill_kernel = xen_mmuext sample_me sample_xen (\<lambda>_. False)" "k_pid fill_kernel = 7" "k_virt_to_phys fill_kernel = id"
  "k_kmalloc fill_kernel i" "world fill_lib = fill_mod" "mach fill_mod = sample_dom" "src_operand_page fill_mod = 0x1000"
  "os_write fill_os fd = proc_write fill_kernel" "os_load fill_os a n w = replicate n 0x41" "os_malloc fill_os i" "xomfd fill_lib = 3"
  "sp_address fill_buf = 0x20000" "sp_mode fill_buf = XOM_MODE_SLAT" "sp_lock_status fill_buf = [1]" "sp_num_subpages fill_buf = 32"
  "uaddr fill_mapping = 0x20000" "kaddr fill_mapping = 0x3000" "num_pages fill_mapping = 1" "subpage_level fill_mapping"
  by (simp_all add: fill_kernel_def guest_kernel_def fill_lib_def fill_mod_def fill_os_def fill_buf_def fill_mapping_def guest_mapping_def)

lemma fill_entry: "get_process_entry 7 (xom_entries fill_mod) =
    Some (Some ([], \<lparr>pe_pid = 7, pe_mappings = [fill_mapping], pe_freed = False\<rparr>, []))"
  by (simp add: fill_mod_def)

lemma fill_in_mapping: "in_mapping 0x20000 fill_mapping" "frame_of fill_kernel fill_mapping 0x20000 = 3"
  by (simp_all add: in_mapping_def map_len_def frame_of_def)

lemma fill_store: "store_page fill_kernel 0x1000 0x101"
  by (simp add: store_page_def fill_kernel_def)

text \<open>The hypercall for one record, for subpage 1.\<close>

lemma fill_hypercall:
  "\<exists>d'. xen_mmuext sample_me sample_xen (\<lambda>_. False) \<lparr>op_cmd = 24, op_mfn = 3, op_arg2 = 1\<rparr> 1 DOMID_SELF 0
     (k_store fill_kernel 0x1000 (subpage_records 1 1 (\<lambda>_. replicate 128 0x41)) sample_dom) = (0, d')"
proof -
  let ?recs = "subpage_records 1 1 (\<lambda>_. replicate 128 0x41)"
  let ?d = "sample_dom\<lparr>guest_mem := (guest_mem sample_dom)(0x101 := overlay ?recs (guest_mem sample_dom 0x101))\<rparr>"
  have k: "k_store fill_kernel 0x1000 ?recs sample_dom = ?d" using fill_store by (simp add: store_page_def)
  have "starts_with (guest_mem ?d 0x101) ?recs" by (simp add: starts_with_def overlay_def)
  from command_of_records[OF this] have c: "command_of (guest_mem ?d 0x101) = [\<lparr>target_subpage = 1, wi_data = replicate 128 0x41\<rparr>]"
    "unat (guest_mem ?d 0x101 0) = 1" by simp_all
  have p: "hostp2m ?d = Some sample_p2m" "max_mapped_pfn sample_p2m = 7" by (simp_all add: sample_dom_p2m sample_p2m_def)
  have inv: "page_inv (xom_subpages ?d)" using sample_dom_ok by (simp add: dom_ok_def)
  have a: "page_alpha (xom_subpages ?d) 3 = Some 1" by (simp add: sample_dom_def page_alpha_def)
  obtain r where r: "get_page_info_entry (xom_subpages ?d) 3 = Some r" using page_info.find_Some[OF inv a] by blast
  with page_info.val_found[OF inv r] a have v: "page_info_get r = Some 1" by simp
  have "valid_targets 1 [\<lparr>target_subpage = 1, wi_data = replicate 128 0x41\<rparr>]" by (simp add: valid_targets_def subpage_bit_def)
  moreover have "get_page_type sample_xen 0x103" by (simp add: xen_env_def)
  ultimately have "\<exists>e. write_into_subpage sample_xen ?d 3 1 = Some (0, e)"
    unfolding write_into_subpage_found[OF r v p(1)] sample_pages option.case c p(2)
    using page_info.put_found[OF inv r] by (force split: option.splits)
  then obtain e where "xom_op sample_xen ?d \<lparr>op_cmd = 24, op_mfn = 3, op_arg2 = 1\<rparr> = Some (0, e)"
    by (auto simp: xom_op_def op_src_mfn_def)
  moreover have "is_hvm_domain ?d" "hap_enabled ?d" by (simp_all add: sample_dom_def)
  ultimately show ?thesis unfolding k
    by (simp add: xen_mmuext_def do_mmuext_op_def get_pg_owner_def rcu_lock_domain_by_any_id_def sample_me_def handle_xom_seal_def)
qed

lemma fill_write:
  fixes recs
  defines "recs \<equiv> subpage_records 1 1 (\<lambda>_. replicate 128 0x41)"
  shows "\<exists>st'. proc_write fill_kernel (cmd_bytes \<lparr>cmd = 4, cmd_num_pages = 1, base_addr = 0x20000\<rparr> @ recs) fill_mod = (0, st')"
proof -
  let ?c = "\<lparr>cmd = 4, cmd_num_pages = 1, base_addr = 0x20000\<rparr>"
  let ?u = "fill_kernel\<lparr>k_user_byte := user_buf (cmd_bytes ?c @ recs)\<rparr>"
  obtain d' where d': "xen_mmuext sample_me sample_xen (\<lambda>_. False) \<lparr>op_cmd = 24, op_mfn = 3, op_arg2 = 1\<rparr> 1 DOMID_SELF 0
     (k_store fill_kernel 0x1000 recs sample_dom) = (0, d')" using fill_hypercall unfolding recs_def by blast
  have "\<exists>st'. with_process fill_kernel (subpage_write_mappings fill_kernel 0x1000 ?c) (fill_mod\<lparr>mach := k_store fill_kernel 0x1000 recs sample_dom\<rparr>) = Some (0, st')"
    using d' by (simp add: with_process_def fill_entry subpage_write_mappings_def fill_in_mapping hypercall_def)
  moreover have len: "length recs = 130" unfolding recs_def by (subst length_subpage_records) simp_all
  moreover have "recs ! 0 = 1" by (simp add: recs_def subpage_records_def)
  moreover have "copy_from_user ?u 0 (length (cmd_bytes ?c @ recs)) = Some (cmd_bytes ?c @ recs)" using len by (intro copy_user_buf) simp
  ultimately show ?thesis
    by (auto simp: proc_write_def xom_write_def xom_write_into_subpages_def read_cmd_cmd_bytes xom_subpage_write_xen_def nth_append)
qed

lemma fill_search: "List.find (position_free [1] (push_bit 1 1 - 1)) (subpage_positions 1 1) = Some (0, 1)"
  by code_simp

lemma fill_pages_buf: "fill_pages fill_buf = 1" "subpages_ok fill_buf"
  by (simp_all add: fill_pages_def subpages_ok_def)

lemma fill_returns:
  "\<exists>sp' l'. xom_fill_and_lock_subpages_internal fill_os fill_buf 100 0x5000 fill_lib = Some (0x20080, sp', l')"
proof -
  obtain st' where "proc_write fill_kernel (cmd_bytes \<lparr>cmd = 4, cmd_num_pages = 1, base_addr = 0x20000\<rparr> @
      subpage_records 1 1 (\<lambda>_. replicate 128 0x41)) fill_mod = (0, st')" using fill_write by blast
  then have w: "lib_write fill_os (fill_cmd fill_os fill_buf 1 0x5000 0 1 fill_mod) fill_lib = (0, fill_lib\<lparr>world := st'\<rparr>)"
    by (simp add: lib_write_def fill_cmd_def syscall_ret_def)
  have "xom_fill_and_lock_subpages_internal fill_os fill_buf 100 0x5000 fill_lib =
      (case List.find (position_free (sp_lock_status fill_buf) (push_bit 1 1 - 1)) (subpage_positions (fill_pages fill_buf) 1) of
       Some (p, s) \<Rightarrow> (let (status, l') = lib_write fill_os (fill_cmd fill_os fill_buf 1 0x5000 p s (world fill_lib)) fill_lib
         in if status < 0 then Some (0, fill_buf, l')
            else Some (sp_address fill_buf + of_nat p * 4096 + of_nat s * 128, add_run fill_buf 1 p s, l'))
     | None \<Rightarrow> Some (0, fill_buf, fill_lib\<lparr>errno := - ENOMEM\<rparr>))"
    by (rule fill_code) (simp_all add: fill_pages_buf)
  then show ?thesis unfolding fill_pages_buf fill_sel(14) fill_search option.case prod.case fill_sel(5) w by simp
qed


end
